(* ===== verification/Kernel_Prelude.thy ===== *)
theory Kernel_Prelude
  imports Main "HOL-Library.Word"
begin

text \<open>
  Shared vocabulary of the development: the machine types of the i386 kernel, the error
  numbers the modelled code returns, the outcome of running a piece of kernel code, and the
  generic lemmas on lists and words that the component theories use.

  A C function that returns normally is \<open>Ret v\<close>. \<open>Oops f\<close> is a run that does not come back
  with a value: a dereference of a null pointer, an access outside an array, a failed
  \<open>BUG_ON\<close>, or a task that spins on a lock it already holds. \<open>Oops (Sleeps)\<close> is a task put
  on a wait queue: the call has not returned yet.
\<close>

unbundle bit_operations_syntax

section \<open>Machine types\<close>

type_synonym u8 = "8 word"
type_synonym u16 = "16 word"
type_synonym u32 = "32 word"
type_synonym u64 = "64 word"

text \<open>\<open>int\<close> results (0, a byte count, or a negated error number) are mathematical integers;
  where the width of a value matters it is a word.\<close>

type_synonym errno = int

definition EPERM :: errno where "EPERM = 1"
definition ENOENT :: errno where "ENOENT = 2"
definition ESRCH :: errno where "ESRCH = 3"
definition EIO :: errno where "EIO = 5"
definition EBADF :: errno where "EBADF = 9"
definition EAGAIN :: errno where "EAGAIN = 11"
definition ENOMEM :: errno where "ENOMEM = 12"
definition EACCES :: errno where "EACCES = 13"
definition EFAULT :: errno where "EFAULT = 14"
definition EBUSY :: errno where "EBUSY = 16"
definition EEXIST :: errno where "EEXIST = 17"
definition ENOTDIR :: errno where "ENOTDIR = 20"
definition EISDIR :: errno where "EISDIR = 21"
definition EINVAL :: errno where "EINVAL = 22"
definition ENFILE :: errno where "ENFILE = 23"
definition ENOTTY :: errno where "ENOTTY = 25"
definition ETXTBSY :: errno where "ETXTBSY = 26"
definition ESPIPE :: errno where "ESPIPE = 29"
definition EROFS :: errno where "EROFS = 30"
definition EPIPE :: errno where "EPIPE = 32"
definition ERANGE :: errno where "ERANGE = 34"
definition ENOSYS :: errno where "ENOSYS = 38"
definition ELOOP :: errno where "ELOOP = 40"
definition EOVERFLOW :: errno where "EOVERFLOW = 75"
definition EOPNOTSUPP :: errno where "EOPNOTSUPP = 95"
definition ERESTARTSYS :: errno where "ERESTARTSYS = 512"

lemmas errno_defs =
  EPERM_def ENOENT_def ESRCH_def EIO_def EBADF_def EAGAIN_def ENOMEM_def EACCES_def
  EFAULT_def EBUSY_def EEXIST_def ENOTDIR_def EISDIR_def EINVAL_def ENFILE_def ENOTTY_def
  ETXTBSY_def ESPIPE_def EROFS_def EPIPE_def ERANGE_def ENOSYS_def ELOOP_def EOVERFLOW_def
  EOPNOTSUPP_def ERESTARTSYS_def

text \<open>The mode of an open file.\<close>

definition FMODE_READ :: u32 where "FMODE_READ = 1"
definition FMODE_WRITE :: u32 where "FMODE_WRITE = 2"

section \<open>Outcomes of kernel code\<close>

datatype fault = NullDeref | OutOfBounds | BugOn | Deadlock | Sleeps

datatype 'a outcome = Ret 'a | Oops fault

primrec bindO :: "'a outcome \<Rightarrow> ('a \<Rightarrow> 'b outcome) \<Rightarrow> 'b outcome" where
  "bindO (Ret x) f = f x"
| "bindO (Oops e) f = Oops e"

primrec returns :: "'a outcome \<Rightarrow> bool" where
  "returns (Ret x) = True"
| "returns (Oops e) = False"

lemma bindO_Ret_iff: "bindO m f = Ret y \<longleftrightarrow> (\<exists>x. m = Ret x \<and> f x = Ret y)"
  by (cases m) auto

lemma bindO_assoc: "bindO (bindO m f) g = bindO m (\<lambda>x. bindO (f x) g)"
  by (cases m) auto

lemma bindO_split: "P (bindO m f) \<longleftrightarrow> (\<forall>x. m = Ret x \<longrightarrow> P (f x)) \<and> (\<forall>e. m = Oops e \<longrightarrow> P (Oops e))"
  by (cases m) auto

lemma bindO_split_asm:
  "P (bindO m f) \<longleftrightarrow> \<not> ((\<exists>x. m = Ret x \<and> \<not> P (f x)) \<or> (\<exists>e. m = Oops e \<and> \<not> P (Oops e)))"
  by (cases m) auto

lemma returns_iff: "returns m \<longleftrightarrow> (\<exists>x. m = Ret x)"
  by (cases m) auto

lemma bindO_cong [fundef_cong]:
  "m = m' \<Longrightarrow> (\<And>x. m' = Ret x \<Longrightarrow> f x = f' x) \<Longrightarrow> bindO m f = bindO m' f'"
  by (cases m') auto

text \<open>A pointer that may be null.\<close>

primrec deref :: "'a option \<Rightarrow> 'a outcome" where
  "deref None = Oops NullDeref"
| "deref (Some x) = Ret x"

lemma deref_Ret [simp]: "deref p = Ret x \<longleftrightarrow> p = Some x"
  by (cases p) auto

section \<open>Lists\<close>

definition remove_nth :: "nat \<Rightarrow> 'a list \<Rightarrow> 'a list" where
  "remove_nth i xs = take i xs @ drop (Suc i) xs"

lemma length_remove_nth [simp]: "i < length xs \<Longrightarrow> length (remove_nth i xs) = length xs - 1"
  by (simp add: remove_nth_def)

lemma remove_nth_Cons_Suc [simp]: "remove_nth (Suc i) (x # xs) = x # remove_nth i xs"
  by (simp add: remove_nth_def)

lemma remove_nth_Cons_0 [simp]: "remove_nth 0 (x # xs) = xs"
  by (simp add: remove_nth_def)

lemma nth_remove_nth:
  "i < length xs \<Longrightarrow> j < length xs - 1 \<Longrightarrow>
   remove_nth i xs ! j = (if j < i then xs ! j else xs ! Suc j)"
  by (auto simp: remove_nth_def nth_append min_def)

lemma set_remove_nth_subset: "set (remove_nth i xs) \<subseteq> set xs"
  by (auto simp: remove_nth_def dest: in_set_takeD in_set_dropD)

lemma set_remove_nth: "i < length xs \<Longrightarrow> set xs = insert (xs ! i) (set (remove_nth i xs))"
proof (induction xs arbitrary: i)
  case Nil
  then show ?case by simp
next
  case (Cons x xs)
  then show ?case by (cases i) auto
qed

lemma distinct_remove_nth: "distinct xs \<Longrightarrow> distinct (remove_nth i xs)"
  by (auto simp: remove_nth_def set_take_disj_set_drop_if_distinct distinct_take distinct_drop)

lemma nth_notin_remove_nth:
  "distinct xs \<Longrightarrow> i < length xs \<Longrightarrow> xs ! i \<notin> set (remove_nth i xs)"
proof (induction xs arbitrary: i)
  case Nil
  then show ?case by simp
next
  case (Cons x xs)
  then show ?case
    by (cases i) (auto dest: set_remove_nth_subset [THEN subsetD])
qed

lemma remove_nth_append_last [simp]: "remove_nth (length xs) (xs @ [x]) = xs"
  by (simp add: remove_nth_def)

text \<open>The first position of a list where a predicate holds, or the length.\<close>

primrec first_index :: "('a \<Rightarrow> bool) \<Rightarrow> 'a list \<Rightarrow> nat" where
  "first_index P [] = 0"
| "first_index P (x # xs) = (if P x then 0 else Suc (first_index P xs))"

lemma first_index_le: "first_index P xs \<le> length xs"
  by (induction xs) auto

lemma first_index_less_iff: "first_index P xs < length xs \<longleftrightarrow> (\<exists>x \<in> set xs. P x)"
  by (induction xs) auto

lemma first_index_holds: "first_index P xs < length xs \<Longrightarrow> P (xs ! first_index P xs)"
  by (induction xs) auto

lemma first_index_before: "i < first_index P xs \<Longrightarrow> \<not> P (xs ! i)"
  by (induction xs arbitrary: i) (auto simp: nth_Cons split: if_splits nat.splits)

lemma first_index_eq_length: "first_index P xs = length xs \<longleftrightarrow> (\<forall>x \<in> set xs. \<not> P x)"
  by (induction xs) auto

lemma first_index_append:
  "first_index P (xs @ ys) =
     (if \<exists>x \<in> set xs. P x then first_index P xs else length xs + first_index P ys)"
  by (induction xs) auto

end
