(* ===== verification/Rwsem.thy ===== *)
theory Rwsem
  imports Kernel_Prelude "HOL-Library.Multiset"
begin

text \<open>
  The reader/writer semaphore of \<^verbatim>\<open>lib/rwsem-spinlock.c\<close>, which guards the label of every
  inode (\<open>label_change_sem\<close>) in a kernel built with \<^verbatim>\<open>CONFIG_RWSEM_GENERIC_SPINLOCK\<close>;
  \<open>Rwsem_Xadd\<close> relates it to the one of \<^verbatim>\<open>recommended.config\<close>. A semaphore is its \<open>activity\<close>
  counter, a signed 32-bit number (\<open>sint\<close> reads it), and the queue of waiters;
  each operation runs under the semaphore's spinlock and is one atomic function here. An
  operation that wakes tasks returns their waiter entries: a woken task leaves its own
  \<open>__down_read\<close> or \<open>__down_write\<close> holding what it waited for. The theory ends with the
  transition system of tasks taking and releasing the semaphore.
\<close>

section \<open>Data\<close>

record rwsem_waiter =
  task :: nat
  flags :: u32

definition RWSEM_WAITING_FOR_READ :: u32 where "RWSEM_WAITING_FOR_READ = 0x00000001"
definition RWSEM_WAITING_FOR_WRITE :: u32 where "RWSEM_WAITING_FOR_WRITE = 0x00000002"

record rw_semaphore =
  activity :: u32
  wait_list :: "rwsem_waiter list"

definition init_rwsem :: rw_semaphore where
  "init_rwsem = \<lparr>activity = 0, wait_list = []\<rparr>"

abbreviation reads :: "rwsem_waiter \<Rightarrow> bool" where
  "reads w \<equiv> flags w AND RWSEM_WAITING_FOR_READ \<noteq> 0"

abbreviation writes :: "rwsem_waiter \<Rightarrow> bool" where
  "writes w \<equiv> flags w AND RWSEM_WAITING_FOR_WRITE \<noteq> 0"

section \<open>Waking\<close>

text \<open>The loop that grants read locks to the front of the queue: the woken entries and the rest.\<close>

fun wake_readers :: "rwsem_waiter list \<Rightarrow> rwsem_waiter list \<times> rwsem_waiter list" where
  "wake_readers [] = ([], [])"
| "wake_readers (w # ws) =
     (if reads w then (let (woken, rest) = wake_readers ws in (w # woken, rest)) else ([], w # ws))"

text \<open>Both functions read the first queue entry; on an empty queue that entry is the list head itself.\<close>

definition rwsem_do_wake :: "rw_semaphore \<Rightarrow> bool \<Rightarrow> (rw_semaphore \<times> rwsem_waiter list) outcome" where
  "rwsem_do_wake sem wakewrite =
     (case wait_list sem of
        [] \<Rightarrow> Oops OutOfBounds
      | waiter # ws \<Rightarrow>
          if \<not> wakewrite \<and> writes waiter then Ret (sem, [])
          else if wakewrite \<and> writes waiter then Ret (sem\<lparr>activity := - 1, wait_list := ws\<rparr>, [waiter])
          else let (woken, rest) = wake_readers (waiter # ws) in
            Ret (sem\<lparr>activity := activity sem + of_nat (length woken), wait_list := rest\<rparr>, woken))"

definition rwsem_wake_one_writer :: "rw_semaphore \<Rightarrow> (rw_semaphore \<times> rwsem_waiter list) outcome" where
  "rwsem_wake_one_writer sem =
     (case wait_list sem of
        [] \<Rightarrow> Oops OutOfBounds
      | waiter # ws \<Rightarrow> Ret (sem\<lparr>activity := - 1, wait_list := ws\<rparr>, [waiter]))"

section \<open>Operations\<close>

text \<open>The flag says whether the lock was granted at once; if not, the caller sleeps in the queue.\<close>

definition down_read :: "nat \<Rightarrow> rw_semaphore \<Rightarrow> rw_semaphore \<times> bool" where
  "down_read tsk sem =
     (if sint (activity sem) \<ge> 0 \<and> wait_list sem = [] then (sem\<lparr>activity := activity sem + 1\<rparr>, True)
      else (sem\<lparr>wait_list := wait_list sem @ [\<lparr>task = tsk, flags = RWSEM_WAITING_FOR_READ\<rparr>]\<rparr>, False))"

definition down_read_trylock :: "rw_semaphore \<Rightarrow> rw_semaphore \<times> int" where
  "down_read_trylock sem =
     (if sint (activity sem) \<ge> 0 \<and> wait_list sem = [] then (sem\<lparr>activity := activity sem + 1\<rparr>, 1) else (sem, 0))"

definition down_write_nested :: "nat \<Rightarrow> rw_semaphore \<Rightarrow> rw_semaphore \<times> bool" where
  "down_write_nested tsk sem =
     (if activity sem = 0 \<and> wait_list sem = [] then (sem\<lparr>activity := - 1\<rparr>, True)
      else (sem\<lparr>wait_list := wait_list sem @ [\<lparr>task = tsk, flags = RWSEM_WAITING_FOR_WRITE\<rparr>]\<rparr>, False))"

definition down_write :: "nat \<Rightarrow> rw_semaphore \<Rightarrow> rw_semaphore \<times> bool" where
  "down_write tsk sem = down_write_nested tsk sem"

definition down_write_trylock :: "rw_semaphore \<Rightarrow> rw_semaphore \<times> int" where
  "down_write_trylock sem =
     (if activity sem = 0 \<and> wait_list sem = [] then (sem\<lparr>activity := - 1\<rparr>, 1) else (sem, 0))"

definition up_read :: "rw_semaphore \<Rightarrow> (rw_semaphore \<times> rwsem_waiter list) outcome" where
  "up_read sem =
     (let sem1 = sem\<lparr>activity := activity sem - 1\<rparr> in
      if activity sem1 = 0 \<and> wait_list sem1 \<noteq> [] then rwsem_wake_one_writer sem1 else Ret (sem1, []))"

definition up_write :: "rw_semaphore \<Rightarrow> (rw_semaphore \<times> rwsem_waiter list) outcome" where
  "up_write sem =
     (let sem1 = sem\<lparr>activity := 0\<rparr> in
      if wait_list sem1 \<noteq> [] then rwsem_do_wake sem1 True else Ret (sem1, []))"

definition downgrade_write :: "rw_semaphore \<Rightarrow> (rw_semaphore \<times> rwsem_waiter list) outcome" where
  "downgrade_write sem =
     (let sem1 = sem\<lparr>activity := 1\<rparr> in
      if wait_list sem1 \<noteq> [] then rwsem_do_wake sem1 False else Ret (sem1, []))"

section \<open>Tasks using a semaphore\<close>

text \<open>The semaphore with the tasks that hold it for reading and for writing.\<close>

record rw_world =
  sem :: rw_semaphore
  readers :: "nat multiset"
  writers :: "nat multiset"

definition rw_init :: rw_world where
  "rw_init = \<lparr>sem = init_rwsem, readers = {#}, writers = {#}\<rparr>"

definition grant :: "rwsem_waiter list \<Rightarrow> rw_world \<Rightarrow> rw_world" where
  "grant woken w = w\<lparr>readers := readers w + mset (map task (filter reads woken)),
                     writers := writers w + mset (map task (filter writes woken))\<rparr>"

inductive rw_step :: "rw_world \<Rightarrow> rw_world \<Rightarrow> bool" where
  rd: "down_read p (sem w) = (s', g) \<Longrightarrow>
    rw_step w (w\<lparr>sem := s', readers := (if g then add_mset p (readers w) else readers w)\<rparr>)"
| try_rd: "down_read_trylock (sem w) = (s', r) \<Longrightarrow>
    rw_step w (w\<lparr>sem := s', readers := (if r = 1 then add_mset p (readers w) else readers w)\<rparr>)"
| wr: "down_write p (sem w) = (s', g) \<Longrightarrow>
    rw_step w (w\<lparr>sem := s', writers := (if g then add_mset p (writers w) else writers w)\<rparr>)"
| try_wr: "down_write_trylock (sem w) = (s', r) \<Longrightarrow>
    rw_step w (w\<lparr>sem := s', writers := (if r = 1 then add_mset p (writers w) else writers w)\<rparr>)"
| done_rd: "p \<in># readers w \<Longrightarrow> up_read (sem w) = Ret (s', woken) \<Longrightarrow>
    rw_step w (grant woken (w\<lparr>sem := s', readers := readers w - {#p#}\<rparr>))"
| done_wr: "p \<in># writers w \<Longrightarrow> up_write (sem w) = Ret (s', woken) \<Longrightarrow>
    rw_step w (grant woken (w\<lparr>sem := s', writers := writers w - {#p#}\<rparr>))"
| downgrade: "p \<in># writers w \<Longrightarrow> downgrade_write (sem w) = Ret (s', woken) \<Longrightarrow>
    rw_step w (grant woken (w\<lparr>sem := s', writers := writers w - {#p#}, readers := add_mset p (readers w)\<rparr>))"

text \<open>Holders and waiters together, and the states reached while there are never more than \<open>N\<close> of
  them.\<close>

definition rw_size :: "rw_world \<Rightarrow> nat" where
  "rw_size w = size (readers w) + size (writers w) + length (wait_list (sem w))"

inductive rw_reach :: "nat \<Rightarrow> rw_world \<Rightarrow> bool" for N where
  init: "rw_reach N rw_init"
| step: "rw_reach N w \<Longrightarrow> rw_step w w' \<Longrightarrow> rw_size w' \<le> N \<Longrightarrow> rw_reach N w'"

section \<open>Invariant\<close>

definition one_flag :: "rwsem_waiter \<Rightarrow> bool" where
  "one_flag x \<longleftrightarrow> flags x = RWSEM_WAITING_FOR_READ \<or> flags x = RWSEM_WAITING_FOR_WRITE"

lemma one_flag_simps [simp]:
  "one_flag \<lparr>task = t, flags = RWSEM_WAITING_FOR_READ\<rparr>" "one_flag \<lparr>task = t, flags = RWSEM_WAITING_FOR_WRITE\<rparr>"
  by (simp_all add: one_flag_def)

lemma flag_bits [simp]:
  "RWSEM_WAITING_FOR_READ \<noteq> 0" "RWSEM_WAITING_FOR_READ AND RWSEM_WAITING_FOR_WRITE = 0"
  "RWSEM_WAITING_FOR_WRITE \<noteq> 0" "RWSEM_WAITING_FOR_WRITE AND RWSEM_WAITING_FOR_READ = 0"
  by (simp_all add: RWSEM_WAITING_FOR_READ_def RWSEM_WAITING_FOR_WRITE_def)

lemma one_flag_xor: "one_flag x \<Longrightarrow> flags x AND RWSEM_WAITING_FOR_WRITE = 0 \<longleftrightarrow> reads x"
  by (auto simp: one_flag_def)

text \<open>Signed readings of the counter.\<close>

lemma sint_of_small: "- (2 ^ 31) \<le> x \<Longrightarrow> x < 2 ^ 31 \<Longrightarrow> sint (word_of_int x :: u32) = x"
  by (simp add: sint_sbintrunc' signed_take_bit_int_eq_self)

lemma sint_range: "- (2 ^ 31) \<le> sint (a :: u32)" "sint (a :: u32) < 2 ^ 31"
  using sint_greater_eq [of a] sint_less [of a] by simp_all

lemma sint_incr: "sint (a :: u32) < 2 ^ 31 - 1 \<Longrightarrow> sint (a + 1) = sint a + 1"
proof -
  assume "sint a < 2 ^ 31 - 1"
  moreover have "a + 1 = word_of_int (sint a + 1)" by simp
  ultimately show ?thesis using sint_of_small [of "sint a + 1"] sint_range(1) [of a] by (simp only:)
qed

lemma sint_decr: "- (2 ^ 31) < sint (a :: u32) \<Longrightarrow> sint (a - 1) = sint a - 1"
proof -
  assume "- (2 ^ 31) < sint a"
  moreover have "a - 1 = word_of_int (sint a - 1)" by simp
  ultimately show ?thesis using sint_of_small [of "sint a - 1"] sint_range(2) [of a] by (simp only:)
qed

lemma sint_count: "n < 2 ^ 31 \<Longrightarrow> sint (of_nat n :: u32) = int n"
  using sint_of_small [of "int n"] by simp

lemma sint_inject: "sint (a :: u32) = sint b \<longleftrightarrow> a = b"
proof
  assume "sint a = sint b"
  then have "(word_of_int (sint a) :: u32) = word_of_int (sint b)" by (rule arg_cong)
  then show "a = b" by simp
qed simp

lemma sint_0_iff: "sint (a :: u32) = 0 \<longleftrightarrow> a = 0"
  using sint_inject [of a 0] by simp

lemma sint_eq_1: "sint (a :: u32) = 1 \<longleftrightarrow> a = 1" "sint (a :: u32) = - 1 \<longleftrightarrow> a = - 1"
  using sint_inject [of a 1] sint_inject [of a "- 1"] by simp_all

text \<open>
  The semaphore alone: a free semaphore has no waiters, and behind active readers the queue
  starts with a writer. The second half is what lets \<open>__up_read\<close> wake one writer without
  looking at the flags.
\<close>

definition sem_ok :: "rw_semaphore \<Rightarrow> bool" where
  "sem_ok s \<longleftrightarrow> sint (activity s) \<ge> - 1 \<and> (\<forall>x \<in> set (wait_list s). one_flag x)
     \<and> (activity s = 0 \<longrightarrow> wait_list s = [])
     \<and> (sint (activity s) > 0 \<longrightarrow> wait_list s \<noteq> [] \<longrightarrow> writes (hd (wait_list s)))"

definition rw_inv :: "rw_world \<Rightarrow> bool" where
  "rw_inv w \<longleftrightarrow> sem_ok (sem w)
     \<and> (if activity (sem w) = - 1 then size (writers w) = 1 \<and> readers w = {#}
        else writers w = {#} \<and> int (size (readers w)) = sint (activity (sem w)))"

lemma wake_readers_spec:
  assumes "wake_readers ws = (woken, rest)" and "\<forall>x \<in> set ws. one_flag x"
  shows "ws = woken @ rest" and "\<forall>x \<in> set woken. reads x" and "rest \<noteq> [] \<Longrightarrow> writes (hd rest)"
    and "\<forall>x \<in> set woken. \<not> writes x" and "\<forall>x \<in> set rest. one_flag x"
  using assms by (induction ws arbitrary: woken rest) (auto simp: one_flag_xor split: prod.splits if_splits)

lemma sem_ok_enqueue_read:
  "sem_ok s \<Longrightarrow> \<not> (sint (activity s) \<ge> 0 \<and> wait_list s = []) \<Longrightarrow>
   sem_ok (s\<lparr>wait_list := wait_list s @ [\<lparr>task = p, flags = RWSEM_WAITING_FOR_READ\<rparr>]\<rparr>)"
  by (auto simp: sem_ok_def hd_append)

lemma sem_ok_enqueue_write:
  "sem_ok s \<Longrightarrow> \<not> (activity s = 0 \<and> wait_list s = []) \<Longrightarrow>
   sem_ok (s\<lparr>wait_list := wait_list s @ [\<lparr>task = p, flags = RWSEM_WAITING_FOR_WRITE\<rparr>]\<rparr>)"
  by (auto simp: sem_ok_def hd_append)

text \<open>Releasing a read lock: nobody is woken, or the writer at the front of the queue.\<close>

lemma up_read_cases:
  assumes "sem_ok s" and "sint (activity s) > 0"
  obtains (quiet) "up_read s = Ret (s\<lparr>activity := activity s - 1\<rparr>, [])" and "sint (activity s) > 1 \<or> wait_list s = []"
  | (handoff) x ws where "wait_list s = x # ws" and "writes x" and "\<not> reads x" and "activity s = 1"
      and "up_read s = Ret (s\<lparr>activity := - 1, wait_list := ws\<rparr>, [x])"
proof (cases "activity s = 1 \<and> wait_list s \<noteq> []")
  case True
  then obtain x ws where "wait_list s = x # ws" by (cases "wait_list s") auto
  with True assms handoff show thesis
    by (auto simp: up_read_def rwsem_wake_one_writer_def Let_def sem_ok_def one_flag_xor)
next
  case False
  have "sint (activity s) > 1 \<or> activity s = 1" using assms(2) sint_eq_1(1) [of "activity s"] by linarith
  moreover have "activity s - 1 = 0 \<longleftrightarrow> activity s = 1" by simp
  ultimately show thesis using False quiet by (auto simp: up_read_def Let_def)
qed

text \<open>Releasing a write lock: nobody waits, or one writer, or a batch of readers is woken.\<close>

lemma up_write_cases:
  assumes "sem_ok s"
  obtains (quiet) "wait_list s = []" and "up_write s = Ret (s\<lparr>activity := 0\<rparr>, [])"
  | (one) x ws where "wait_list s = x # ws" and "writes x" and "\<not> reads x"
      and "up_write s = Ret (s\<lparr>activity := - 1, wait_list := ws\<rparr>, [x])"
  | (batch) woken rest where "wait_list s = woken @ rest" and "woken \<noteq> []" and "\<forall>x \<in> set woken. reads x \<and> \<not> writes x"
      and "rest \<noteq> [] \<longrightarrow> writes (hd rest)" and "\<forall>x \<in> set rest. one_flag x"
      and "up_write s = Ret (s\<lparr>activity := of_nat (length woken), wait_list := rest\<rparr>, woken)"
proof (cases "wait_list s")
  case Nil
  with quiet show thesis by (simp add: up_write_def)
next
  case (Cons x ws)
  have f: "one_flag x" "\<forall>y \<in> set (x # ws). one_flag y" using assms Cons by (auto simp: sem_ok_def)
  show thesis
  proof (cases "writes x")
    case True
    with Cons f one show thesis by (auto simp: up_write_def rwsem_do_wake_def one_flag_xor)
  next
    case False
    obtain woken rest where w: "wake_readers (x # ws) = (woken, rest)" by (cases "wake_readers (x # ws)")
    have "woken \<noteq> []" using w False f by (auto simp: one_flag_xor split: prod.splits)
    moreover have "up_write s = Ret (s\<lparr>activity := of_nat (length woken), wait_list := rest\<rparr>, woken)"
      using w False Cons by (simp add: up_write_def rwsem_do_wake_def Let_def del: wake_readers.simps)
    ultimately show thesis
      using Cons wake_readers_spec [OF w f(2)] by (intro batch [of woken rest]) auto
  qed
qed

text \<open>Downgrading: the readers at the front of the queue join the former writer.\<close>

lemma downgrade_cases:
  assumes "sem_ok s"
  obtains woken rest where "wait_list s = woken @ rest" and "\<forall>x \<in> set woken. reads x \<and> \<not> writes x"
      and "rest \<noteq> [] \<longrightarrow> writes (hd rest)" and "\<forall>x \<in> set rest. one_flag x"
      and "downgrade_write s = Ret (s\<lparr>activity := 1 + of_nat (length woken), wait_list := rest\<rparr>, woken)"
proof (cases "wait_list s")
  case Nil
  with that [of "[]" "[]"] show thesis by (simp add: downgrade_write_def)
next
  case (Cons x ws)
  have f: "one_flag x" "\<forall>y \<in> set (x # ws). one_flag y" using assms Cons by (auto simp: sem_ok_def)
  show thesis
  proof (cases "writes x")
    case True
    with Cons f that [of "[]" "x # ws"] show thesis
      by (cases s) (auto simp: downgrade_write_def rwsem_do_wake_def one_flag_xor)
  next
    case False
    obtain woken rest where w: "wake_readers (x # ws) = (woken, rest)" by (cases "wake_readers (x # ws)")
    then have "downgrade_write s = Ret (s\<lparr>activity := 1 + of_nat (length woken), wait_list := rest\<rparr>, woken)"
      using False Cons by (simp add: downgrade_write_def rwsem_do_wake_def Let_def del: wake_readers.simps)
    then show thesis
      using Cons wake_readers_spec [OF w f(2)] by (intro that [of woken rest]) auto
  qed
qed

section \<open>Every step keeps the invariant\<close>

lemma rw_inv_activity:
  assumes "rw_inv w"
  shows "p \<in># readers w \<Longrightarrow> sint (activity (sem w)) > 0" and "p \<in># writers w \<Longrightarrow> activity (sem w) = - 1"
    and "sem_ok (sem w)"
proof -
  assume "p \<in># readers w"
  then have "size (readers w) > 0" by (metis nonempty_has_size empty_not_add_mset multi_member_split)
  with assms show "sint (activity (sem w)) > 0" by (cases "readers w = {#}") (auto simp: rw_inv_def split: if_splits)
next
  show "p \<in># writers w \<Longrightarrow> activity (sem w) = - 1" "sem_ok (sem w)"
    using assms by (auto simp: rw_inv_def split: if_splits)
qed

text \<open>Counters that stand for a number of readers.\<close>

lemma rw_inv_readers:
  assumes "sem_ok s" "writers w = {#}" "int (size (readers w)) = sint (activity s)" "sem w = s"
  shows "rw_inv w"
  using assms sint_eq_1(2) [of "activity s"] by (auto simp: rw_inv_def)

lemma filter_all: "\<forall>x \<in> set xs. P x \<Longrightarrow> filter P xs = xs" "\<forall>x \<in> set xs. \<not> P x \<Longrightarrow> filter P xs = []"
  by (simp_all add: filter_id_conv filter_empty_conv)

lemma rw_inv_down_read:
  assumes "rw_inv w" and "down_read p (sem w) = (s', g)"
    and "w' = w\<lparr>sem := s', readers := (if g then add_mset p (readers w) else readers w)\<rparr>" "rw_size w' < 2 ^ 31"
  shows "rw_inv w'"
proof (cases "sint (activity (sem w)) \<ge> 0 \<and> wait_list (sem w) = []")
  case True
  then have s: "s' = sem w\<lparr>activity := activity (sem w) + 1\<rparr>" g using assms(2) by (auto simp: down_read_def)
  have r: "writers w = {#}" "int (size (readers w)) = sint (activity (sem w))"
    using assms(1) True by (auto simp: rw_inv_def split: if_splits)
  then have i: "sint (activity (sem w) + 1) = sint (activity (sem w)) + 1"
    using assms(3,4) s by (intro sint_incr) (simp add: rw_size_def)
  show ?thesis
  proof (rule rw_inv_readers [where s = s'])
    show "sem_ok s'" using True i s(1) by (auto simp: sem_ok_def)
  qed (use assms(3) s r i in simp_all)
next
  case False
  then have "s' = sem w\<lparr>wait_list := wait_list (sem w) @ [\<lparr>task = p, flags = RWSEM_WAITING_FOR_READ\<rparr>]\<rparr>" "\<not> g"
    using assms(2) by (auto simp: down_read_def)
  with assms(1,3) sem_ok_enqueue_read [OF _ False] show ?thesis by (simp add: rw_inv_def split: if_splits)
qed

lemma rw_inv_down_write:
  assumes "rw_inv w" and "down_write p (sem w) = (s', g)"
  shows "rw_inv (w\<lparr>sem := s', writers := (if g then add_mset p (writers w) else writers w)\<rparr>)"
proof (cases "activity (sem w) = 0 \<and> wait_list (sem w) = []")
  case True
  with assms show ?thesis
    by (auto simp: down_write_def down_write_nested_def rw_inv_def sem_ok_def split: if_splits)
next
  case False
  then have "s' = sem w\<lparr>wait_list := wait_list (sem w) @ [\<lparr>task = p, flags = RWSEM_WAITING_FOR_WRITE\<rparr>]\<rparr>" "\<not> g"
    using assms(2) by (auto simp: down_write_def down_write_nested_def)
  with assms(1) sem_ok_enqueue_write [OF _ False] show ?thesis by (simp add: rw_inv_def split: if_splits)
qed

lemma rw_inv_up_read:
  assumes inv: "rw_inv w" and p: "p \<in># readers w" and u: "up_read (sem w) = Ret (s', woken)"
  shows "rw_inv (grant woken (w\<lparr>sem := s', readers := readers w - {#p#}\<rparr>))"
proof -
  note act = rw_inv_activity(1) [OF inv p]
  have r: "writers w = {#}" "int (size (readers w)) = sint (activity (sem w))"
    using inv act by (auto simp: rw_inv_def split: if_splits)
  show ?thesis
    using rw_inv_activity(3) [OF inv] act
  proof (cases rule: up_read_cases)
    case quiet
    have d: "sint (activity (sem w) - 1) = sint (activity (sem w)) - 1" by (rule sint_decr) (use act in simp)
    have s: "s' = sem w\<lparr>activity := activity (sem w) - 1\<rparr>" "woken = []" using u quiet(1) by simp_all
    have "size (readers w) > 0" using r(2) act by linarith
    then have "int (size (readers w - {#p#})) = sint (activity s')"
      using r(2) d s(1) p by (simp add: size_Diff_singleton of_nat_diff)
    moreover have "sem_ok s'"
      using rw_inv_activity(3) [OF inv] quiet(2) d s(1) act by (auto simp: sem_ok_def)
    ultimately show ?thesis using r(1) s(2) by (intro rw_inv_readers [where s = s']) (simp_all add: grant_def)
  next
    case (handoff x ws)
    have "size (readers w) = 1" using r(2) handoff(4) by simp
    then have "readers w = {#p#}" using p by (metis size_1_singleton_mset set_mset_single singletonD)
    with u inv handoff r show ?thesis by (auto simp: grant_def rw_inv_def sem_ok_def)
  qed
qed

lemma rw_inv_batch:
  assumes "\<forall>x \<in> set wk. reads x \<and> \<not> writes x" "rest \<noteq> [] \<longrightarrow> writes (hd rest)" "\<forall>x \<in> set rest. one_flag x"
    "0 < size rs + length wk" "size rs + length wk < 2 ^ 31" "activity s' = of_nat (size rs + length wk)" "wait_list s' = rest"
  shows "rw_inv (grant wk (w\<lparr>sem := s', writers := {#}, readers := rs\<rparr>))"
proof -
  have f: "filter reads wk = wk" "filter writes wk = []" using assms(1) by (simp_all add: filter_all)
  have n: "sint (activity s') = int (size rs + length wk)" using sint_count [OF assms(5)] assms(6) by simp
  then have "activity s' \<noteq> 0" using assms(4) sint_0_iff [of "activity s'"] by linarith
  then have "sem_ok s'" using assms(2,3,7) n by (auto simp: sem_ok_def)
  then show ?thesis using f n by (intro rw_inv_readers [where s = s']) (simp_all add: grant_def)
qed

lemma rw_inv_last_writer:
  assumes "rw_inv w" "p \<in># writers w"
  shows "writers w - {#p#} = {#}" "readers w = {#}"
  using assms rw_inv_activity(2) [OF assms]
  by (auto simp: rw_inv_def size_Diff_singleton simp flip: size_eq_0_iff_empty)

lemma rw_inv_up_write:
  assumes inv: "rw_inv w" and p: "p \<in># writers w" and u: "up_write (sem w) = Ret (s', woken)"
    and "rw_size (grant woken (w\<lparr>sem := s', writers := writers w - {#p#}\<rparr>)) < 2 ^ 31"
  shows "rw_inv (grant woken (w\<lparr>sem := s', writers := writers w - {#p#}\<rparr>))"
proof -
  note r = rw_inv_last_writer [OF inv p]
  show ?thesis
    using rw_inv_activity(3) [OF inv]
  proof (cases rule: up_write_cases)
    case (batch wk rest)
    have f: "filter reads wk = wk" using batch(3) by (simp add: filter_all)
    have wk: "woken = wk" "activity s' = of_nat (length wk)" "wait_list s' = rest" using u batch(6) by auto
    then have "length wk < 2 ^ 31" using assms(4) f r by (simp add: rw_size_def grant_def)
    then have "rw_inv (grant wk (w\<lparr>sem := s', writers := {#}, readers := {#}\<rparr>))"
      using batch wk by (intro rw_inv_batch [where rest = rest]) simp_all
    then show ?thesis using r wk(1) by (cases w) simp
  qed (use u inv r in \<open>auto simp: grant_def rw_inv_def sem_ok_def\<close>)
qed

lemma rw_inv_downgrade:
  assumes inv: "rw_inv w" and p: "p \<in># writers w" and u: "downgrade_write (sem w) = Ret (s', woken)"
    and "rw_size (grant woken (w\<lparr>sem := s', writers := writers w - {#p#}, readers := add_mset p (readers w)\<rparr>)) < 2 ^ 31"
  shows "rw_inv (grant woken (w\<lparr>sem := s', writers := writers w - {#p#}, readers := add_mset p (readers w)\<rparr>))"
proof -
  note r = rw_inv_last_writer [OF inv p]
  show ?thesis
    using rw_inv_activity(3) [OF inv]
  proof (cases rule: downgrade_cases)
    case (1 wk rest)
    have f: "filter reads wk = wk" using 1(2) by (simp add: filter_all)
    have wk: "woken = wk" "activity s' = of_nat (size {#p#} + length wk)" "wait_list s' = rest" using u 1(5) by auto
    then have "size {#p#} + length wk < 2 ^ 31" using assms(4) f r by (simp add: rw_size_def grant_def)
    then have "rw_inv (grant wk (w\<lparr>sem := s', writers := {#}, readers := {#p#}\<rparr>))"
      using 1 wk by (intro rw_inv_batch [where rest = rest]) simp_all
    then show ?thesis using r wk(1) by (cases w) simp
  qed
qed

lemma rw_inv_step: "rw_step w w' \<Longrightarrow> rw_inv w \<Longrightarrow> rw_size w' < 2 ^ 31 \<Longrightarrow> rw_inv w'"
proof (induction rule: rw_step.induct)
  case (rd p w s' g)
  then show ?case by (intro rw_inv_down_read [OF rd.prems(1) rd.hyps refl])
next
  case (try_rd w s' r p)
  have "down_read p (sem w) = (s', True)" if "r = 1" using try_rd.hyps that by (auto simp: down_read_trylock_def down_read_def split: if_splits)
  moreover have "s' = sem w" if "r \<noteq> 1" using try_rd.hyps that by (auto simp: down_read_trylock_def split: if_splits)
  ultimately show ?case using try_rd.prems rw_inv_down_read [OF try_rd.prems(1), of p s' True] by (cases "r = 1") auto
next
  case (try_wr w s' r p)
  then show ?case
    using rw_inv_down_write [of w p]
    by (auto simp: down_write_trylock_def down_write_def down_write_nested_def split: if_splits)
qed (rule rw_inv_down_write rw_inv_up_read rw_inv_up_write rw_inv_downgrade; assumption)+

lemma rw_reach_inv: "rw_reach N w \<Longrightarrow> N < 2 ^ 31 \<Longrightarrow> rw_inv w"
proof (induction rule: rw_reach.induct)
  case init
  then show ?case by (simp add: rw_init_def init_rwsem_def rw_inv_def sem_ok_def)
next
  case (step w w')
  then show ?case by (intro rw_inv_step [OF step.hyps(2)]) simp_all
qed

section \<open>The contract of a lock that is taken and released in pairs\<close>

text \<open>
  What a client of one side of a lock relies on: while the lock has \<open>room\<close> for another
  holder, taking it succeeds at once, uses up one place and is undone exactly by a release.
\<close>

locale paired_lock =
  fixes room :: "nat \<Rightarrow> 's \<Rightarrow> bool" and acquire :: "'s \<Rightarrow> 's \<times> bool" and release :: "'s \<Rightarrow> 's outcome"
  assumes acquire_open: "room (Suc n) s \<Longrightarrow> snd (acquire s)"
    and takes_place: "room (Suc n) s \<Longrightarrow> room n (fst (acquire s))"
    and fewer: "room (Suc n) s \<Longrightarrow> room n s"
    and release_undoes: "room (Suc n) s \<Longrightarrow> release (fst (acquire s)) = Ret s"
begin

primrec take_n :: "nat \<Rightarrow> 's \<Rightarrow> 's" where
  "take_n 0 s = s"
| "take_n (Suc n) s = fst (acquire (take_n n s))"

primrec drop_n :: "nat \<Rightarrow> 's \<Rightarrow> 's outcome" where
  "drop_n 0 s = Ret s"
| "drop_n (Suc n) s = bindO (release s) (drop_n n)"

lemma take_room: "room (m + n) s \<Longrightarrow> room m (take_n n s)"
  by (induction n arbitrary: m) (auto simp: takes_place simp flip: add_Suc)

lemma balanced: "room n s \<Longrightarrow> drop_n n (take_n n s) = Ret s"
proof (induction n)
  case (Suc n)
  have "room 1 (take_n n s)" using take_room [of 1 n s] Suc.prems by simp
  moreover have "room n s" using Suc.prems by (rule fewer)
  ultimately show ?case using Suc.IH release_undoes [of 0] by simp
qed simp

end

definition read_room :: "nat \<Rightarrow> rw_semaphore \<Rightarrow> bool" where
  "read_room n s \<longleftrightarrow> sint (activity s) \<ge> 0 \<and> sint (activity s) + int n < 2 ^ 31 \<and> wait_list s = []"

text \<open>Nobody writes or waits, and the counter has room for one more reader.\<close>

definition read_open :: "rw_semaphore \<Rightarrow> bool" where
  "read_open s \<longleftrightarrow> read_room 1 s"

definition up_read_sem :: "rw_semaphore \<Rightarrow> rw_semaphore outcome" where
  "up_read_sem s = bindO (up_read s) (\<lambda>(s', _). Ret s')"

definition up_write_sem :: "rw_semaphore \<Rightarrow> rw_semaphore outcome" where
  "up_write_sem s = bindO (up_write s) (\<lambda>(s', _). Ret s')"

interpretation rd_side: paired_lock read_room "down_read p" up_read_sem
  by unfold_locales
    (auto simp: read_room_def down_read_def up_read_sem_def up_read_def Let_def sint_incr)

section \<open>Properties\<close>

text \<open>A reachable state for the concrete instances: task 1 reads and task 2 waits to write.\<close>

definition sample_world :: rw_world where
  "sample_world = \<lparr>sem = \<lparr>activity = 1, wait_list = [\<lparr>task = 2, flags = RWSEM_WAITING_FOR_WRITE\<rparr>]\<rparr>,
     readers = {#1#}, writers = {#}\<rparr>"

lemma sample_world_reach: "rw_reach 2 sample_world"
proof -
  let ?w1 = "\<lparr>sem = \<lparr>activity = 1, wait_list = []\<rparr>, readers = {#1#}, writers = {#}\<rparr>"
  have "rw_step rw_init ?w1"
    using rw_step.rd [of 1 rw_init "\<lparr>activity = 1, wait_list = []\<rparr>" True]
    by (simp add: rw_init_def init_rwsem_def down_read_def)
  moreover have "rw_step ?w1 sample_world"
    using rw_step.wr [of 2 ?w1 "sem sample_world" False]
    by (simp add: sample_world_def down_write_def down_write_nested_def)
  moreover have "rw_size ?w1 \<le> 2" "rw_size sample_world \<le> 2" by (simp_all add: rw_size_def sample_world_def)
  ultimately show ?thesis by (meson rw_reach.intros)
qed

text \<open>C5: Mutual exclusion. In every state reached by tasks taking, trying, releasing and downgrading the
  semaphore, with always fewer than \<open>2^31\<close> holders and waiters, there is at most one writer, no
  reader beside a writer, and \<open>activity\<close> is minus one with a writer and the number of readers
  otherwise.\<close>

theorem rwsem_mutual_exclusion:
  assumes "rw_reach N w" "N < 2 ^ 31"
  shows "size (writers w) \<le> 1 \<and> (readers w = {#} \<or> writers w = {#})
    \<and> sint (activity (sem w)) = (if writers w = {#} then int (size (readers w)) else - 1)"
  using rw_reach_inv [OF assms] by (auto simp: rw_inv_def split: if_splits)

theorem rwsem_mutual_exclusion_witness:
  "rw_reach 2 sample_world \<and> sint (activity (sem sample_world)) = 1"
  using sample_world_reach rwsem_mutual_exclusion [OF sample_world_reach] by (simp add: sample_world_def)

text \<open>The bound is needed: one more reader than the counter can hold makes it negative, and the
  next reader waits although nobody writes.\<close>

lemma activity_overflows:
  assumes "activity s = 0x7FFFFFFF" "wait_list s = []"
  shows "\<exists>s'. down_read p s = (s', True) \<and> sint (activity s') < 0 \<and> \<not> snd (down_read q s')"
  using assms by (simp add: down_read_def)

text \<open>C6: No lost wake-up, first come first served. In every state reached with always fewer than
  \<open>2^31\<close> holders and waiters a task waits only while some task holds the semaphore, and each
  release by a holder returns without touching an empty queue; the tasks it wakes are the
  front of the queue, the rest stay queued, and unless readers remain active somebody is woken
  whenever somebody waits.\<close>

theorem rwsem_release_wakes_front:
  assumes "rw_reach N w" "N < 2 ^ 31"
  shows "(wait_list (sem w) \<noteq> [] \<longrightarrow> readers w + writers w \<noteq> {#})
    \<and> (p \<in># readers w \<longrightarrow> (\<exists>s' woken. up_read (sem w) = Ret (s', woken) \<and> wait_list (sem w) = woken @ wait_list s'
          \<and> (size (readers w) = 1 \<longrightarrow> wait_list (sem w) \<noteq> [] \<longrightarrow> woken \<noteq> [])))
    \<and> (p \<in># writers w \<longrightarrow> (\<exists>s' woken. up_write (sem w) = Ret (s', woken) \<and> wait_list (sem w) = woken @ wait_list s'
          \<and> (wait_list (sem w) \<noteq> [] \<longrightarrow> woken \<noteq> [])))"
proof (intro conjI impI)
  note inv = rw_reach_inv [OF assms]
  note ok = rw_inv_activity(3) [OF inv]
  show "readers w + writers w \<noteq> {#}" if "wait_list (sem w) \<noteq> []"
  proof
    assume "readers w + writers w = {#}"
    then have "activity (sem w) = 0" using inv sint_0_iff by (auto simp: rw_inv_def split: if_splits)
    then show False using ok that by (simp add: sem_ok_def)
  qed
  show "\<exists>s' woken. up_read (sem w) = Ret (s', woken) \<and> wait_list (sem w) = woken @ wait_list s'
      \<and> (size (readers w) = 1 \<longrightarrow> wait_list (sem w) \<noteq> [] \<longrightarrow> woken \<noteq> [])" if p: "p \<in># readers w"
  proof -
    have "int (size (readers w)) = sint (activity (sem w))"
      using rw_inv_activity(1) [OF inv p] inv by (auto simp: rw_inv_def split: if_splits)
    then show ?thesis
      by (cases rule: up_read_cases [OF ok rw_inv_activity(1) [OF inv p]]) auto
  qed
  show "\<exists>s' woken. up_write (sem w) = Ret (s', woken) \<and> wait_list (sem w) = woken @ wait_list s'
      \<and> (wait_list (sem w) \<noteq> [] \<longrightarrow> woken \<noteq> [])" if "p \<in># writers w"
    by (cases rule: up_write_cases [OF ok]) auto
qed

theorem rwsem_release_wakes_front_witness:
  "rw_reach 2 sample_world \<and> 1 \<in># readers sample_world \<and>
   (\<exists>s' woken. up_read (sem sample_world) = Ret (s', woken) \<and> woken \<noteq> [])"
  using sample_world_reach rwsem_release_wakes_front [OF sample_world_reach, of 1]
  by (auto simp: sample_world_def)

end
