(* ===== verification/Rwsem_Xadd.thy ===== *)
theory Rwsem_Xadd
  imports Rwsem
begin

text \<open>
  The reader/writer semaphore of \<^verbatim>\<open>include/asm-i386/rwsem.h\<close> and \<^verbatim>\<open>lib/rwsem.c\<close>, which
  \<^verbatim>\<open>recommended.config\<close> selects (\<^verbatim>\<open>CONFIG_RWSEM_XCHGADD_ALGORITHM\<close>), and its relation to the one of
  \<open>Rwsem\<close>. The low half of \<open>count\<close> is the number of active locks, the high half the negated number
  of writers and waiters. Each call is one function here: the atomic instruction on the counter,
  its test, and the slow path under the spinlock. Calls that run at the same time on two
  processors, between the instruction and the slow path, are not modelled.
\<close>

section \<open>The semaphore\<close>

record rw_semaphore_x =
  x_count :: u32
  x_wait_list :: "rwsem_waiter list"

definition RWSEM_ACTIVE_BIAS :: u32 where "RWSEM_ACTIVE_BIAS = 0x00000001"
definition RWSEM_ACTIVE_MASK :: u32 where "RWSEM_ACTIVE_MASK = 0x0000FFFF"
definition RWSEM_WAITING_BIAS :: u32 where "RWSEM_WAITING_BIAS = - 0x00010000"
definition RWSEM_ACTIVE_WRITE_BIAS :: u32 where "RWSEM_ACTIVE_WRITE_BIAS = RWSEM_WAITING_BIAS + RWSEM_ACTIVE_BIAS"

lemmas bias_defs = RWSEM_ACTIVE_BIAS_def RWSEM_WAITING_BIAS_def RWSEM_ACTIVE_WRITE_BIAS_def RWSEM_ACTIVE_MASK_def

definition x_add :: "u32 \<Rightarrow> rw_semaphore_x \<Rightarrow> rw_semaphore_x" where
  "x_add delta x = x\<lparr>x_count := x_count x + delta\<rparr>"

section \<open>The slow paths\<close>

text \<open>The waiters at the front that are granted the lock; the first one has been looked at before. If
  the active part of the counter is not zero the count is restored and nobody is woken; the
  restored count is not zero then.\<close>

definition x_wake_readers :: "bool \<Rightarrow> rw_semaphore_x \<Rightarrow> rw_semaphore_x \<times> rwsem_waiter list" where
  "x_wake_readers downgrading x =
     (let woken = Suc (length (takeWhile reads (tl (x_wait_list x)))) in
      ((x_add (of_nat woken * (RWSEM_ACTIVE_BIAS - RWSEM_WAITING_BIAS) - (if downgrading then 0 else RWSEM_ACTIVE_BIAS)) x)
         \<lparr>x_wait_list := drop woken (x_wait_list x)\<rparr>, take woken (x_wait_list x)))"

definition x_do_wake :: "rw_semaphore_x \<Rightarrow> bool \<Rightarrow> (rw_semaphore_x \<times> rwsem_waiter list) outcome" where
  "x_do_wake x downgrading =
     (if downgrading then
        (case x_wait_list x of
           [] \<Rightarrow> Oops OutOfBounds
         | waiter # ws \<Rightarrow> if writes waiter then Ret (x, []) else Ret (x_wake_readers True x))
      else if x_count x AND RWSEM_ACTIVE_MASK \<noteq> 0 then Ret (x, [])
      else let x1 = x_add RWSEM_ACTIVE_BIAS x in
        (case x_wait_list x1 of
           [] \<Rightarrow> Oops OutOfBounds
         | waiter # ws \<Rightarrow>
             if writes waiter then Ret (x1\<lparr>x_wait_list := ws\<rparr>, [waiter]) else Ret (x_wake_readers False x1)))"

definition x_down_failed_common :: "rwsem_waiter \<Rightarrow> u32 \<Rightarrow> rw_semaphore_x \<Rightarrow> (rw_semaphore_x \<times> rwsem_waiter list) outcome" where
  "x_down_failed_common waiter adjustment x =
     (let x1 = x_add adjustment (x\<lparr>x_wait_list := x_wait_list x @ [waiter]\<rparr>) in
      if x_count x1 AND RWSEM_ACTIVE_MASK = 0 then x_do_wake x1 False else Ret (x1, []))"

definition x_wake :: "rw_semaphore_x \<Rightarrow> (rw_semaphore_x \<times> rwsem_waiter list) outcome" where
  "x_wake x = (if x_wait_list x \<noteq> [] then x_do_wake x False else Ret (x, []))"

definition x_downgrade_wake :: "rw_semaphore_x \<Rightarrow> (rw_semaphore_x \<times> rwsem_waiter list) outcome" where
  "x_downgrade_wake x = (if x_wait_list x \<noteq> [] then x_do_wake x True else Ret (x, []))"

text \<open>\<open>call_rwsem_wake\<close> does nothing if the low half of the old count was not 1.\<close>

definition call_rwsem_wake :: "u32 \<Rightarrow> rw_semaphore_x \<Rightarrow> (rw_semaphore_x \<times> rwsem_waiter list) outcome" where
  "call_rwsem_wake old x = (if (ucast old :: 16 word) - 1 \<noteq> 0 then Ret (x, []) else x_wake x)"

section \<open>The operations\<close>

text \<open>Taking the lock: whether it was granted at once, and the waiters woken by the slow path.\<close>

definition x_down_read :: "nat \<Rightarrow> rw_semaphore_x \<Rightarrow> (rw_semaphore_x \<times> bool \<times> rwsem_waiter list) outcome" where
  "x_down_read tsk x =
     (let x1 = x_add RWSEM_ACTIVE_BIAS x in
      if sint (x_count x1) \<ge> 0 then Ret (x1, True, [])
      else bindO (x_down_failed_common \<lparr>task = tsk, flags = RWSEM_WAITING_FOR_READ\<rparr> (RWSEM_WAITING_BIAS - RWSEM_ACTIVE_BIAS) x1)
             (\<lambda>(x2, woken). Ret (x2, False, woken)))"

definition x_down_read_trylock :: "rw_semaphore_x \<Rightarrow> rw_semaphore_x \<times> int" where
  "x_down_read_trylock x =
     ((if sint (x_count x) + 1 \<le> 0 then x else x_add RWSEM_ACTIVE_BIAS x), (if sint (x_count x) \<ge> 0 then 1 else 0))"

definition x_down_write_nested :: "nat \<Rightarrow> rw_semaphore_x \<Rightarrow> (rw_semaphore_x \<times> bool \<times> rwsem_waiter list) outcome" where
  "x_down_write_nested tsk x =
     (let x1 = x_add RWSEM_ACTIVE_WRITE_BIAS x in
      if x_count x = 0 then Ret (x1, True, [])
      else bindO (x_down_failed_common \<lparr>task = tsk, flags = RWSEM_WAITING_FOR_WRITE\<rparr> (- RWSEM_ACTIVE_BIAS) x1)
             (\<lambda>(x2, woken). Ret (x2, False, woken)))"

definition x_down_write_trylock :: "rw_semaphore_x \<Rightarrow> rw_semaphore_x \<times> int" where
  "x_down_write_trylock x = (if x_count x = 0 then (x\<lparr>x_count := RWSEM_ACTIVE_WRITE_BIAS\<rparr>, 1) else (x, 0))"

definition x_up_read :: "rw_semaphore_x \<Rightarrow> (rw_semaphore_x \<times> rwsem_waiter list) outcome" where
  "x_up_read x =
     (let x1 = x_add (- RWSEM_ACTIVE_BIAS) x in
      if sint (x_count x1) \<ge> 0 then Ret (x1, []) else call_rwsem_wake (x_count x) x1)"

definition x_up_write :: "rw_semaphore_x \<Rightarrow> (rw_semaphore_x \<times> rwsem_waiter list) outcome" where
  "x_up_write x =
     (let x1 = x_add (- RWSEM_ACTIVE_WRITE_BIAS) x in
      if x_count x1 = 0 then Ret (x1, []) else call_rwsem_wake (x_count x) x1)"

definition x_downgrade_write :: "rw_semaphore_x \<Rightarrow> (rw_semaphore_x \<times> rwsem_waiter list) outcome" where
  "x_downgrade_write x =
     (let x1 = x_add (- RWSEM_WAITING_BIAS) x in
      if sint (x_count x1) \<ge> 0 then Ret (x1, []) else x_downgrade_wake x1)"

section \<open>Relation to the semaphore with a spinlock\<close>

text \<open>The count as a number, and the states for which both halves have room: fewer than 65535 readers
  and at most 32766 waiters, as the header of \<^verbatim>\<open>rwsem.h\<close> says.\<close>

definition c_of :: "rw_semaphore \<Rightarrow> int" where
  "c_of s = (if activity s = - 1 then - 65535 else sint (activity s)) - 65536 * int (length (wait_list s))"

definition x_of :: "rw_semaphore \<Rightarrow> rw_semaphore_x" where
  "x_of s = \<lparr>x_count = word_of_int (c_of s), x_wait_list = wait_list s\<rparr>"

definition x_fits :: "rw_semaphore \<Rightarrow> bool" where
  "x_fits s \<longleftrightarrow> sint (activity s) < 65535 \<and> length (wait_list s) < 32767"

lemma sint_count_x:
  assumes "sem_ok s" "x_fits s" "- 65536 \<le> d" "d \<le> 65536"
  shows "sint (word_of_int (c_of s + d) :: u32) = c_of s + d"
  using assms by (intro sint_of_small) (auto simp: sem_ok_def x_fits_def c_of_def)

lemma low_half_zero: "(word_of_int c :: u32) AND RWSEM_ACTIVE_MASK = 0 \<longleftrightarrow> c mod 65536 = 0"
proof -
  have "uint ((word_of_int c :: u32) AND RWSEM_ACTIVE_MASK) = take_bit 16 (uint (word_of_int c :: u32))"
    by (simp add: RWSEM_ACTIVE_MASK_def unsigned_and_eq take_bit_eq_mask mask_numeral)
  also have "\<dots> = c mod 65536" by (simp add: uint_word_of_int take_bit_eq_mod mod_mod_cancel)
  finally show ?thesis by (metis uint_0_iff)
qed

lemma low_half_one: "(ucast (word_of_int c :: u32) :: 16 word) - 1 \<noteq> 0 \<longleftrightarrow> c mod 65536 \<noteq> 1"
proof -
  have u: "uint (ucast (word_of_int c :: u32) :: 16 word) = c mod 65536"
    by (simp add: unsigned_ucast_eq uint_word_of_int take_bit_eq_mod mod_mod_cancel)
  have "(ucast (word_of_int c :: u32) :: 16 word) - 1 = 0 \<longleftrightarrow> (ucast (word_of_int c :: u32) :: 16 word) = 1" by simp
  also have "\<dots> \<longleftrightarrow> c mod 65536 = 1" using u by (metis uint_1 word_eq_iff_unsigned)
  finally show ?thesis by simp
qed

text \<open>What the tests of the fast paths see.\<close>

lemma c_of_tests:
  assumes "sem_ok s" "x_fits s"
  shows "0 \<le> c_of s + 1 \<longleftrightarrow> 0 \<le> sint (activity s) \<and> wait_list s = []"
    and "0 \<le> c_of s \<longleftrightarrow> 0 \<le> sint (activity s) \<and> wait_list s = []"
    and "c_of s = 0 \<longleftrightarrow> activity s = 0 \<and> wait_list s = []"
    and "c_of s mod 65536 = (if activity s = - 1 then 1 else sint (activity s))"
proof -
  let ?k = "int (length (wait_list s))"
  have a: "activity s = - 1 \<or> 0 \<le> sint (activity s) \<and> sint (activity s) < 65535"
    using assms sint_eq_1(2) [of "activity s"] by (auto simp: sem_ok_def x_fits_def)
  show "0 \<le> c_of s + 1 \<longleftrightarrow> 0 \<le> sint (activity s) \<and> wait_list s = []" "0 \<le> c_of s \<longleftrightarrow> 0 \<le> sint (activity s) \<and> wait_list s = []"
    using a by (cases "wait_list s"; auto simp: c_of_def)+
  show "c_of s = 0 \<longleftrightarrow> activity s = 0 \<and> wait_list s = []"
    using a sint_0_iff [of "activity s"] by (cases "wait_list s") (auto simp: c_of_def)
  show "c_of s mod 65536 = (if activity s = - 1 then 1 else sint (activity s))"
    using a mod_mult_self2 [of "if activity s = - 1 then - 65535 else sint (activity s)" "65536" "- ?k"]
    by (auto simp: c_of_def)
qed

lemma x_of_simps [simp]: "x_count (x_of s) = word_of_int (c_of s)" "x_wait_list (x_of s) = wait_list s"
  by (simp_all add: x_of_def)

lemma x_of_eqI: "x_wait_list x = wait_list s \<Longrightarrow> x_count x = word_of_int (c_of s) \<Longrightarrow> x = x_of s"
  by (cases x) (simp add: x_of_def)

lemma x_failed_quiet:
  assumes "sem_ok s" "x_fits s" "activity s \<noteq> 0" "x_wait_list x = wait_list s"
    "x_count x + adj = word_of_int (c_of s - 65536)"
  shows "x_down_failed_common w adj x = Ret (x_of (s\<lparr>wait_list := wait_list s @ [w]\<rparr>), [])"
proof -
  have c: "c_of (s\<lparr>wait_list := wait_list s @ [w]\<rparr>) = c_of s - 65536" by (simp add: c_of_def)
  have "(c_of s - 65536) mod 65536 = c_of s mod 65536" using mod_mult_self2 [of "c_of s" 65536 "- 1"] by simp
  then have "(c_of s - 65536) mod 65536 \<noteq> 0"
    using c_of_tests(4) [OF assms(1,2)] assms(3) sint_0_iff [of "activity s"] by simp
  then have "\<not> (word_of_int (c_of s - 65536) :: u32) AND RWSEM_ACTIVE_MASK = 0" using low_half_zero by blast
  then show ?thesis
    using assms(4,5) c by (auto simp: x_down_failed_common_def x_add_def Let_def intro!: x_of_eqI)
qed

lemma x_down_read_spec:
  assumes "sem_ok s" "x_fits s"
  shows "x_down_read p (x_of s) = Ret (x_of (fst (down_read p s)), snd (down_read p s), [])"
proof (cases "0 \<le> sint (activity s) \<and> wait_list s = []")
  case True
  have i: "sint (activity s + 1) = sint (activity s) + 1" using assms(2) by (intro sint_incr) (simp add: x_fits_def)
  have n: "activity s \<noteq> - 1" "activity s + 1 \<noteq> - 1"
    using True i sint_eq_1(2) [of "activity s"] sint_eq_1(2) [of "activity s + 1"] by auto
  have "c_of (s\<lparr>activity := activity s + 1\<rparr>) = c_of s + 1" using i n by (simp add: c_of_def)
  then show ?thesis
    using True c_of_tests(1) [OF assms] sint_count_x [OF assms, of 1]
    by (auto simp: x_down_read_def down_read_def x_add_def bias_defs Let_def intro!: x_of_eqI)
next
  case False
  then have "activity s \<noteq> 0" using assms(1) by (auto simp: sem_ok_def)
  then have "x_down_failed_common w (RWSEM_WAITING_BIAS - RWSEM_ACTIVE_BIAS) (x_add RWSEM_ACTIVE_BIAS (x_of s))
      = Ret (x_of (s\<lparr>wait_list := wait_list s @ [w]\<rparr>), [])" for w
    by (intro x_failed_quiet [OF assms]) (simp_all add: x_add_def bias_defs)
  then show ?thesis
    using False c_of_tests(1) [OF assms] sint_count_x [OF assms, of 1]
    by (auto simp: x_down_read_def down_read_def x_add_def RWSEM_ACTIVE_BIAS_def Let_def)
qed

lemma x_down_write_spec:
  assumes "sem_ok s" "x_fits s"
  shows "x_down_write_nested p (x_of s) = Ret (x_of (fst (down_write p s)), snd (down_write p s), [])"
proof -
  have z: "x_count (x_of s) = 0 \<longleftrightarrow> activity s = 0 \<and> wait_list s = []"
    using c_of_tests(3) [OF assms] sint_count_x [OF assms, of 0] sint_0_iff [of "x_count (x_of s)"] by simp
  show ?thesis
  proof (cases "activity s = 0 \<and> wait_list s = []")
    case True
    then show ?thesis using z
      by (auto simp: x_down_write_nested_def down_write_def down_write_nested_def x_add_def bias_defs c_of_def intro!: x_of_eqI)
  next
    case False
    then have "activity s \<noteq> 0" using assms(1) by (auto simp: sem_ok_def)
    then have "x_down_failed_common w (- RWSEM_ACTIVE_BIAS) (x_add RWSEM_ACTIVE_WRITE_BIAS (x_of s))
        = Ret (x_of (s\<lparr>wait_list := wait_list s @ [w]\<rparr>), [])" for w
      by (intro x_failed_quiet [OF assms]) (simp_all add: x_add_def bias_defs)
    then show ?thesis using False z
      by (auto simp: x_down_write_nested_def down_write_def down_write_nested_def Let_def)
  qed
qed

lemma x_trylock_spec:
  assumes "sem_ok s" "x_fits s"
  shows "x_down_read_trylock (x_of s) = map_prod x_of id (down_read_trylock s)"
    and "x_down_write_trylock (x_of s) = map_prod x_of id (down_write_trylock s)"
proof -
  have c: "sint (word_of_int (c_of s) :: u32) = c_of s" using sint_count_x [OF assms, of 0] by simp
  have z: "x_count (x_of s) = 0 \<longleftrightarrow> activity s = 0 \<and> wait_list s = []"
    using c_of_tests(3) [OF assms] c sint_0_iff [of "x_count (x_of s)"] by simp
  then show "x_down_write_trylock (x_of s) = map_prod x_of id (down_write_trylock s)"
    by (auto simp: x_down_write_trylock_def down_write_trylock_def bias_defs c_of_def intro!: x_of_eqI)
  show "x_down_read_trylock (x_of s) = map_prod x_of id (down_read_trylock s)"
  proof (cases "0 \<le> sint (activity s) \<and> wait_list s = []")
    case True
    then have "snd (down_read p s)" for p by (simp add: down_read_def)
    moreover have "x_down_read 0 (x_of s) = Ret (x_add RWSEM_ACTIVE_BIAS (x_of s), True, [])"
      using True c_of_tests(1) [OF assms] sint_count_x [OF assms, of 1]
      by (simp add: x_down_read_def x_add_def RWSEM_ACTIVE_BIAS_def Let_def)
    ultimately have "x_add RWSEM_ACTIVE_BIAS (x_of s) = x_of (s\<lparr>activity := activity s + 1\<rparr>)"
      using x_down_read_spec [OF assms, of 0] True by (simp add: down_read_def)
    then show ?thesis using True c c_of_tests(2) [OF assms] by (simp add: x_down_read_trylock_def down_read_trylock_def)
  next
    case False
    then have "c_of s + 1 \<le> 0" "\<not> 0 \<le> c_of s" using c_of_tests(2) [OF assms] by auto
    then show ?thesis using False c by (auto simp: x_down_read_trylock_def down_read_trylock_def)
  qed
qed

lemma wake_readers_prefix:
  assumes "\<forall>y \<in> set (x # ws). one_flag y" "\<not> writes x"
  shows "wake_readers (x # ws) =
    (take (Suc (length (takeWhile reads ws))) (x # ws), drop (Suc (length (takeWhile reads ws))) (x # ws))"
proof -
  have w: "wake_readers ys = (takeWhile reads ys, dropWhile reads ys)" for ys
    by (induction ys) (auto split: prod.splits)
  have "reads x" using assms one_flag_xor by auto
  then show ?thesis using w [of "x # ws"] takeWhile_eq_take [of reads ws] dropWhile_eq_drop [of reads ws]
    by (simp del: wake_readers.simps)
qed

lemma x_word:
  "word_of_int (c_of s) = (if activity s = - 1 then - 65535 else activity s) - 65536 * of_nat (length (wait_list s))"
proof -
  have "word_of_int (a - 65536 * int n) = (word_of_int a - 65536 * of_nat n :: u32)" for a n
    by (simp only: of_int_diff of_int_mult of_int_numeral of_int_of_nat_eq)
  then show ?thesis by (cases "activity s = - 1") (simp_all add: c_of_def del: of_int_diff)
qed

lemma count_not_writer: "n < 2 ^ 31 \<Longrightarrow> (of_nat n :: u32) \<noteq> - 1"
  using sint_count [of n] sint_eq_1(2) [of "of_nat n"] by auto

text \<open>Waking readers moves their places from the waiting to the active half.\<close>

lemma x_wake_readers_spec:
  assumes "wait_list s = w # ws" "n = Suc (length (takeWhile reads ws))" "x_wait_list x = w # ws"
    "x_count x = a + (if downgrading then 0 else 1) - 65536 * of_nat (length (w # ws))"
    "a + of_nat n \<noteq> - 1" "s' = s\<lparr>activity := a + of_nat n, wait_list := drop n (w # ws)\<rparr>"
  shows "x_wake_readers downgrading x = (x_of s', take n (w # ws))"
proof -
  have n: "n \<le> length (w # ws)" using assms(2) by (simp add: length_takeWhile_le)
  have "word_of_int (c_of s') = a + of_nat n - 65536 * (of_nat (length (w # ws)) - of_nat n)"
    using assms(5,6) n by (simp only: x_word of_nat_diff) simp
  then show ?thesis
    using assms(2-4,6) by (auto simp: x_wake_readers_def x_add_def bias_defs Let_def algebra_simps intro!: x_of_eqI)
qed

lemma x_wake_spec:
  assumes "sem_ok s" "x_fits s" "wait_list s \<noteq> []" "x = x_of (s\<lparr>activity := 0\<rparr>)"
  shows "\<exists>s' woken. rwsem_do_wake (s\<lparr>activity := 0\<rparr>) True = Ret (s', woken) \<and> x_wake x = Ret (x_of s', woken)"
proof -
  obtain w ws where q: "wait_list s = w # ws" using assms(3) by (cases "wait_list s") auto
  have f: "\<forall>y \<in> set (w # ws). one_flag y" using assms(1) q by (simp add: sem_ok_def)
  have "c_of (s\<lparr>activity := 0\<rparr>) = 65536 * (- int (length (w # ws)))" using q by (simp add: c_of_def)
  then have "c_of (s\<lparr>activity := 0\<rparr>) mod 65536 = 0" by (simp only: mod_mult_self1_is_0)
  then have m: "x_count x AND RWSEM_ACTIVE_MASK = 0"
    using low_half_zero [of "c_of (s\<lparr>activity := 0\<rparr>)"] assms(4) by (simp only: x_of_simps)
  have x: "x_wait_list x = w # ws" "x_count x = - 65536 * of_nat (length (w # ws))"
    using assms(4) q by (simp_all add: x_word)
  show ?thesis
  proof (cases "writes w")
    case True
    have "x_wake x = Ret ((x_add RWSEM_ACTIVE_BIAS x)\<lparr>x_wait_list := ws\<rparr>, [w])"
      using m x(1) True by (simp add: x_wake_def x_do_wake_def x_add_def Let_def)
    moreover have "(x_add RWSEM_ACTIVE_BIAS x)\<lparr>x_wait_list := ws\<rparr> = x_of (s\<lparr>activity := - 1, wait_list := ws\<rparr>)"
      using x by (intro x_of_eqI) (simp_all add: x_add_def x_word RWSEM_ACTIVE_BIAS_def algebra_simps)
    ultimately show ?thesis using q True by (simp add: rwsem_do_wake_def)
  next
    case False
    let ?n = "Suc (length (takeWhile reads ws))"
    have "?n < 2 ^ 31" using assms(2) q length_takeWhile_le [of reads ws] by (simp add: x_fits_def)
    then have "x_wake_readers False (x_add RWSEM_ACTIVE_BIAS x) =
        (x_of (s\<lparr>activity := 0 + of_nat ?n, wait_list := drop ?n (w # ws)\<rparr>), take ?n (w # ws))"
      using x q count_not_writer [of ?n] by (intro x_wake_readers_spec [where a = 0]) (simp_all add: x_add_def RWSEM_ACTIVE_BIAS_def)
    moreover have "x_wake x = Ret (x_wake_readers False (x_add RWSEM_ACTIVE_BIAS x))"
      using m x(1) False by (simp add: x_wake_def x_do_wake_def x_add_def Let_def)
    moreover have "rwsem_do_wake (s\<lparr>activity := 0\<rparr>) True =
        Ret (s\<lparr>activity := 0 + of_nat ?n, wait_list := drop ?n (w # ws)\<rparr>, take ?n (w # ws))"
      using q False wake_readers_prefix [OF f False] length_takeWhile_le [of reads ws]
      by (simp add: rwsem_do_wake_def min_def del: wake_readers.simps)
    ultimately show ?thesis by simp
  qed
qed

lemma x_up_read_spec:
  assumes "sem_ok s" "x_fits s" "0 < sint (activity s)"
  shows "\<exists>s' woken. up_read s = Ret (s', woken) \<and> x_up_read (x_of s) = Ret (x_of s', woken)"
proof -
  let ?x1 = "x_add (- RWSEM_ACTIVE_BIAS) (x_of s)"
  have n: "activity s \<noteq> - 1" "activity s \<noteq> 0" using assms(3) by auto
  have d: "sint (activity s - 1) = sint (activity s) - 1" by (rule sint_decr) (use assms(3) in simp)
  have n1: "activity s - 1 \<noteq> - 1" using n(2) by simp
  have c: "x_count ?x1 = word_of_int (c_of s + - 1)" by (simp add: x_add_def RWSEM_ACTIVE_BIAS_def)
  have x1: "?x1 = x_of (s\<lparr>activity := activity s - 1\<rparr>)"
    using n n1 d by (intro x_of_eqI) (simp_all add: x_add_def RWSEM_ACTIVE_BIAS_def c_of_def)
  have sgn: "0 \<le> sint (x_count ?x1) \<longleftrightarrow> wait_list s = []"
    using sint_count_x [OF assms(1,2), of "- 1"] c assms(2,3) n(1) by (cases "wait_list s") (auto simp: c_of_def x_fits_def)
  have low: "(ucast (x_count (x_of s)) :: 16 word) - 1 \<noteq> 0 \<longleftrightarrow> activity s \<noteq> 1"
    using low_half_one [of "c_of s"] c_of_tests(4) [OF assms(1,2)] n(1) sint_eq_1(1) [of "activity s"] by simp
  show ?thesis
  proof (cases "activity s = 1 \<and> wait_list s \<noteq> []")
    case True
    then obtain w ws where q: "wait_list s = w # ws" by (cases "wait_list s") auto
    have "writes w" using assms(1,3) q by (auto simp: sem_ok_def)
    then have u: "up_read s = rwsem_do_wake (s\<lparr>activity := 0\<rparr>) True"
      using True q by (simp add: up_read_def rwsem_wake_one_writer_def rwsem_do_wake_def)
    have "x_up_read (x_of s) = x_wake ?x1" using sgn low True by (simp add: x_up_read_def call_rwsem_wake_def Let_def)
    then show ?thesis using x_wake_spec [OF assms(1,2), of ?x1] True x1 u by simp
  next
    case False
    then have "x_up_read (x_of s) = Ret (?x1, [])" using sgn low by (auto simp: x_up_read_def call_rwsem_wake_def Let_def)
    then show ?thesis using False x1 by (auto simp: up_read_def Let_def)
  qed
qed

lemma x_up_write_spec:
  assumes "sem_ok s" "x_fits s" "activity s = - 1"
  shows "\<exists>s' woken. up_write s = Ret (s', woken) \<and> x_up_write (x_of s) = Ret (x_of s', woken)"
proof -
  let ?x1 = "x_add (- RWSEM_ACTIVE_WRITE_BIAS) (x_of s)"
  have x1: "?x1 = x_of (s\<lparr>activity := 0\<rparr>)"
    using assms(3) by (intro x_of_eqI) (simp_all add: x_add_def bias_defs x_word)
  have "sint (x_count ?x1) = c_of s + 65535"
    using sint_count_x [OF assms(1,2), of 65535] by (simp add: x_add_def bias_defs)
  then have z: "x_count ?x1 = 0 \<longleftrightarrow> wait_list s = []"
    using sint_0_iff [of "x_count ?x1"] assms(3) by (auto simp: c_of_def)
  have low: "\<not> (ucast (x_count (x_of s)) :: 16 word) - 1 \<noteq> 0"
    using low_half_one [of "c_of s"] c_of_tests(4) [OF assms(1,2)] assms(3) by simp
  show ?thesis
  proof (cases "wait_list s = []")
    case True
    then show ?thesis using x1 z by (auto simp: x_up_write_def up_write_def Let_def)
  next
    case False
    then show ?thesis
      using x_wake_spec [OF assms(1,2) False x1] z low by (simp add: x_up_write_def up_write_def call_rwsem_wake_def Let_def)
  qed
qed

lemma x_downgrade_spec:
  assumes "sem_ok s" "x_fits s" "activity s = - 1"
  shows "\<exists>s' woken. downgrade_write s = Ret (s', woken) \<and> x_downgrade_write (x_of s) = Ret (x_of s', woken)"
proof -
  let ?x1 = "x_add (- RWSEM_WAITING_BIAS) (x_of s)"
  have x1: "?x1 = x_of (s\<lparr>activity := 1\<rparr>)"
    using assms(3) by (intro x_of_eqI) (simp_all add: x_add_def bias_defs x_word)
  have "sint (x_count ?x1) = c_of s + 65536"
    using sint_count_x [OF assms(1,2), of 65536] by (simp add: x_add_def bias_defs)
  then have z: "0 \<le> sint (x_count ?x1) \<longleftrightarrow> wait_list s = []"
    using assms(3) by (cases "wait_list s") (auto simp: c_of_def)
  show ?thesis
  proof (cases "wait_list s")
    case Nil
    then show ?thesis using x1 z by (auto simp: x_downgrade_write_def downgrade_write_def Let_def)
  next
    case (Cons w ws)
    have f: "\<forall>y \<in> set (w # ws). one_flag y" using assms(1) Cons by (simp add: sem_ok_def)
    have q: "x_downgrade_write (x_of s) = x_do_wake ?x1 True" "x_wait_list ?x1 = w # ws"
      using z Cons x1 by (simp_all add: x_downgrade_write_def x_downgrade_wake_def Let_def)
    show ?thesis
    proof (cases "writes w")
      case True
      then show ?thesis using q x1 Cons by (simp add: x_do_wake_def downgrade_write_def rwsem_do_wake_def)
    next
      case False
      let ?n = "Suc (length (takeWhile reads ws))"
      have "Suc ?n < 2 ^ 31" using assms(2) Cons length_takeWhile_le [of reads ws] by (simp add: x_fits_def)
      then have "(1 :: u32) + of_nat ?n \<noteq> - 1" using count_not_writer [of "Suc ?n"] by simp
      then have "x_wake_readers True ?x1 =
          (x_of (s\<lparr>activity := 1 + of_nat ?n, wait_list := drop ?n (w # ws)\<rparr>), take ?n (w # ws))"
        using Cons x1 by (intro x_wake_readers_spec [where a = 1]) (simp_all add: x_word)
      moreover have "downgrade_write s = Ret (s\<lparr>activity := 1 + of_nat ?n, wait_list := drop ?n (w # ws)\<rparr>, take ?n (w # ws))"
        using Cons False wake_readers_prefix [OF f False] length_takeWhile_le [of reads ws]
        by (simp add: downgrade_write_def rwsem_do_wake_def min_def del: wake_readers.simps)
      ultimately show ?thesis using q False by (simp add: x_do_wake_def)
    qed
  qed
qed

text \<open>C7: The semaphore of the recommended configuration behaves as the one with a spinlock. With
  fewer than 65535 readers and fewer than 32767 waiters, each call on the counter with two halves, one call
  at a time, grants, refuses, queues and wakes exactly what the same call on \<open>activity\<close> does,
  and the two counters stay related.\<close>

theorem xadd_refines_spinlock:
  assumes "sem_ok s" "x_fits s"
  shows "x_down_read p (x_of s) = Ret (x_of (fst (down_read p s)), snd (down_read p s), []) \<and>
    x_down_write_nested p (x_of s) = Ret (x_of (fst (down_write p s)), snd (down_write p s), []) \<and>
    x_down_read_trylock (x_of s) = map_prod x_of id (down_read_trylock s) \<and>
    x_down_write_trylock (x_of s) = map_prod x_of id (down_write_trylock s) \<and>
    (0 < sint (activity s) \<longrightarrow> (\<exists>s' woken. up_read s = Ret (s', woken) \<and> x_up_read (x_of s) = Ret (x_of s', woken))) \<and>
    (activity s = - 1 \<longrightarrow> (\<exists>s' woken. up_write s = Ret (s', woken) \<and> x_up_write (x_of s) = Ret (x_of s', woken)) \<and>
      (\<exists>s' woken. downgrade_write s = Ret (s', woken) \<and> x_downgrade_write (x_of s) = Ret (x_of s', woken)))"
  using x_down_read_spec [OF assms] x_down_write_spec [OF assms] x_trylock_spec [OF assms] x_up_read_spec [OF assms]
    x_up_write_spec [OF assms] x_downgrade_spec [OF assms] by blast

theorem xadd_refines_spinlock_witness:
  "x_up_read \<lparr>x_count = - 0xFFFF, x_wait_list = [\<lparr>task = 2, flags = RWSEM_WAITING_FOR_WRITE\<rparr>]\<rparr> =
     Ret (\<lparr>x_count = - 0xFFFF, x_wait_list = []\<rparr>, [\<lparr>task = 2, flags = RWSEM_WAITING_FOR_WRITE\<rparr>])"
proof -
  let ?s = "sem sample_world"
  have "sem_ok ?s" "x_fits ?s" by (simp_all add: sample_world_def sem_ok_def x_fits_def)
  from xadd_refines_spinlock [OF this] show ?thesis
    by (auto simp: sample_world_def x_of_def c_of_def up_read_def rwsem_wake_one_writer_def Let_def)
qed

text \<open>The two differ after a release without a lock: here the next reader is let in, there it waits.\<close>

lemma unpaired_release_differs:
  "x_up_read (x_of init_rwsem) = Ret (\<lparr>x_count = - 1, x_wait_list = []\<rparr>, []) \<and>
   x_down_read p \<lparr>x_count = - 1, x_wait_list = []\<rparr> = Ret (\<lparr>x_count = 0, x_wait_list = []\<rparr>, True, []) \<and>
   up_read init_rwsem = Ret (\<lparr>activity = - 1, wait_list = []\<rparr>, []) \<and>
   \<not> snd (down_read p \<lparr>activity = - 1, wait_list = []\<rparr>)"
  by (simp add: x_up_read_def x_down_read_def x_add_def x_of_def c_of_def init_rwsem_def bias_defs call_rwsem_wake_def
      up_read_def down_read_def Let_def)

end
