(* ===== verification/Counted_Array.thy ===== *)
theory Counted_Array
  imports Kernel_Prelude
begin

text \<open>
  The label lists and capability segments of \<^verbatim>\<open>security/difc.c\<close> share one layout: a
  fixed array of 32 64-bit words whose word 0 is the number of entries in use, the entries
  being words 1 to that number. This theory models the accesses the module makes to such
  arrays: reading and writing a word (outside the 32 words the run is an \<open>OutOfBounds\<close>
  fault), the counting loop of \<open>list_for_each_label\<close> and \<open>list_for_each_cap\<close>, the
  shift-down loop that deletes an entry, and \<open>list[++(*list)] = v\<close>. A well-formed array
  stands for the list of its entries, and every operation is shown to be the corresponding
  operation on that list.
\<close>

named_theorems arr_simps

type_synonym carray = "u64 list"

section \<open>Operations\<close>

text \<open>\<open>LABEL_LIST_BYTES / sizeof(label_t)\<close>, which \<open>CAP_LIST_CAPS\<close> equals.\<close>

definition LIST_WORDS :: nat where
  "LIST_WORDS = 32"

definition LIST_MAX_ENTRIES :: nat where
  "LIST_MAX_ENTRIES = LIST_WORDS - 1"

definition empty_arr :: carray where
  "empty_arr = replicate LIST_WORDS 0"

definition rd :: "carray \<Rightarrow> nat \<Rightarrow> u64 outcome" where
  "rd a i = (if i < length a then Ret (a ! i) else Oops OutOfBounds)"

definition wr :: "carray \<Rightarrow> nat \<Rightarrow> u64 \<Rightarrow> carray outcome" where
  "wr a i v = (if i < length a then Ret (a[i := v]) else Oops OutOfBounds)"

text \<open>The count word.\<close>

definition cnt :: "carray \<Rightarrow> nat" where
  "cnt a = (case a of [] \<Rightarrow> 0 | c # _ \<Rightarrow> unat c)"

text \<open>
  \<open>for (idx = 1; idx <= *head && ({l = head[idx]; 1;}); idx++) if (P l) break;\<close> with the
  value of \<open>idx\<close> after the loop as result.
\<close>

function find_from :: "(u64 \<Rightarrow> bool) \<Rightarrow> carray \<Rightarrow> nat \<Rightarrow> nat outcome" where
  "find_from P a idx =
     (if idx \<le> cnt a
      then bindO (rd a idx) (\<lambda>l. if P l then Ret idx else find_from P a (Suc idx))
      else Ret idx)"
  by pat_completeness auto
termination
  by (relation "measure (\<lambda>(P, a, idx). Suc (cnt a) - idx)") auto

declare find_from.simps [simp del]

lemma cnt_update [simp]: "0 < i \<Longrightarrow> cnt (a[i := v]) = cnt a"
  by (cases a; cases i) (auto simp: cnt_def)

lemma cnt_wr: "wr a i v = Ret a' \<Longrightarrow> 0 < i \<Longrightarrow> cnt a' = cnt a"
  by (auto simp: wr_def split: if_splits)

text \<open>
  \<open>while (idx < *list) { list[idx] = list[idx+1]; idx++; }\<close>. The loop is entered with
  \<open>idx\<close> at least 1, so it never overwrites the count word it tests.
\<close>

function shift_down :: "carray \<Rightarrow> nat \<Rightarrow> carray outcome" where
  "shift_down a idx =
     (if 0 < idx \<and> idx < cnt a
      then bindO (rd a (Suc idx)) (\<lambda>v. bindO (wr a idx v) (\<lambda>a'. shift_down a' (Suc idx)))
      else Ret a)"
  by pat_completeness auto

termination
  by (relation "measure (\<lambda>(a, idx). cnt a - idx)") (auto simp: cnt_wr)

declare shift_down.simps [simp del]

definition set_cnt :: "carray \<Rightarrow> u64 \<Rightarrow> carray outcome" where
  "set_cnt a c = wr a 0 c"

text \<open>Delete the entry at \<open>idx\<close>: the shift loop, then \<open>(*list)--\<close>.\<close>

definition del_at :: "carray \<Rightarrow> nat \<Rightarrow> carray outcome" where
  "del_at a idx = bindO (shift_down a idx) (\<lambda>a'. bindO (rd a' 0) (\<lambda>c. set_cnt a' (c - 1)))"

text \<open>\<open>list[++(*list)] = v\<close>\<close>

definition push :: "carray \<Rightarrow> u64 \<Rightarrow> carray outcome" where
  "push a v = bindO (rd a 0) (\<lambda>c. bindO (set_cnt a (c + 1)) (\<lambda>a'. wr a' (unat (c + 1)) v))"

section \<open>The list an array stands for\<close>

definition sized :: "carray \<Rightarrow> bool" where
  "sized a \<longleftrightarrow> length a = LIST_WORDS"

definition wf_arr :: "carray \<Rightarrow> bool" where
  "wf_arr a \<longleftrightarrow> sized a \<and> cnt a \<le> LIST_MAX_ENTRIES"

definition entries :: "carray \<Rightarrow> u64 list" where
  "entries a = take (cnt a) (drop 1 a)"

lemmas arr_consts = LIST_WORDS_def LIST_MAX_ENTRIES_def

lemma wf_arrD: "wf_arr a \<Longrightarrow> length a = 32 \<and> cnt a \<le> 31"
  by (simp add: wf_arr_def sized_def arr_consts)

lemma wf_arr_ConsE:
  assumes "wf_arr a"
  obtains c es where "a = c # es" and "length es = 31" and "unat c \<le> 31" and "cnt a = unat c"
  using wf_arrD [OF assms] by (cases a) (auto simp: cnt_def)

lemma length_entries [simp]: "wf_arr a \<Longrightarrow> length (entries a) = cnt a"
  by (auto simp: entries_def dest: wf_arrD)

lemma entries_nth: "wf_arr a \<Longrightarrow> i < cnt a \<Longrightarrow> entries a ! i = a ! Suc i"
  by (auto simp: entries_def dest: wf_arrD)

lemma wf_empty_arr [simp]: "wf_arr empty_arr"
  by (simp add: wf_arr_def sized_def empty_arr_def arr_consts cnt_def numeral_eq_Suc)

lemma cnt_empty_arr [simp]: "cnt empty_arr = 0"
  by (simp add: empty_arr_def cnt_def arr_consts numeral_eq_Suc)

lemma entries_empty_arr [simp]: "entries empty_arr = []"
  by (simp add: entries_def empty_arr_def cnt_def arr_consts numeral_eq_Suc)

lemma cnt_eq_0_iff [simp]: "wf_arr a \<Longrightarrow> cnt a = 0 \<longleftrightarrow> entries a = []"
  by (metis length_0_conv length_entries)

lemma find_from_aux:
  assumes "wf_arr a" and "n = Suc (cnt a) - idx" and "0 < idx" and "idx \<le> Suc (cnt a)"
  shows "find_from P a idx = Ret (idx + first_index P (drop (idx - 1) (entries a)))"
  using assms(2-4)
proof (induction n arbitrary: idx)
  case 0
  then have "idx = Suc (cnt a)" by simp
  then show ?case
    using assms(1) by (subst find_from.simps) simp
next
  case (Suc n)
  then have le: "idx \<le> cnt a" by simp
  define i where "i = idx - 1"
  have idx: "idx = Suc i" "i < cnt a" using Suc.prems le by (auto simp: i_def)
  have dr: "drop i (entries a) = entries a ! i # drop (Suc i) (entries a)"
    using idx assms(1) by (simp add: Cons_nth_drop_Suc)
  have rd: "rd a idx = Ret (entries a ! i)"
    using wf_arrD [OF assms(1)] idx assms(1) by (auto simp: rd_def entries_nth)
  have IH: "find_from P a (Suc idx) = Ret (Suc idx + first_index P (drop (Suc i) (entries a)))"
    using Suc.IH [of "Suc idx"] Suc.prems idx by simp
  show ?case
    using le rd IH dr by (subst find_from.simps) (simp add: idx)
qed

lemma find_from_Ret [arr_simps]:
  "wf_arr a \<Longrightarrow> find_from P a (Suc 0) = Ret (Suc (first_index P (entries a)))"
  using find_from_aux [of a "cnt a" 1 P] by simp

lemma rd_entry: "wf_arr a \<Longrightarrow> i < cnt a \<Longrightarrow> rd a (Suc i) = Ret (entries a ! i)"
  by (auto simp: rd_def entries_nth dest: wf_arrD)

text \<open>The two ways a search ends, in the form the client proofs use.\<close>

lemma find_from_cases:
  assumes "wf_arr a"
  obtains (found) i where "find_from P a (Suc 0) = Ret (Suc i)" and "i < cnt a" and "P (entries a ! i)"
      and "entries a ! i \<in> set (entries a)" and "rd a (Suc i) = Ret (entries a ! i)"
      and "\<forall>j < i. \<not> P (entries a ! j)"
    | (absent) i where "find_from P a (Suc 0) = Ret (Suc i)" and "cnt a \<le> i" and "\<forall>c \<in> set (entries a). \<not> P c"
proof -
  let ?i = "first_index P (entries a)"
  have f: "find_from P a (Suc 0) = Ret (Suc ?i)" using assms by (rule find_from_Ret)
  show thesis
  proof (cases "?i < length (entries a)")
    case True
    with assms f show thesis
      by (intro found [of ?i]) (auto intro: first_index_holds rd_entry dest: first_index_before)
  next
    case False
    then have "\<forall>c \<in> set (entries a). \<not> P c" by (simp add: first_index_less_iff)
    with False assms f show thesis by (intro absent [of ?i]) auto
  qed
qed

lemma shift_down_aux:
  assumes "wf_arr a" and "n = cnt a - idx" and "0 < idx"
  shows "\<exists>a'. shift_down a idx = Ret a' \<and> length a' = length a \<and>
    (\<forall>j < length a. a' ! j = (if idx \<le> j \<and> j < cnt a then a ! Suc j else a ! j))"
  using assms
proof (induction n arbitrary: a idx)
  case 0
  then show ?case by (subst shift_down.simps) auto
next
  case (Suc n)
  note wf = wf_arrD [OF Suc.prems(1)]
  let ?b = "a[idx := a ! Suc idx]"
  have lt: "idx < cnt a" using Suc.prems(2) by simp
  have eq: "shift_down a idx = shift_down ?b (Suc idx)"
    using Suc.prems(3) lt wf by (subst shift_down.simps) (simp add: rd_def wr_def)
  have b: "wf_arr ?b" "n = cnt ?b - Suc idx" "cnt ?b = cnt a"
    using Suc.prems by (auto simp: wf_arr_def sized_def)
  obtain a' where a': "shift_down ?b (Suc idx) = Ret a'" "length a' = length a"
    "\<forall>j < length a. a' ! j = (if Suc idx \<le> j \<and> j < cnt a then ?b ! Suc j else ?b ! j)"
    using Suc.IH [OF b(1,2)] b(3) by auto
  have "a' ! j = (if idx \<le> j \<and> j < cnt a then a ! Suc j else a ! j)" if "j < length a" for j
    using a'(3) that lt by (cases "j = idx") (auto simp: nth_list_update)
  with a'(1,2) eq show ?case by auto
qed

lemma wf_arr_cntD: "wf_arr a \<Longrightarrow> a ! 0 = of_nat (cnt a)"
  by (erule wf_arr_ConsE) simp

lemma cnt_nth0: "a \<noteq> [] \<Longrightarrow> cnt a = unat (a ! 0)"
  by (cases a) (auto simp: cnt_def)

lemma unat_pred: "0 < unat (c :: u64) \<Longrightarrow> unat (c - 1) = unat c - 1"
  by (simp add: unat_sub_if')

lemma unat_succ: "unat (c :: u64) < 100 \<Longrightarrow> unat (c + 1) = Suc (unat c)"
  by (simp add: unat_word_ariths)

lemma del_at_entries [arr_simps]:
  assumes "wf_arr a" and "0 < idx" and "idx \<le> cnt a"
  shows "\<exists>a'. del_at a idx = Ret a' \<and> wf_arr a' \<and> entries a' = remove_nth (idx - 1) (entries a)"
proof -
  note wf = wf_arrD [OF assms(1)]
  obtain b where b: "shift_down a idx = Ret b" "length b = length a"
    "\<forall>j < length a. b ! j = (if idx \<le> j \<and> j < cnt a then a ! Suc j else a ! j)"
    using shift_down_aux [OF assms(1) refl assms(2)] by auto
  let ?r = "b[0 := b ! 0 - 1]"
  have b0: "b ! 0 = a ! 0" using b(3) assms(2) wf by auto
  have c0: "unat (a ! 0) = cnt a" using wf by (subst cnt_nth0) auto
  have cr: "cnt ?r = cnt a - 1"
    using b0 c0 b(2) wf assms(2,3) by (subst cnt_nth0) (auto simp: unat_pred)
  have del: "del_at a idx = Ret ?r"
    using b(1,2) wf by (auto simp: del_at_def set_cnt_def rd_def wr_def)
  have wfr: "wf_arr ?r"
    using wf b(2) cr by (auto simp: wf_arr_def sized_def arr_consts)
  have "entries ?r = remove_nth (idx - 1) (entries a)"
  proof (rule nth_equalityI)
    show "length (entries ?r) = length (remove_nth (idx - 1) (entries a))"
      using wfr assms cr by simp
    fix i assume "i < length (entries ?r)"
    then have i: "i < cnt a - 1" using wfr cr by simp
    then have "entries ?r ! i = b ! Suc i"
      using wfr cr b(2) wf by (simp add: entries_nth)
    also have "\<dots> = (if idx \<le> Suc i then a ! Suc (Suc i) else a ! Suc i)"
      using b(3) wf i by auto
    also have "\<dots> = remove_nth (idx - 1) (entries a) ! i"
      using assms i by (auto simp: nth_remove_nth entries_nth)
    finally show "entries ?r ! i = remove_nth (idx - 1) (entries a) ! i" .
  qed
  with del wfr show ?thesis by blast
qed

lemma push_entries [arr_simps]:
  assumes "wf_arr a" and "cnt a < LIST_MAX_ENTRIES"
  shows "\<exists>a'. push a v = Ret a' \<and> wf_arr a' \<and> entries a' = entries a @ [v]"
proof -
  from assms(1) obtain c es where a: "a = c # es" "length es = 31" "unat c \<le> 31" "cnt a = unat c"
    by (rule wf_arr_ConsE)
  have c: "unat c < 31" using assms(2) a by (simp add: arr_consts)
  have c1: "unat (c + 1) = Suc (unat c)" using c by (intro unat_succ) simp
  let ?r = "(c + 1) # es[unat c := v]"
  have "push a v = Ret ?r"
    using a c c1 by (simp add: push_def set_cnt_def rd_def wr_def)
  moreover have "wf_arr ?r"
    using a c c1 by (simp add: wf_arr_def sized_def arr_consts cnt_def)
  moreover have "entries ?r = entries a @ [v]"
    using a c c1 by (simp add: entries_def cnt_def take_Suc_conv_app_nth)
  ultimately show ?thesis by blast
qed

lemma push_full:
  assumes "wf_arr a" and "cnt a = LIST_MAX_ENTRIES"
  shows "push a v = Oops OutOfBounds"
proof -
  from assms(1) obtain c es where a: "a = c # es" "length es = 31" "unat c \<le> 31" "cnt a = unat c"
    by (rule wf_arr_ConsE)
  have c1: "unat (c + 1) = 32" using assms(2) a unat_succ [of c] by (simp add: arr_consts)
  show ?thesis using a c1 by (simp add: push_def set_cnt_def rd_def wr_def)
qed

text \<open>An array that holds a given list of entries, used to build concrete states.\<close>

definition mk_arr :: "u64 list \<Rightarrow> carray" where
  "mk_arr xs = of_nat (length xs) # xs @ replicate (31 - length xs) 0"

lemma cnt_mk_arr: "length xs \<le> 31 \<Longrightarrow> cnt (mk_arr xs) = length xs"
  by (simp add: mk_arr_def cnt_def unat_of_nat)

lemma wf_mk_arr [simp]: "length xs \<le> 31 \<Longrightarrow> wf_arr (mk_arr xs)"
  by (simp add: wf_arr_def cnt_mk_arr sized_def arr_consts) (simp add: mk_arr_def)

lemma entries_mk_arr [simp]: "length xs \<le> 31 \<Longrightarrow> entries (mk_arr xs) = xs"
  by (simp add: entries_def cnt_mk_arr) (simp add: mk_arr_def)

section \<open>The interface the label and capability code relies on\<close>

text \<open>
  A bounded store of 64-bit words: a well-formedness invariant, the list of words held, and
  the three accesses. The laws are the contract that the label lists and the capability
  segments are written against; the clients' lemmas are proved once from them.
\<close>

locale word_store =
  fixes wf :: "'s \<Rightarrow> bool"
    and items :: "'s \<Rightarrow> u64 list"
    and capacity :: nat
    and find :: "(u64 \<Rightarrow> bool) \<Rightarrow> 's \<Rightarrow> nat outcome"
    and add :: "'s \<Rightarrow> u64 \<Rightarrow> 's outcome"
    and del :: "'s \<Rightarrow> nat \<Rightarrow> 's outcome"
    and fresh :: 's
  assumes find_law: "wf s \<Longrightarrow> find P s = Ret (Suc (first_index P (items s)))"
    and add_law: "wf s \<Longrightarrow> length (items s) < capacity \<Longrightarrow>
      \<exists>s'. add s v = Ret s' \<and> wf s' \<and> items s' = items s @ [v]"
    and del_law: "wf s \<Longrightarrow> i < length (items s) \<Longrightarrow>
      \<exists>s'. del s (Suc i) = Ret s' \<and> wf s' \<and> items s' = remove_nth i (items s)"
    and bounded: "wf s \<Longrightarrow> length (items s) \<le> capacity"
    and fresh_wf: "wf fresh"
    and fresh_items: "items fresh = []"
    and capacity_pos: "0 < capacity"
begin

lemma find_found:
  assumes "wf s" and "x \<in> set (items s)" and "P x"
  shows "\<exists>i < length (items s). find P s = Ret (Suc i) \<and> P (items s ! i)"
proof -
  have "first_index P (items s) < length (items s)"
    using assms(2,3) by (auto simp: first_index_less_iff)
  then show ?thesis
    using find_law [OF assms(1), of P] first_index_holds by blast
qed

lemma add_then_del:
  assumes "wf s" and "length (items s) < capacity"
  shows "\<exists>s' s''. add s v = Ret s' \<and> del s' (Suc (length (items s))) = Ret s'' \<and>
    wf s'' \<and> items s'' = items s"
proof -
  obtain s' where s': "add s v = Ret s'" "wf s'" "items s' = items s @ [v]"
    using add_law [OF assms] by blast
  moreover obtain s'' where "del s' (Suc (length (items s))) = Ret s''" "wf s''"
      "items s'' = remove_nth (length (items s)) (items s @ [v])"
    using del_law [OF s'(2), of "length (items s)"] s'(3) by auto
  ultimately show ?thesis by auto
qed

end

interpretation arr: word_store wf_arr entries LIST_MAX_ENTRIES
  "\<lambda>P a. find_from P a 1" push del_at empty_arr
proof unfold_locales
  fix s :: carray and i v P
  assume wf: "wf_arr s"
  show "find_from P s 1 = Ret (Suc (first_index P (entries s)))"
    using wf by (simp add: find_from_Ret)
  show "length (entries s) \<le> LIST_MAX_ENTRIES"
    using wf by (simp add: wf_arr_def)
  show "\<exists>s'. push s v = Ret s' \<and> wf_arr s' \<and> entries s' = entries s @ [v]"
    if "length (entries s) < LIST_MAX_ENTRIES"
    using push_entries [OF wf] that wf by simp
  show "\<exists>s'. del_at s (Suc i) = Ret s' \<and> wf_arr s' \<and> entries s' = remove_nth i (entries s)"
    if "i < length (entries s)"
    using del_at_entries [OF wf, of "Suc i"] that wf by simp
qed (simp_all add: arr_consts)

end
