(* ===== verification/Labels.thy ===== *)
theory Labels
  imports Counted_Array
begin

text \<open>
  Labels of \<^verbatim>\<open>security/difc.c\<close>: \<open>struct label_struct\<close> (a secrecy list and an
  integrity list), the flow check \<open>check_allowed\<close>, and the list updates \<open>add_label\<close> and
  \<open>remove_label\<close>. The lemmas identify the loops over the raw arrays with
  inclusion of the label sets the arrays stand for.
\<close>

type_synonym label_t = u64

record label_struct =
  secList :: carray
  intList :: carray

definition LABEL_TCB :: label_t where "LABEL_TCB = 0"

definition LABEL_OP_ADD :: int where "LABEL_OP_ADD = 0"
definition LABEL_OP_REMOVE :: int where "LABEL_OP_REMOVE = 1"
definition LABEL_OP_REPLACE :: int where "LABEL_OP_REPLACE = 2"

definition LABEL_TYPE_SEC :: int where "LABEL_TYPE_SEC = 0"
definition LABEL_TYPE_INT :: int where "LABEL_TYPE_INT = 1"

section \<open>The flow check\<close>

text \<open>
  One direction of \<open>check_allowed\<close>: every label of \<open>a\<close> from position \<open>idx\<close> on is
  searched in the other structure's list, which is read through its pointer.
\<close>

function subset_loop :: "carray \<Rightarrow> carray option \<Rightarrow> nat \<Rightarrow> bool outcome" where
  "subset_loop a b idx =
     (if idx \<le> cnt a
      then bindO (rd a idx) (\<lambda>l.
           bindO (deref b) (\<lambda>d.
           bindO (find_from (\<lambda>x. l = x) d 1) (\<lambda>j.
             if j \<le> cnt d then subset_loop a b (Suc idx) else Ret False)))
      else Ret True)"
  by pat_completeness auto
termination
  by (relation "measure (\<lambda>(a, b, idx). Suc (cnt a) - idx)") auto

declare subset_loop.simps [simp del]

text \<open>A null \<open>struct label_struct\<close> pointer is \<open>None\<close>.\<close>

definition check_allowed :: "label_struct option \<Rightarrow> label_struct option \<Rightarrow> errno outcome" where
  "check_allowed src dest =
     bindO (case src of None \<Rightarrow> Ret True
            | Some s \<Rightarrow> subset_loop (secList s) (map_option secList dest) 1) (\<lambda>sec_ok.
     if \<not> sec_ok then Ret (- EPERM)
     else bindO (case dest of None \<Rightarrow> Ret True
            | Some d \<Rightarrow> subset_loop (intList d) (map_option intList src) 1) (\<lambda>int_ok.
     if \<not> int_ok then Ret (- EPERM) else Ret 0))"

section \<open>Adding and removing one label\<close>

definition pick_list :: "label_struct \<Rightarrow> int \<Rightarrow> carray option" where
  "pick_list lbl label_type =
     (if label_type = LABEL_TYPE_SEC then Some (secList lbl)
      else if label_type = LABEL_TYPE_INT then Some (intList lbl) else None)"

definition put_list :: "label_struct \<Rightarrow> int \<Rightarrow> carray \<Rightarrow> label_struct" where
  "put_list lbl label_type a =
     (if label_type = LABEL_TYPE_SEC then lbl\<lparr>secList := a\<rparr> else lbl\<lparr>intList := a\<rparr>)"

definition add_label :: "label_struct \<Rightarrow> label_t \<Rightarrow> int \<Rightarrow> (label_struct \<times> errno) outcome" where
  "add_label lbl label label_type =
     (case pick_list lbl label_type of
        None \<Rightarrow> Ret (lbl, - EINVAL)
      | Some list \<Rightarrow>
          bindO (find_from (\<lambda>l. label = l) list 1) (\<lambda>idx.
          if idx \<le> cnt list then Ret (lbl, - EEXIST)
          else if cnt list = LIST_MAX_ENTRIES then Ret (lbl, - ENOMEM)
          else bindO (push list label) (\<lambda>list'. Ret (put_list lbl label_type list', 0))))"

definition remove_label :: "label_struct \<Rightarrow> label_t \<Rightarrow> int \<Rightarrow> (label_struct \<times> errno) outcome" where
  "remove_label lbl label label_type =
     (case pick_list lbl label_type of
        None \<Rightarrow> Ret (lbl, - EINVAL)
      | Some list \<Rightarrow>
          bindO (find_from (\<lambda>l. label = l) list 1) (\<lambda>idx.
          if idx > cnt list then Ret (lbl, - ENOENT)
          else bindO (del_at list idx) (\<lambda>list'. Ret (put_list lbl label_type list', 0))))"

section \<open>Label sets\<close>

definition wf_label :: "label_struct \<Rightarrow> bool" where
  "wf_label ls \<longleftrightarrow> wf_arr (secList ls) \<and> wf_arr (intList ls)"

definition sized_label :: "label_struct \<Rightarrow> bool" where
  "sized_label ls \<longleftrightarrow> sized (secList ls) \<and> sized (intList ls)"

definition secs :: "label_struct \<Rightarrow> label_t set" where
  "secs ls = set (entries (secList ls))"

definition ints :: "label_struct \<Rightarrow> label_t set" where
  "ints ls = set (entries (intList ls))"

text \<open>Information may flow from \<open>s\<close> to \<open>d\<close>.\<close>

definition can_flow :: "label_struct \<Rightarrow> label_struct \<Rightarrow> bool" where
  "can_flow s d \<longleftrightarrow> secs s \<subseteq> secs d \<and> ints d \<subseteq> ints s"

definition empty_label :: label_struct where
  "empty_label = \<lparr>secList = empty_arr, intList = empty_arr\<rparr>"

lemma wf_empty_label [simp]: "wf_label empty_label"
  by (simp add: wf_label_def empty_label_def)

lemma secs_empty_label [simp]: "secs empty_label = {}" and ints_empty_label [simp]: "ints empty_label = {}"
  by (simp_all add: secs_def ints_def empty_label_def)

definition mk_label :: "label_t list \<Rightarrow> label_t list \<Rightarrow> label_struct" where
  "mk_label ss is = \<lparr>secList = mk_arr ss, intList = mk_arr is\<rparr>"

lemma mk_label_sel [simp]: "secList (mk_label ss is) = mk_arr ss" "intList (mk_label ss is) = mk_arr is"
  by (simp_all add: mk_label_def)

lemma wf_mk_label [simp]: "length ss \<le> 31 \<Longrightarrow> length is \<le> 31 \<Longrightarrow> wf_label (mk_label ss is)"
  by (simp add: wf_label_def mk_label_def)

lemma secs_mk_label [simp]: "length ss \<le> 31 \<Longrightarrow> secs (mk_label ss is) = set ss"
  by (simp add: secs_def mk_label_def)

lemma ints_mk_label [simp]: "length is \<le> 31 \<Longrightarrow> ints (mk_label ss is) = set is"
  by (simp add: ints_def mk_label_def)

lemma wf_labelD [dest]: "wf_label ls \<Longrightarrow> wf_arr (secList ls)" "wf_label ls \<Longrightarrow> wf_arr (intList ls)"
  by (simp_all add: wf_label_def)

lemma wf_label_sized: "wf_label ls \<Longrightarrow> sized_label ls"
  by (simp add: wf_label_def sized_label_def wf_arr_def)

lemma member_test:
  assumes "wf_arr d"
  shows "\<exists>j. find_from (\<lambda>x. l = x) d (Suc 0) = Ret j \<and> (j \<le> cnt d \<longleftrightarrow> l \<in> set (entries d))"
proof -
  have "Suc (first_index (\<lambda>x. l = x) (entries d)) \<le> cnt d \<longleftrightarrow> l \<in> set (entries d)"
    using first_index_less_iff [of "\<lambda>x. l = x" "entries d"] assms by (simp add: Suc_le_eq)
  then show ?thesis using find_from_Ret [OF assms] by blast
qed

lemma subset_loop_aux:
  assumes "wf_arr a" and "wf_arr d" and "n = Suc (cnt a) - idx" and "0 < idx" and "idx \<le> Suc (cnt a)"
  shows "subset_loop a (Some d) idx = Ret (set (drop (idx - 1) (entries a)) \<subseteq> set (entries d))"
  using assms(3-5)
proof (induction n arbitrary: idx)
  case 0
  then show ?case using assms(1) by (subst subset_loop.simps) simp
next
  case (Suc n)
  define i where "i = idx - 1"
  have idx: "idx = Suc i" "i < cnt a" using Suc.prems by (auto simp: i_def)
  have dr: "drop i (entries a) = entries a ! i # drop (Suc i) (entries a)"
    using idx assms(1) by (simp add: Cons_nth_drop_Suc)
  have rd: "rd a idx = Ret (entries a ! i)"
    using wf_arrD [OF assms(1)] idx assms(1) by (auto simp: rd_def entries_nth)
  obtain j where j: "find_from (\<lambda>x. entries a ! i = x) d (Suc 0) = Ret j"
    "j \<le> cnt d \<longleftrightarrow> entries a ! i \<in> set (entries d)"
    using member_test [OF assms(2)] by blast
  have IH: "subset_loop a (Some d) (Suc idx) = Ret (set (drop (Suc i) (entries a)) \<subseteq> set (entries d))"
    using Suc.IH [of "Suc idx"] Suc.prems idx by simp
  show ?case
    using idx rd j IH dr by (subst subset_loop.simps) auto
qed

lemma subset_loop_Ret [arr_simps]:
  "wf_arr a \<Longrightarrow> wf_arr d \<Longrightarrow> subset_loop a (Some d) (Suc 0) = Ret (set (entries a) \<subseteq> set (entries d))"
  using subset_loop_aux [of a d "cnt a" 1] by simp

lemma subset_loop_None:
  "wf_arr a \<Longrightarrow> subset_loop a None (Suc 0) = (if entries a = [] then Ret True else Oops NullDeref)"
  using wf_arrD [of a] by (subst subset_loop.simps) (auto simp: rd_def Suc_le_eq simp flip: cnt_eq_0_iff)

lemma check_allowed_Some:
  "wf_label s \<Longrightarrow> wf_label d \<Longrightarrow>
   check_allowed (Some s) (Some d) = Ret (if can_flow s d then 0 else - EPERM)"
  by (auto simp: check_allowed_def can_flow_def secs_def ints_def subset_loop_Ret wf_label_def)

lemma check_allowed_None_src:
  "wf_label d \<Longrightarrow> check_allowed None (Some d) = (if ints d = {} then Ret 0 else Oops NullDeref)"
  by (auto simp: check_allowed_def ints_def subset_loop_None wf_label_def)

lemma check_allowed_None_dest:
  "wf_label s \<Longrightarrow> check_allowed (Some s) None = (if secs s = {} then Ret 0 else Oops NullDeref)"
  by (auto simp: check_allowed_def secs_def subset_loop_None wf_label_def)

lemma can_flow_refl [simp]: "can_flow s s"
  by (simp add: can_flow_def)

lemma can_flow_trans: "can_flow a b \<Longrightarrow> can_flow b c \<Longrightarrow> can_flow a c"
  by (auto simp: can_flow_def)

section \<open>Effect of the updates\<close>

text \<open>The list an operation of a given type works on, as a list of labels.\<close>

definition list_of :: "label_struct \<Rightarrow> int \<Rightarrow> label_t list" where
  "list_of lbl ty = (if ty = LABEL_TYPE_SEC then entries (secList lbl) else entries (intList lbl))"

definition valid_type :: "int \<Rightarrow> bool" where
  "valid_type ty \<longleftrightarrow> ty = LABEL_TYPE_SEC \<or> ty = LABEL_TYPE_INT"

lemma pick_list_valid:
  assumes "wf_label lbl" and "valid_type ty"
  obtains l where "pick_list lbl ty = Some l" and "wf_arr l" and "entries l = list_of lbl ty"
  using assms by (auto simp: pick_list_def valid_type_def list_of_def wf_label_def
      LABEL_TYPE_SEC_def LABEL_TYPE_INT_def split: if_splits)

lemma pick_list_invalid: "\<not> valid_type ty \<Longrightarrow> pick_list lbl ty = None"
  by (simp add: pick_list_def valid_type_def)

lemma put_list_props:
  assumes "wf_label lbl" and "valid_type ty" and "wf_arr a"
  shows "wf_label (put_list lbl ty a)" and "list_of (put_list lbl ty a) ty = entries a"
    and "ty' \<noteq> ty \<Longrightarrow> valid_type ty' \<Longrightarrow> list_of (put_list lbl ty a) ty' = list_of lbl ty'"
  using assms by (auto simp: put_list_def wf_label_def list_of_def valid_type_def
      LABEL_TYPE_SEC_def LABEL_TYPE_INT_def)

lemma add_label_cases:
  assumes "wf_label lbl" and "valid_type ty"
  shows "add_label lbl x ty = Ret (lbl, - EEXIST) \<and> x \<in> set (list_of lbl ty) \<or>
    add_label lbl x ty = Ret (lbl, - ENOMEM) \<and> x \<notin> set (list_of lbl ty)
      \<and> length (list_of lbl ty) = LIST_MAX_ENTRIES \<or>
    (\<exists>lbl'. add_label lbl x ty = Ret (lbl', 0) \<and> wf_label lbl' \<and> x \<notin> set (list_of lbl ty)
      \<and> length (list_of lbl ty) < LIST_MAX_ENTRIES \<and> list_of lbl' ty = list_of lbl ty @ [x]
      \<and> (\<forall>ty'. ty' \<noteq> ty \<longrightarrow> valid_type ty' \<longrightarrow> list_of lbl' ty' = list_of lbl ty'))"
proof -
  obtain l where l: "pick_list lbl ty = Some l" "wf_arr l" "entries l = list_of lbl ty"
    using assms by (rule pick_list_valid)
  obtain j where j: "find_from (\<lambda>y. x = y) l (Suc 0) = Ret j" "j \<le> cnt l \<longleftrightarrow> x \<in> set (entries l)"
    using member_test [OF l(2)] by blast
  have len: "cnt l = length (list_of lbl ty)" using l by (metis length_entries)
  consider (dup) "x \<in> set (entries l)" | (full) "x \<notin> set (entries l)" "cnt l = LIST_MAX_ENTRIES"
    | (room) "x \<notin> set (entries l)" "cnt l < LIST_MAX_ENTRIES"
    using l(2) by (auto simp: wf_arr_def) (metis le_neq_implies_less)
  then show ?thesis
  proof cases
    case room
    obtain a where a: "push l x = Ret a" "wf_arr a" "entries a = entries l @ [x]"
      using push_entries [OF l(2) room(2)] by blast
    with room l j len put_list_props [OF assms a(2)] show ?thesis
      by (auto simp: add_label_def)
  qed (use l j len in \<open>auto simp: add_label_def\<close>)
qed

lemma remove_label_cases:
  assumes "wf_label lbl" and "valid_type ty"
  shows "remove_label lbl x ty = Ret (lbl, - ENOENT) \<and> x \<notin> set (list_of lbl ty) \<or>
    (\<exists>lbl'. remove_label lbl x ty = Ret (lbl', 0) \<and> wf_label lbl' \<and> x \<in> set (list_of lbl ty)
      \<and> list_of lbl' ty = remove_nth (first_index (\<lambda>y. x = y) (list_of lbl ty)) (list_of lbl ty)
      \<and> (\<forall>ty'. ty' \<noteq> ty \<longrightarrow> valid_type ty' \<longrightarrow> list_of lbl' ty' = list_of lbl ty'))"
proof -
  obtain l where l: "pick_list lbl ty = Some l" "wf_arr l" "entries l = list_of lbl ty"
    using assms by (rule pick_list_valid)
  let ?i = "first_index (\<lambda>y. x = y) (entries l)"
  have f: "find_from (\<lambda>y. x = y) l (Suc 0) = Ret (Suc ?i)" using l(2) by (rule find_from_Ret)
  have mem: "?i < cnt l \<longleftrightarrow> x \<in> set (entries l)"
    using first_index_less_iff [of "\<lambda>y. x = y" "entries l"] l(2) by simp
  show ?thesis
  proof (cases "x \<in> set (entries l)")
    case True
    then have i: "?i < cnt l" using mem by simp
    obtain a where a: "del_at l (Suc ?i) = Ret a" "wf_arr a" "entries a = remove_nth ?i (entries l)"
      using del_at_entries [OF l(2), of "Suc ?i"] i by auto
    with True l f i put_list_props [OF assms a(2)] show ?thesis
      by (auto simp: remove_label_def)
  next
    case False
    with mem l f show ?thesis by (auto simp: remove_label_def)
  qed
qed

lemma remove_appended: "x \<notin> set xs \<Longrightarrow> remove_nth (first_index (\<lambda>y. x = y) (xs @ [x])) (xs @ [x]) = xs"
  by (induction xs) auto

section \<open>Properties\<close>

text \<open>C1: On well-formed labels \<open>check_allowed\<close> decides exactly the flow relation of the
  module: it returns 0 when every secrecy label of the source is at the destination and
  every integrity label of the destination is at the source, and \<open>-EPERM\<close> otherwise; in
  particular it always returns.\<close>

theorem check_allowed_decides:
  assumes "wf_label s" and "wf_label d"
  shows "check_allowed (Some s) (Some d) = Ret (if secs s \<subseteq> secs d \<and> ints d \<subseteq> ints s then 0 else - EPERM)"
  using check_allowed_Some [OF assms] by (simp add: can_flow_def)

theorem check_allowed_decides_witness:
  "check_allowed (Some (mk_label [5] [7, 8])) (Some (mk_label [5, 6] [7])) = Ret 0 \<and>
   check_allowed (Some (mk_label [5, 6] [7])) (Some (mk_label [5] [7, 8])) = Ret (- EPERM)"
  using check_allowed_decides [of "mk_label [5] [7, 8]" "mk_label [5, 6] [7]"]
    check_allowed_decides [of "mk_label [5, 6] [7]" "mk_label [5] [7, 8]"]
  by simp

text \<open>Adding a label that is not present and then removing it is the identity on both lists: each
  call answers 0, and afterwards the secrecy and the integrity list hold the same labels in
  the same order as before.\<close>

lemma add_then_remove:
  assumes "wf_label lbl" and "valid_type ty" and "x \<notin> set (list_of lbl ty)"
    and "length (list_of lbl ty) < LIST_MAX_ENTRIES"
  shows "\<exists>l1 l2. add_label lbl x ty = Ret (l1, 0) \<and> x \<in> set (list_of l1 ty) \<and> remove_label l1 x ty = Ret (l2, 0)
    \<and> wf_label l2 \<and> list_of l2 LABEL_TYPE_SEC = list_of lbl LABEL_TYPE_SEC
    \<and> list_of l2 LABEL_TYPE_INT = list_of lbl LABEL_TYPE_INT"
proof -
  obtain l1 where a: "add_label lbl x ty = Ret (l1, 0)" "wf_label l1" "list_of l1 ty = list_of lbl ty @ [x]"
    "\<forall>ty'. ty' \<noteq> ty \<longrightarrow> valid_type ty' \<longrightarrow> list_of l1 ty' = list_of lbl ty'"
    using add_label_cases [OF assms(1,2), of x] assms(3,4) by auto
  obtain l2 where r: "remove_label l1 x ty = Ret (l2, 0)" "wf_label l2"
    "list_of l2 ty = remove_nth (first_index (\<lambda>y. x = y) (list_of l1 ty)) (list_of l1 ty)"
    "\<forall>ty'. ty' \<noteq> ty \<longrightarrow> valid_type ty' \<longrightarrow> list_of l2 ty' = list_of l1 ty'"
    using remove_label_cases [OF a(2) assms(2), of x] a(3) by auto
  have "list_of l2 ty = list_of lbl ty"
    unfolding r(3) a(3) using assms(3) by (rule remove_appended)
  with a r assms(2) show ?thesis
    by (auto simp: valid_type_def)
qed

lemma add_then_remove_example:
  "wf_label (mk_label [5] [7]) \<and> valid_type LABEL_TYPE_INT
   \<and> 9 \<notin> set (list_of (mk_label [5] [7]) LABEL_TYPE_INT)
   \<and> length (list_of (mk_label [5] [7]) LABEL_TYPE_INT) < LIST_MAX_ENTRIES
   \<and> (\<exists>l1 l2. add_label (mk_label [5] [7]) 9 LABEL_TYPE_INT = Ret (l1, 0) \<and> remove_label l1 9 LABEL_TYPE_INT = Ret (l2, 0)
        \<and> list_of l2 LABEL_TYPE_INT = [7])"
proof -
  have l: "list_of (mk_label [5] [7]) LABEL_TYPE_INT = [7]"
    by (simp add: list_of_def LABEL_TYPE_INT_def LABEL_TYPE_SEC_def LIST_MAX_ENTRIES_def)
  have w: "wf_label (mk_label [5] [7])" by (simp add: LIST_MAX_ENTRIES_def)
  show ?thesis
    using add_then_remove [of "mk_label [5] [7]" LABEL_TYPE_INT 9] l w
    by (auto simp: valid_type_def LIST_MAX_ENTRIES_def LIST_WORDS_def)
qed

end
