(* ===== verification/Xattr.thy ===== *)
theory Xattr
  imports Labels
begin

text \<open>
  The on-disk form of a label in \<^verbatim>\<open>security/difc.c\<close>: \<open>pack_difc_inode_xattr\<close> writes
  the used words of the secrecy list followed by those of the integrity list into a byte
  buffer, and \<open>unpack_difc_inode_xattr\<close> reads them back. Words are stored little-endian,
  \<open>size_t\<close> has 32 bits and \<open>char\<close> is signed, as on i386.
\<close>

section \<open>Words as bytes\<close>

primrec low_bytes :: "nat \<Rightarrow> u64 \<Rightarrow> u8 list" where
  "low_bytes 0 w = []"
| "low_bytes (Suc n) w = ucast w # low_bytes n (drop_bit 8 w)"

definition le_bytes :: "u64 \<Rightarrow> u8 list" where
  "le_bytes w = low_bytes 8 w"

primrec le_word :: "u8 list \<Rightarrow> u64" where
  "le_word [] = 0"
| "le_word (b # bs) = ucast b OR push_bit 8 (le_word bs)"

lemma le_bytes_Cons: "le_bytes w = ucast w # low_bytes 7 (drop_bit 8 w)"
proof -
  have "le_bytes w = low_bytes (Suc 7) w" by (simp add: le_bytes_def)
  then show ?thesis by (simp only: low_bytes.simps)
qed

lemma length_low_bytes [simp]: "length (low_bytes n w) = n"
  by (induction n arbitrary: w) auto

lemma length_le_bytes [simp]: "length (le_bytes w) = 8"
  by (simp add: le_bytes_def)

lemma low_byte_step:
  fixes w :: u64
  shows "ucast (ucast w :: u8) OR push_bit 8 (take_bit n (drop_bit 8 w)) = take_bit (8 + n) w"
  by (rule bit_word_eqI) (auto simp: bit_simps)

lemma le_word_low_bytes: "le_word (low_bytes n w) = take_bit (8 * n) w"
  by (induction n arbitrary: w) (simp_all add: low_byte_step)

lemma le_word_le_bytes [simp]: "le_word (le_bytes w) = w"
  by (simp add: le_bytes_def le_word_low_bytes take_bit_word_eq_self)

section \<open>Packing and unpacking\<close>

definition arr_bytes :: "u64 list \<Rightarrow> u8 list" where
  "arr_bytes ws = concat (map le_bytes ws)"

text \<open>\<open>memcpy\<close> of \<open>n\<close> bytes out of an array, and into one.\<close>

definition memcpy_out :: "carray \<Rightarrow> u32 \<Rightarrow> u8 list outcome" where
  "memcpy_out a n =
     (if unat n \<le> 8 * length a then Ret (take (unat n) (arr_bytes a)) else Oops OutOfBounds)"

definition word_at :: "u8 list \<Rightarrow> nat \<Rightarrow> u64 outcome" where
  "word_at buf i =
     (if 8 * i + 8 \<le> length buf then Ret (le_word (take 8 (drop (8 * i) buf)))
      else Oops OutOfBounds)"

definition memcpy_in :: "carray \<Rightarrow> u8 list \<Rightarrow> u32 \<Rightarrow> carray outcome" where
  "memcpy_in a buf n =
     (if unat n \<le> length buf \<and> unat n \<le> 8 * length a
      then Ret (map (\<lambda>i. le_word (take 8 (drop (8 * i) buf))) [0..<unat n div 8]
                @ drop (unat n div 8) a)
      else Oops OutOfBounds)"

text \<open>
  The destination buffer has \<open>len\<close> bytes; the result is the returned size (or error) and
  the bytes written. The size test rejects a buffer larger than the encoding and lets a
  smaller one through, whose end the copies then overrun.
\<close>

definition pack_difc_inode_xattr :: "u32 \<Rightarrow> label_struct \<Rightarrow> (errno \<times> u8 list) outcome" where
  "pack_difc_inode_xattr len isec =
     bindO (rd (secList isec) 0) (\<lambda>s.
     bindO (rd (intList isec) 0) (\<lambda>t.
     let rv = ucast (s + t + 2) * 8 in
     if rv < len then Ret (- ERANGE, [])
     else let offset = ucast ((s + 1) * 8) in
       if len < rv \<or> len < offset then Oops OutOfBounds
       else bindO (memcpy_out (secList isec) offset) (\<lambda>b1.
            bindO (memcpy_out (intList isec) (rv - offset)) (\<lambda>b2.
            Ret (int (unat rv), b1 @ b2)))))"

text \<open>Both copies start at \<open>buf\<close> and take their size from its first \<open>char\<close>.\<close>

definition unpack_difc_inode_xattr :: "u8 list \<Rightarrow> label_struct \<Rightarrow> (label_struct \<times> errno) outcome" where
  "unpack_difc_inode_xattr buf isec =
     bindO (word_at buf 0) (\<lambda>w0.
     if of_nat (length buf) < w0 + 1 then Oops BugOn
     else let n = (scast (buf ! 0) + 1) * 8 in
       bindO (memcpy_in (secList isec) buf n) (\<lambda>sl.
       let curbound = ucast (w0 + 1) :: u32 in
       bindO (word_at buf (unat (w0 + 1))) (\<lambda>w1.
       if of_nat (length buf) < w1 + 1 + ucast curbound then Oops BugOn
       else bindO (memcpy_in (intList isec) buf n) (\<lambda>il.
         Ret (isec\<lparr>secList := sl, intList := il\<rparr>, 0)))))"

section \<open>The hooks\<close>

definition XATTR_DIFC_SUFFIX :: string where "XATTR_DIFC_SUFFIX = ''difc''"
definition XATTR_NAME_DIFC :: string where "XATTR_NAME_DIFC = ''security.'' @ XATTR_DIFC_SUFFIX"

text \<open>\<open>isec\<close> is the label of the inode's security structure, \<open>None\<close> for a null pointer.\<close>

definition difc_inode_getsecurity ::
  "label_struct option \<Rightarrow> string \<Rightarrow> u32 \<Rightarrow> (errno \<times> u8 list) outcome" where
  "difc_inode_getsecurity isec name sz =
     (if name \<noteq> XATTR_DIFC_SUFFIX then Ret (- EOPNOTSUPP, [])
      else bindO (deref isec) (pack_difc_inode_xattr sz))"

definition difc_inode_setsecurity ::
  "label_struct option \<Rightarrow> string \<Rightarrow> u8 list option \<Rightarrow> (label_struct option \<times> errno) outcome" where
  "difc_inode_setsecurity isec name val =
     (case isec of None \<Rightarrow> Ret (None, - EOPNOTSUPP)
      | Some lbl \<Rightarrow>
          if name \<noteq> XATTR_DIFC_SUFFIX then Ret (isec, - EOPNOTSUPP)
          else case val of None \<Rightarrow> Ret (isec, - EACCES)
            | Some buf \<Rightarrow> if buf = [] then Ret (isec, - EACCES)
                else bindO (unpack_difc_inode_xattr buf lbl) (\<lambda>(lbl', rv). Ret (Some lbl', rv)))"

text \<open>The result is the returned length and what \<open>buffer\<close> receives, if anything.\<close>

definition difc_inode_listsecurity :: "bool \<Rightarrow> u32 \<Rightarrow> int \<times> string option" where
  "difc_inode_listsecurity buffer buffer_size =
     (let len = length XATTR_NAME_DIFC + 1 in
      (int len,
       if buffer \<and> of_nat len \<le> buffer_size then Some (XATTR_NAME_DIFC @ [CHR 0x00]) else None))"

section \<open>Lemmas\<close>

lemma length_arr_bytes [simp]: "length (arr_bytes ws) = 8 * length ws"
  by (induction ws) (auto simp: arr_bytes_def)

lemma arr_bytes_append: "arr_bytes (xs @ ys) = arr_bytes xs @ arr_bytes ys"
  by (simp add: arr_bytes_def)

lemma take_arr_bytes: "take (8 * k) (arr_bytes ws) = arr_bytes (take k ws)"
proof (induction ws arbitrary: k)
  case Nil
  then show ?case by (simp add: arr_bytes_def)
next
  case (Cons w ws)
  then show ?case by (cases k) (auto simp: arr_bytes_def)
qed

lemma chunk_arr_bytes: "i < length ws \<Longrightarrow> take 8 (drop (8 * i) (arr_bytes ws)) = le_bytes (ws ! i)"
proof (induction ws arbitrary: i)
  case Nil
  then show ?case by simp
next
  case (Cons w ws)
  then show ?case by (cases i) (auto simp: arr_bytes_def)
qed

lemma word_at_arr_bytes: "i < length ws \<Longrightarrow> word_at (arr_bytes ws) i = Ret (ws ! i)"
  by (simp add: word_at_def chunk_arr_bytes)

lemma memcpy_in_arr_bytes:
  assumes "unat n = 8 * k" and "k \<le> length ws" and "k \<le> length a"
  shows "memcpy_in a (arr_bytes ws) n = Ret (take k ws @ drop k a)"
proof -
  have "map (\<lambda>i. le_word (take 8 (drop (8 * i) (arr_bytes ws)))) [0..<k] = take k ws"
    using assms(2) by (intro nth_equalityI) (auto simp: chunk_arr_bytes)
  then show ?thesis using assms by (simp add: memcpy_in_def)
qed

text \<open>The words of an array that an encoding holds: the count and the entries.\<close>

definition used :: "carray \<Rightarrow> u64 list" where
  "used a = take (Suc (cnt a)) a"

lemma length_used [simp]: "wf_arr a \<Longrightarrow> length (used a) = Suc (cnt a)"
  by (auto simp: used_def dest: wf_arrD)

lemma used_nth0: "wf_arr a \<Longrightarrow> used a ! 0 = of_nat (cnt a)"
  by (simp add: used_def wf_arr_cntD)

lemma rd0: "wf_arr a \<Longrightarrow> rd a 0 = Ret (of_nat (cnt a))"
  by (auto simp: rd_def wf_arr_cntD dest: wf_arrD)

lemma ucast_small: "k < 1000 \<Longrightarrow> (ucast (of_nat k :: u64) :: u32) = of_nat k"
  by (simp add: unsigned_of_nat take_bit_nat_eq_self)

lemma ucast_small_up: "k < 1000 \<Longrightarrow> (ucast (of_nat k :: u32) :: u64) = of_nat k"
  by (simp add: unsigned_of_nat take_bit_nat_eq_self)

lemma unat_small: "k < 1000 \<Longrightarrow> unat (of_nat k :: u32) = k"
  by (simp add: unat_of_nat)

lemma unat_small64: "k < 1000 \<Longrightarrow> unat (of_nat k :: u64) = k"
  by (simp add: unat_of_nat)

lemma memcpy_out_used:
  assumes "wf_arr a"
  shows "memcpy_out a (of_nat (8 * Suc (cnt a))) = Ret (arr_bytes (used a))"
proof -
  have "unat (of_nat (8 * Suc (cnt a)) :: u32) = 8 * Suc (cnt a)"
    using wf_arrD [OF assms] by (intro unat_small) auto
  then show ?thesis
    using wf_arrD [OF assms] take_arr_bytes [of "Suc (cnt a)" a] by (simp add: memcpy_out_def used_def)
qed

lemma pack_spec:
  assumes "wf_label ls" and n: "n = 8 * (cnt (secList ls) + cnt (intList ls) + 2)"
  shows "pack_difc_inode_xattr len ls =
    (if n < unat len then Ret (- ERANGE, [])
     else if unat len < n then Oops OutOfBounds
     else Ret (int n, arr_bytes (used (secList ls) @ used (intList ls))))"
proof -
  let ?S = "cnt (secList ls)" and ?T = "cnt (intList ls)"
  have wf: "wf_arr (secList ls)" "wf_arr (intList ls)" using assms(1) by auto
  have b: "?S \<le> 31" "?T \<le> 31" using wf wf_arrD by auto
  have rv: "ucast (of_nat ?S + of_nat ?T + 2 :: u64) * 8 = (of_nat n :: u32)"
    using ucast_small [of "?S + ?T + 2"] b by (simp add: n algebra_simps)
  have off: "ucast ((of_nat ?S + 1) * 8 :: u64) = (of_nat (8 * Suc ?S) :: u32)"
    using ucast_small [of "8 * Suc ?S"] b by (simp add: algebra_simps)
  have diff: "of_nat n - of_nat (8 * Suc ?S) = (of_nat (8 * Suc ?T) :: u32)"
    by (simp add: n algebra_simps)
  have un: "unat (of_nat n :: u32) = n" "unat (of_nat (8 * Suc ?S) :: u32) = 8 * Suc ?S"
    by (rule unat_small, use b n in simp)+
  have lt: "(of_nat n < len) = (n < unat len)" "(len < of_nat n) = (unat len < n)"
      "(len < of_nat (8 * Suc ?S)) = (unat len < 8 * Suc ?S)"
    by (simp_all only: word_less_nat_alt un)
  have "\<not> unat len < n \<Longrightarrow> \<not> unat len < 8 * Suc ?S" using n by simp
  then show ?thesis
    unfolding pack_difc_inode_xattr_def rd0 [OF wf(1)] rd0 [OF wf(2)] bindO.simps Let_def rv off diff
      lt memcpy_out_used [OF wf(1)] memcpy_out_used [OF wf(2)] un
    by (simp add: arr_bytes_append)
qed

lemma first_byte:
  assumes "k \<le> 31"
  shows "(scast (arr_bytes (of_nat k # ws) ! 0) + 1) * 8 = (of_nat (8 * Suc k) :: u32)"
proof -
  have "arr_bytes (of_nat k # ws) ! 0 = (of_nat k :: u8)"
    using assms by (simp add: arr_bytes_def le_bytes_Cons unsigned_of_nat take_bit_nat_eq_self)
  moreover have "scast (of_nat k :: u8) = (of_nat k :: u32)"
    using assms by (simp add: signed_of_nat signed_take_bit_int_eq_self)
  ultimately show ?thesis by (simp add: algebra_simps)
qed

lemma overlay_used:
  assumes "wf_arr a" and "sized b"
  shows "wf_arr (used a @ drop (Suc (cnt a)) b)" and "entries (used a @ drop (Suc (cnt a)) b) = entries a"
proof -
  from assms(1) obtain c es where a: "a = c # es" "length es = 31" "unat c \<le> 31" "cnt a = unat c"
    by (rule wf_arr_ConsE)
  let ?r = "used a @ drop (Suc (cnt a)) b"
  have len: "length ?r = 32" using assms wf_arrD [OF assms(1)] by (simp add: sized_def arr_consts)
  have r: "?r = c # take (unat c) es @ drop (Suc (unat c)) b" using a by (simp add: used_def)
  then have cnt: "cnt ?r = unat c" by (simp add: cnt_def)
  show "wf_arr ?r" using len cnt a by (simp add: wf_arr_def sized_def arr_consts)
  show "entries ?r = entries a" using cnt r a by (simp add: entries_def)
qed

lemma unpack_packed:
  assumes "wf_label ls" and "sized_label isec"
  shows "unpack_difc_inode_xattr (arr_bytes (used (secList ls) @ used (intList ls))) isec =
    Ret (isec\<lparr>secList := used (secList ls) @ drop (Suc (cnt (secList ls))) (secList isec),
              intList := used (secList ls) @ drop (Suc (cnt (secList ls))) (intList isec)\<rparr>, 0)"
proof -
  let ?S = "cnt (secList ls)" and ?T = "cnt (intList ls)"
  let ?ws = "used (secList ls) @ used (intList ls)" and ?n = "of_nat (8 * Suc ?S) :: u32"
  have wf: "wf_arr (secList ls)" "wf_arr (intList ls)" using assms(1) by auto
  have b: "?S \<le> 31" "?T \<le> 31" using wf wf_arrD by auto
  have len: "length ?ws = ?S + ?T + 2" using wf by simp
  have ws0: "?ws ! 0 = of_nat ?S" and wsT: "?ws ! Suc ?S = of_nat ?T"
    using wf used_nth0 by (simp_all add: nth_append)
  have w0: "word_at (arr_bytes ?ws) 0 = Ret (of_nat ?S)"
    using word_at_arr_bytes [of 0 ?ws] by (simp only: len ws0)
  have S1: "unat (of_nat ?S + 1 :: u64) = Suc ?S"
    using b unat_succ [of "of_nat ?S"] by (simp add: unat_of_nat)
  have w1: "word_at (arr_bytes ?ws) (unat (of_nat ?S + 1 :: u64)) = Ret (of_nat ?T)"
    using word_at_arr_bytes [of "Suc ?S" ?ws] by (simp only: len wsT S1)
  have "used (secList ls) = of_nat ?S # tl (used (secList ls))"
    using used_nth0 [OF wf(1)] length_used [OF wf(1)] by (cases "used (secList ls)") auto
  then have n: "(scast (arr_bytes ?ws ! 0) + 1) * 8 = ?n"
    using first_byte [OF b(1), of "tl ?ws"] by (metis append_Cons list.sel(3))
  have m: "memcpy_in a (arr_bytes ?ws) ?n = Ret (used (secList ls) @ drop (Suc ?S) a)" if "sized a" for a
  proof -
    have "unat ?n = 8 * Suc ?S" by (rule unat_small) (use b in simp)
    then show ?thesis
      using that len b memcpy_in_arr_bytes [of ?n "Suc ?S" ?ws a] length_used [OF wf(1)]
      by (simp add: sized_def arr_consts)
  qed
  have l: "unat (of_nat (length (arr_bytes ?ws)) :: u64) = 8 * (?S + ?T + 2)"
    using b len by (simp only: length_arr_bytes) (rule unat_small64, simp)
  have g1: "\<not> of_nat (length (arr_bytes ?ws)) < (of_nat ?S + 1 :: u64)"
    by (simp only: word_less_nat_alt l S1) simp
  have g2: "\<not> of_nat (length (arr_bytes ?ws)) < (of_nat ?T + 1 + ucast (ucast (of_nat ?S + 1 :: u64) :: u32) :: u64)"
  proof -
    have s1: "(of_nat ?S + 1 :: u64) = of_nat (Suc ?S)" by simp
    have small: "Suc ?S < 1000" using b by simp
    have u: "ucast (ucast (of_nat ?S + 1 :: u64) :: u32) = (of_nat (Suc ?S) :: u64)"
      unfolding s1 ucast_small [OF small] by (rule ucast_small_up [OF small])
    have t1: "(of_nat ?T + 1 + of_nat (Suc ?S) :: u64) = of_nat (?T + 1 + Suc ?S)" by simp
    have "unat (of_nat ?T + 1 + of_nat (Suc ?S) :: u64) = ?T + 1 + Suc ?S"
      unfolding t1 by (rule unat_small64) (use b in simp)
    then show ?thesis by (simp only: word_less_nat_alt l u) simp
  qed
  have sz: "sized (secList isec)" "sized (intList isec)" using assms(2) by (auto simp: sized_label_def)
  show ?thesis
    unfolding unpack_difc_inode_xattr_def Let_def w0 w1 bindO.simps n m [OF sz(1)] m [OF sz(2)]
    using g1 g2 by simp
qed

section \<open>Properties\<close>

text \<open>C37: The label of a well-formed inode written out by \<open>difc_inode_getsecurity\<close> into a buffer
  of the right size and read back by \<open>difc_inode_setsecurity\<close> into any inode comes back with the
  same secrecy list, and with the secrecy list in place of the integrity list: both copies of
  \<open>unpack_difc_inode_xattr\<close> read from the start of the buffer, so the integrity labels are lost.\<close>

theorem xattr_round_trip:
  assumes "wf_label ls" and "sized_label isec"
    and "sz = of_nat (8 * (length (entries (secList ls)) + length (entries (intList ls)) + 2))"
  shows "\<exists>buf isec'. difc_inode_getsecurity (Some ls) XATTR_DIFC_SUFFIX sz = Ret (int (length buf), buf)
    \<and> difc_inode_setsecurity (Some isec) XATTR_DIFC_SUFFIX (Some buf) = Ret (Some isec', 0)
    \<and> wf_label isec'
    \<and> entries (secList isec') = entries (secList ls)
    \<and> entries (intList isec') = entries (secList ls)"
proof -
  have wf: "wf_arr (secList ls)" "wf_arr (intList ls)" using assms(1) by auto
  let ?n = "8 * (cnt (secList ls) + cnt (intList ls) + 2)"
  let ?buf = "arr_bytes (used (secList ls) @ used (intList ls))"
  let ?up = "\<lambda>a. used (secList ls) @ drop (Suc (cnt (secList ls))) a"
  let ?isec' = "isec\<lparr>secList := ?up (secList isec), intList := ?up (intList isec)\<rparr>"
  have "unat sz = ?n"
    unfolding assms(3) length_entries [OF wf(1)] length_entries [OF wf(2)]
    by (rule unat_small) (use wf_arrD [OF wf(1)] wf_arrD [OF wf(2)] in simp)
  then have get: "difc_inode_getsecurity (Some ls) XATTR_DIFC_SUFFIX sz = Ret (int (length ?buf), ?buf)"
    using pack_spec [OF assms(1) refl, of sz] wf by (simp add: difc_inode_getsecurity_def)
  have "length ?buf \<noteq> 0" using wf by simp
  then have "?buf \<noteq> []" by (metis list.size(3))
  moreover have "sized (secList isec)" "sized (intList isec)"
    using assms(2) by (auto simp: sized_label_def)
  ultimately show ?thesis
    using get unpack_packed [OF assms(1,2)] overlay_used [OF wf(1)]
    by (intro exI [of _ ?buf] exI [of _ ?isec'] conjI) (auto simp: difc_inode_setsecurity_def wf_label_def)
qed

theorem xattr_round_trip_witness:
  "\<exists>buf isec'. difc_inode_getsecurity (Some (mk_label [5] [7, 8])) XATTR_DIFC_SUFFIX 40 = Ret (int (length buf), buf)
    \<and> difc_inode_setsecurity (Some empty_label) XATTR_DIFC_SUFFIX (Some buf) = Ret (Some isec', 0)
    \<and> entries (secList isec') = [5] \<and> entries (intList isec') = [5]"
proof -
  have "sized_label empty_label" by (rule wf_label_sized) simp
  then show ?thesis
    using xattr_round_trip [of "mk_label [5] [7, 8]" empty_label 40]
    by auto
qed

text \<open>\<open>pack_difc_inode_xattr\<close> on a well-formed label, for every buffer size: a buffer larger than
  the encoding is refused with \<open>-ERANGE\<close>, a smaller one is overrun, and only a buffer of exactly
  the encoding's size is filled.\<close>

lemma pack_difc_inode_xattr_sizes:
  assumes "wf_label ls" and "n = 8 * (length (entries (secList ls)) + length (entries (intList ls)) + 2)"
  shows "pack_difc_inode_xattr len ls =
    (if n < unat len then Ret (- ERANGE, [])
     else if unat len < n then Oops OutOfBounds
     else Ret (int n, arr_bytes (used (secList ls) @ used (intList ls))))"
  using pack_spec [OF assms(1), of n len] assms wf_labelD [OF assms(1)] by simp

lemma pack_difc_inode_xattr_sizes_example:
  "pack_difc_inode_xattr 64 (mk_label [5] []) = Ret (- ERANGE, []) \<and>
   pack_difc_inode_xattr 8 (mk_label [5] []) = Oops OutOfBounds"
  using pack_difc_inode_xattr_sizes [of "mk_label [5] []" 24 64]
    pack_difc_inode_xattr_sizes [of "mk_label [5] []" 24 8]
  by simp

end
