(* ===== verification/Caps.thy ===== *)
theory Caps
  imports Labels
begin

text \<open>
  Capabilities of \<^verbatim>\<open>security/difc.c\<close>: a task's capability list and suspend list are
  linked lists of segments, each a counted array of 64-bit capabilities; a capability is a
  30-bit label with a plus and a minus bit. Modelled here are the search
  \<open>task_find_capability\<close>, the insertion into the first segment with room (the tail of
  \<open>__difc_alloc_label\<close> and of the three capability system calls), the loop that takes a
  capability out of a list, and the system calls \<open>difc_drop_capabilities\<close>,
  \<open>difc_resume_capabilities\<close> and \<open>difc_send_capabilities\<close> built from them. The lemmas say
  which authority (label and polarity) a list confers and that no call creates authority
  from label-only arguments.
\<close>

type_synonym capability_t = u64

text \<open>\<open>struct cap_segment\<close>: the array; the \<open>list_head\<close> is the HOL list of segments.\<close>

type_synonym cap_segment = carray

text \<open>
  The masks as they act on a \<open>capability_t\<close>: \<open>1<<31\<close> is a negative \<open>int\<close> and widens to
  64 bits with its sign, so the minus mask covers bits 31 to 63.
\<close>

definition CAP_PLUS_MASK :: u64 where "CAP_PLUS_MASK = 0x40000000"
definition CAP_MINUS_MASK :: u64 where "CAP_MINUS_MASK = 0xFFFFFFFF80000000"
definition CAP_LABEL_MASK :: u64 where "CAP_LABEL_MASK = 0x3FFFFFFF"
definition CAP_START_VAL :: u32 where "CAP_START_VAL = 1"

text \<open>The same masks as \<open>int\<close>, tested against the \<open>type\<close> argument of the system calls.\<close>

definition TYPE_PLUS :: u32 where "TYPE_PLUS = 0x40000000"
definition TYPE_MINUS :: u32 where "TYPE_MINUS = 0x80000000"

definition CAP_OP_FLAG_PERMANENT :: int where "CAP_OP_FLAG_PERMANENT = 0"
definition CAP_OP_FLAG_TEMPORARY :: int where "CAP_OP_FLAG_TEMPORARY = 1"

record task_security_struct =
  label :: label_struct
  capList :: "cap_segment list"
  capSuspendList :: "cap_segment list"
  tcb :: int

section \<open>Search and insertion\<close>

primrec task_find_capability :: "cap_segment list \<Rightarrow> label_t \<Rightarrow> capability_t outcome" where
  "task_find_capability [] lbl = Ret 0"
| "task_find_capability (n # segs) lbl =
     bindO (find_from (\<lambda>cap. (cap AND CAP_LABEL_MASK) = lbl) n 1) (\<lambda>idx.
     if idx \<le> cnt n then rd n idx else task_find_capability segs lbl)"

text \<open>
  The first segment with room takes the capability; if there is none a new segment is
  allocated and linked at the tail. The result of the allocation is not tested.
\<close>

primrec insert_cap :: "bool \<Rightarrow> cap_segment list \<Rightarrow> capability_t \<Rightarrow> cap_segment list outcome" where
  "insert_cap alloc_ok [] c =
     (if alloc_ok then bindO (push empty_arr c) (\<lambda>n. Ret [n]) else Oops NullDeref)"
| "insert_cap alloc_ok (n # segs) c =
     (if cnt n < LIST_MAX_ENTRIES then bindO (push n c) (\<lambda>n'. Ret (n' # segs))
      else bindO (insert_cap alloc_ok segs c) (\<lambda>segs'. Ret (n # segs')))"

section \<open>Taking a capability out of a list\<close>

text \<open>
  The body run for the entry \<open>l\<close> found at \<open>idx\<close>: the requested bits are moved from the
  local copy \<open>l\<close> into \<open>tmp\<close>, and the entry is deleted once the copy has neither bit left.
  The local copy is never stored back.
\<close>

definition drop_entry ::
  "u32 \<Rightarrow> cap_segment \<Rightarrow> nat \<Rightarrow> capability_t \<Rightarrow> capability_t \<Rightarrow> errno \<Rightarrow>
   (cap_segment \<times> capability_t \<times> errno) outcome" where
  "drop_entry type n idx l tmp rv =
     (let (l1, tmp1, rv1, done1) =
        (if type AND TYPE_PLUS \<noteq> 0 then
           if l AND CAP_PLUS_MASK \<noteq> 0 then
             (l XOR CAP_PLUS_MASK, tmp OR CAP_PLUS_MASK, rv,
              (l XOR CAP_PLUS_MASK) AND CAP_MINUS_MASK = 0)
           else (l, tmp, - ENOENT, False)
         else (l, tmp, rv, False)) in
      if done1 then bindO (del_at n idx) (\<lambda>n'. Ret (n', tmp1, rv1))
      else let (l2, tmp2, rv2, done2) =
        (if type AND TYPE_MINUS \<noteq> 0 then
           if l1 AND CAP_MINUS_MASK \<noteq> 0 then
             (l1 XOR CAP_MINUS_MASK, tmp1 OR CAP_MINUS_MASK, rv1,
              (l1 XOR CAP_MINUS_MASK) AND CAP_PLUS_MASK = 0)
           else (l1, tmp1, - ENOENT, False)
         else (l1, tmp1, rv1, False)) in
      if done2 then bindO (del_at n idx) (\<lambda>n'. Ret (n', tmp2, rv2))
      else Ret (n, tmp2, rv2))"

text \<open>
  \<open>list_for_each_cap\<close> is two nested loops and the \<open>break\<close> after a match leaves only the
  inner one, so the segments after the matching one are searched too, for the value
  \<open>tmp\<close> has then.
\<close>

primrec extract_cap ::
  "u32 \<Rightarrow> cap_segment list \<Rightarrow> capability_t \<Rightarrow> bool \<Rightarrow> errno \<Rightarrow>
   (cap_segment list \<times> capability_t \<times> bool \<times> errno) outcome" where
  "extract_cap type [] tmp ok rv = Ret ([], tmp, ok, rv)"
| "extract_cap type (n # segs) tmp ok rv =
     bindO (find_from (\<lambda>l. tmp = (l AND CAP_LABEL_MASK)) n 1) (\<lambda>idx.
     if idx \<le> cnt n then
       bindO (rd n idx) (\<lambda>l.
       bindO (drop_entry type n idx l tmp rv) (\<lambda>(n', tmp', rv').
       bindO (extract_cap type segs tmp' True rv') (\<lambda>(segs', r). Ret (n' # segs', r))))
     else bindO (extract_cap type segs tmp ok rv) (\<lambda>(segs', r). Ret (n # segs', r)))"

section \<open>The system calls\<close>

text \<open>
  \<open>kmalloc(sizeof(capability_t) * len)\<close> and \<open>copy_from_user\<close>. The byte count wraps at 32
  bits; \<open>ubuf\<close> is the readable user memory at \<open>buf\<close> in words. \<open>None\<close> stands for both
  failures, which return \<open>-ENOMEM\<close>.
\<close>

definition copy_caps :: "bool \<Rightarrow> u64 list \<Rightarrow> u32 \<Rightarrow> capability_t list option" where
  "copy_caps kmalloc_ok ubuf len =
     (let words = unat (8 * len) div 8 in
      if kmalloc_ok \<and> words \<le> length ubuf then Some (take words ubuf) else None)"

text \<open>\<open>capList[i]\<close> for \<open>i < len\<close>: past the words allocated the read is out of bounds.\<close>

definition loop_end :: "capability_t list \<Rightarrow> u32 \<Rightarrow> 'a \<Rightarrow> 'a outcome" where
  "loop_end cl len r = (if length cl < unat len then Oops OutOfBounds else Ret r)"

primrec drop_loop ::
  "u32 \<Rightarrow> int \<Rightarrow> (nat \<Rightarrow> bool) \<Rightarrow> nat \<Rightarrow> capability_t list \<Rightarrow> task_security_struct \<Rightarrow> errno \<Rightarrow>
   (task_security_struct \<times> errno) outcome" where
  "drop_loop type flag seg_ok i [] ts rv = Ret (ts, rv)"
| "drop_loop type flag seg_ok i (c # cs) ts rv =
     bindO (extract_cap type (capList ts) c False rv) (\<lambda>(segs, tmp, ok, rv1).
     let rv2 = (if ok then rv1 else - ENOENT); ts1 = ts\<lparr>capList := segs\<rparr> in
     if flag = CAP_OP_FLAG_TEMPORARY then
       bindO (insert_cap (seg_ok i) (capSuspendList ts1) tmp) (\<lambda>sus.
       drop_loop type flag seg_ok (Suc i) cs (ts1\<lparr>capSuspendList := sus\<rparr>) rv2)
     else drop_loop type flag seg_ok (Suc i) cs ts1 rv2)"

definition difc_drop_capabilities ::
  "bool \<Rightarrow> (nat \<Rightarrow> bool) \<Rightarrow> u64 list \<Rightarrow> u32 \<Rightarrow> u32 \<Rightarrow> int \<Rightarrow> task_security_struct option \<Rightarrow>
   (task_security_struct option \<times> errno) outcome" where
  "difc_drop_capabilities kmalloc_ok seg_ok ubuf len type flag sec =
     (case copy_caps kmalloc_ok ubuf len of
        None \<Rightarrow> Ret (sec, - ENOMEM)
      | Some cl \<Rightarrow>
          bindO (deref sec) (\<lambda>tsec.
          bindO (drop_loop type flag seg_ok 0 cl tsec 0) (\<lambda>(tsec', rv).
          loop_end cl len (Some tsec', rv))))"

primrec resume_loop ::
  "u32 \<Rightarrow> (nat \<Rightarrow> bool) \<Rightarrow> nat \<Rightarrow> capability_t list \<Rightarrow> task_security_struct \<Rightarrow> errno \<Rightarrow>
   (task_security_struct \<times> errno) outcome" where
  "resume_loop type seg_ok i [] ts rv = Ret (ts, rv)"
| "resume_loop type seg_ok i (c # cs) ts rv =
     bindO (extract_cap type (capSuspendList ts) c False rv) (\<lambda>(segs, tmp, ok, rv1).
     let rv2 = (if ok then rv1 else - ENOENT) in
     bindO (insert_cap (seg_ok i) (capList ts) tmp) (\<lambda>caps.
     resume_loop type seg_ok (Suc i) cs (ts\<lparr>capSuspendList := segs, capList := caps\<rparr>) rv2))"

definition difc_resume_capabilities ::
  "bool \<Rightarrow> (nat \<Rightarrow> bool) \<Rightarrow> u64 list \<Rightarrow> u32 \<Rightarrow> u32 \<Rightarrow> task_security_struct option \<Rightarrow>
   (task_security_struct option \<times> errno) outcome" where
  "difc_resume_capabilities kmalloc_ok seg_ok ubuf len type sec =
     (case copy_caps kmalloc_ok ubuf len of
        None \<Rightarrow> Ret (sec, - ENOMEM)
      | Some cl \<Rightarrow>
          bindO (deref sec) (\<lambda>tsec.
          bindO (resume_loop type seg_ok 0 cl tsec 0) (\<lambda>(tsec', rv).
          loop_end cl len (Some tsec', rv))))"

primrec send_loop ::
  "u32 \<Rightarrow> (nat \<Rightarrow> bool) \<Rightarrow> nat \<Rightarrow> capability_t list \<Rightarrow> task_security_struct \<Rightarrow>
   task_security_struct \<Rightarrow> errno \<Rightarrow> (task_security_struct \<times> task_security_struct \<times> errno) outcome" where
  "send_loop type seg_ok i [] ts rs rv = Ret (ts, rs, rv)"
| "send_loop type seg_ok i (c # cs) ts rs rv =
     bindO (extract_cap type (capList ts) c False rv) (\<lambda>(segs, tmp, ok, rv1).
     let rv2 = (if ok then rv1 else - ENOENT) in
     bindO (insert_cap (seg_ok i) (capSuspendList rs) tmp) (\<lambda>sus.
     send_loop type seg_ok (Suc i) cs (ts\<lparr>capList := segs\<rparr>) (rs\<lparr>capSuspendList := sus\<rparr>) rv2))"

text \<open>
  \<open>dest\<close> is the result of \<open>find_task_by_pid\<close>: \<open>None\<close> for no such task, otherwise the
  receiver's security pointer. When the receiver is the sender (\<open>self\<close>) the second
  \<open>spin_lock\<close> is on the lock already held.
\<close>

definition difc_send_capabilities ::
  "bool \<Rightarrow> (nat \<Rightarrow> bool) \<Rightarrow> u64 list \<Rightarrow> u32 \<Rightarrow> u32 \<Rightarrow> bool \<Rightarrow> task_security_struct option \<Rightarrow>
   task_security_struct option option \<Rightarrow>
   (task_security_struct option \<times> task_security_struct option option \<times> errno) outcome" where
  "difc_send_capabilities kmalloc_ok seg_ok ubuf len type self sec dest =
     (case dest of
        None \<Rightarrow> Ret (sec, dest, - ESRCH)
      | Some rsec \<Rightarrow>
          bindO (check_allowed (map_option label sec) (map_option label rsec)) (\<lambda>r.
          if r \<noteq> 0 then Ret (sec, dest, - EPERM)
          else (case copy_caps kmalloc_ok ubuf len of
             None \<Rightarrow> Ret (sec, dest, - ENOMEM)
           | Some cl \<Rightarrow>
               bindO (deref sec) (\<lambda>ts.
               bindO (deref rsec) (\<lambda>rs.
               if self then Oops Deadlock
               else bindO (send_loop type seg_ok 0 cl ts rs 0) (\<lambda>(ts', rs', rv).
                 loop_end cl len (Some ts', Some (Some rs'), rv)))))))"

section \<open>Capabilities a list holds\<close>

named_theorems cap_bits

lemmas cap_masks = CAP_PLUS_MASK_def CAP_MINUS_MASK_def CAP_LABEL_MASK_def

definition wf_segs :: "cap_segment list \<Rightarrow> bool" where
  "wf_segs segs \<longleftrightarrow> (\<forall>n \<in> set segs. wf_arr n)"

definition all_caps :: "cap_segment list \<Rightarrow> capability_t list" where
  "all_caps segs = concat (map entries segs)"

definition wf_task :: "task_security_struct \<Rightarrow> bool" where
  "wf_task ts \<longleftrightarrow> wf_label (label ts) \<and> wf_segs (capList ts) \<and> wf_segs (capSuspendList ts)"

abbreviation cap_label :: "capability_t \<Rightarrow> label_t" where
  "cap_label c \<equiv> c AND CAP_LABEL_MASK"

datatype polarity = Plus | Minus

primrec pol_mask :: "polarity \<Rightarrow> u64" where
  "pol_mask Plus = CAP_PLUS_MASK"
| "pol_mask Minus = CAP_MINUS_MASK"

definition grants :: "capability_t \<Rightarrow> label_t \<Rightarrow> polarity \<Rightarrow> bool" where
  "grants c l p \<longleftrightarrow> cap_label c = l \<and> c AND pol_mask p \<noteq> 0"

text \<open>The authority a list of segments holds.\<close>

definition authority :: "cap_segment list \<Rightarrow> (label_t \<times> polarity) set" where
  "authority segs = {(l, p). \<exists>c \<in> set (all_caps segs). grants c l p}"

text \<open>A plain label, with neither capability bit: what the system calls expect as argument.\<close>

definition label_only :: "u64 \<Rightarrow> bool" where
  "label_only c \<longleftrightarrow> cap_label c = c"

lemma wf_segs_simps [simp]: "wf_segs []" "wf_segs (n # segs) \<longleftrightarrow> wf_arr n \<and> wf_segs segs"
  by (simp_all add: wf_segs_def)

lemma all_caps_simps [simp]: "all_caps [] = []" "all_caps (n # segs) = entries n @ all_caps segs"
  by (simp_all add: all_caps_def)

lemma mask_disjoint [cap_bits]:
  "CAP_PLUS_MASK AND CAP_LABEL_MASK = 0" "CAP_MINUS_MASK AND CAP_LABEL_MASK = 0"
  "CAP_PLUS_MASK AND CAP_MINUS_MASK = 0" "CAP_MINUS_MASK AND CAP_PLUS_MASK = 0"
  "CAP_PLUS_MASK AND CAP_PLUS_MASK \<noteq> 0" "CAP_MINUS_MASK AND CAP_MINUS_MASK \<noteq> 0"
  by (simp_all add: cap_masks)

lemma cap_set_bits [cap_bits]:
  "(c OR CAP_PLUS_MASK) AND CAP_LABEL_MASK = c AND CAP_LABEL_MASK"
  "(c OR CAP_MINUS_MASK) AND CAP_LABEL_MASK = c AND CAP_LABEL_MASK"
  "(c OR CAP_PLUS_MASK) AND CAP_MINUS_MASK = c AND CAP_MINUS_MASK"
  "(c OR CAP_MINUS_MASK) AND CAP_PLUS_MASK = c AND CAP_PLUS_MASK"
  "(c XOR CAP_PLUS_MASK) AND CAP_MINUS_MASK = c AND CAP_MINUS_MASK"
  "(c XOR CAP_MINUS_MASK) AND CAP_PLUS_MASK = c AND CAP_PLUS_MASK"
  by (simp_all add: mask_disjoint bit.conj_disj_distrib2 bit.conj_xor_distrib2)

lemma label_only_no_bits:
  assumes "label_only c"
  shows "c AND CAP_PLUS_MASK = 0" and "c AND CAP_MINUS_MASK = 0"
proof -
  have c: "c = c AND CAP_LABEL_MASK" using assms by (simp add: label_only_def)
  have "c AND CAP_PLUS_MASK = c AND (CAP_LABEL_MASK AND CAP_PLUS_MASK)"
    by (subst c) (simp add: and.assoc)
  then show "c AND CAP_PLUS_MASK = 0" by (simp add: cap_masks)
  have "c AND CAP_MINUS_MASK = c AND (CAP_LABEL_MASK AND CAP_MINUS_MASK)"
    by (subst c) (simp add: and.assoc)
  then show "c AND CAP_MINUS_MASK = 0" by (simp add: cap_masks)
qed

lemma label_only_grants: "label_only c \<Longrightarrow> \<not> grants c l p"
  by (cases p) (simp_all add: grants_def label_only_no_bits)

lemma cap_label_idem [simp]: "cap_label (cap_label c) = cap_label c"
  by (simp add: and.assoc)

lemma label_only_cap_label [simp]: "label_only (cap_label c)"
  by (simp add: label_only_def and.assoc)

lemma task_find_capability_spec:
  "wf_segs segs \<Longrightarrow> task_find_capability segs l =
   Ret (case find (\<lambda>c. cap_label c = l) (all_caps segs) of None \<Rightarrow> 0 | Some c \<Rightarrow> c)"
proof (induction segs)
  case Nil
  then show ?case by simp
next
  case (Cons n segs)
  let ?P = "\<lambda>c. cap_label c = l" and ?i = "first_index (\<lambda>c. cap_label c = l) (entries n)"
  have wf: "wf_arr n" "wf_segs segs" using Cons.prems by auto
  have f: "find_from ?P n (Suc 0) = Ret (Suc ?i)" using wf(1) by (rule find_from_Ret)
  have find: "find ?P (entries n) = (if ?i < cnt n then Some (entries n ! ?i) else None)"
  proof -
    have "find ?P xs = (if first_index ?P xs < length xs then Some (xs ! first_index ?P xs) else None)" for xs
      by (induction xs) auto
    then show ?thesis using wf(1) by simp
  qed
  have app: "find ?P (xs @ ys) = (case find ?P xs of None \<Rightarrow> find ?P ys | Some c \<Rightarrow> Some c)" for xs ys
    by (induction xs) auto
  have "rd n (Suc ?i) = Ret (entries n ! ?i)" if "?i < cnt n"
    using that wf(1) wf_arrD [OF wf(1)] by (auto simp: rd_def entries_nth)
  then show ?case using Cons.IH [OF wf(2)] f find by (simp add: app Suc_le_eq)
qed

lemma insert_cap_spec:
  assumes "wf_segs segs" and "insert_cap ok segs c = Ret segs'"
  shows "wf_segs segs'" and "set (all_caps segs') = insert c (set (all_caps segs))"
proof -
  have "wf_segs segs' \<and> set (all_caps segs') = insert c (set (all_caps segs))"
    using assms
  proof (induction segs arbitrary: segs')
    case Nil
    then show ?case
      using push_entries [of empty_arr c] by (auto simp: bindO_Ret_iff arr_consts split: if_splits)
  next
    case (Cons n segs)
    show ?case
    proof (cases "cnt n < LIST_MAX_ENTRIES")
      case True
      then show ?thesis using Cons.prems push_entries [of n c] by (auto simp: bindO_Ret_iff)
    next
      case False
      then show ?thesis using Cons by (fastforce simp: bindO_Ret_iff)
    qed
  qed
  then show "wf_segs segs'" and "set (all_caps segs') = insert c (set (all_caps segs))" by auto
qed

lemma insert_cap_returns: "wf_segs segs \<Longrightarrow> \<exists>segs'. insert_cap True segs c = Ret segs'"
proof (induction segs)
  case Nil
  then show ?case using push_entries [of empty_arr c] by (auto simp: arr_consts)
next
  case (Cons n segs)
  then show ?case using push_entries [of n c] by (auto simp: bindO_Ret_iff)
qed

section \<open>What taking a capability out does\<close>

lemma drop_entry_spec:
  assumes "wf_arr n" and "0 < idx" and "idx \<le> cnt n"
  shows "\<exists>n' tmp' rv'. drop_entry type n idx l tmp rv = Ret (n', tmp', rv') \<and> wf_arr n'
    \<and> set (entries n') \<subseteq> set (entries n) \<and> cap_label tmp' = cap_label tmp
    \<and> (\<forall>p. tmp' AND pol_mask p \<noteq> 0 \<longrightarrow> tmp AND pol_mask p \<noteq> 0 \<or> l AND pol_mask p \<noteq> 0)"
proof -
  obtain n' where n': "del_at n idx = Ret n'" "wf_arr n'" "entries n' = remove_nth (idx - 1) (entries n)"
    using del_at_entries [OF assms] by blast
  have sub: "set (entries n') \<subseteq> set (entries n)" using n'(3) set_remove_nth_subset by metis
  have pol: "(\<forall>p. Q p) \<longleftrightarrow> Q Plus \<and> Q Minus" for Q using polarity.exhaust by metis
  show ?thesis
    unfolding drop_entry_def Let_def pol
    using n' sub assms(1) by (auto simp: cap_bits)
qed

lemma extract_cap_spec:
  assumes "wf_segs segs"
  shows "\<exists>segs' tmp' ok' rv'. extract_cap type segs tmp ok rv = Ret (segs', tmp', ok', rv')
    \<and> wf_segs segs' \<and> set (all_caps segs') \<subseteq> set (all_caps segs) \<and> cap_label tmp' = cap_label tmp
    \<and> (\<forall>p. tmp' AND pol_mask p \<noteq> 0 \<longrightarrow>
         tmp AND pol_mask p \<noteq> 0 \<or> (\<exists>c \<in> set (all_caps segs). grants c (cap_label tmp) p))"
  using assms
proof (induction segs arbitrary: tmp ok rv)
  case Nil
  then show ?case by simp
next
  case (Cons n segs)
  have wf: "wf_arr n" "wf_segs segs" using Cons.prems by auto
  show ?case
  proof (rule find_from_cases [OF wf(1), of "\<lambda>l. tmp = cap_label l"])
    fix i
    assume f: "find_from (\<lambda>l. tmp = cap_label l) n (Suc 0) = Ret (Suc i)" "i < cnt n"
      and l: "tmp = cap_label (entries n ! i)" "entries n ! i \<in> set (entries n)"
      and rd: "rd n (Suc i) = Ret (entries n ! i)"
    let ?l = "entries n ! i"
    obtain n' t' r' where d: "drop_entry type n (Suc i) ?l tmp rv = Ret (n', t', r')" "wf_arr n'"
      "set (entries n') \<subseteq> set (entries n)" "cap_label t' = cap_label tmp"
      "\<forall>p. t' AND pol_mask p \<noteq> 0 \<longrightarrow> tmp AND pol_mask p \<noteq> 0 \<or> ?l AND pol_mask p \<noteq> 0"
      using drop_entry_spec [OF wf(1), of "Suc i" type ?l tmp rv] f(2) by auto
    obtain s'' t'' o'' r'' where e: "extract_cap type segs t' True r' = Ret (s'', t'', o'', r'')"
      "wf_segs s''" "set (all_caps s'') \<subseteq> set (all_caps segs)" "cap_label t'' = cap_label t'"
      "\<forall>p. t'' AND pol_mask p \<noteq> 0 \<longrightarrow>
         t' AND pol_mask p \<noteq> 0 \<or> (\<exists>c \<in> set (all_caps segs). grants c (cap_label t') p)"
      using Cons.IH [OF wf(2), of t' True r'] by auto
    have g: "?l AND pol_mask p \<noteq> 0 \<Longrightarrow> grants ?l (cap_label tmp) p" for p
      unfolding l(1) by (simp add: grants_def)
    have run: "extract_cap type (n # segs) tmp ok rv = Ret (n' # s'', t'', o'', r'')"
      using f rd d(1) e(1) by simp
    have "tmp AND pol_mask p \<noteq> 0 \<or> (\<exists>c \<in> set (all_caps (n # segs)). grants c (cap_label tmp) p)"
      if "t'' AND pol_mask p \<noteq> 0" for p
      using that e(5) d(4,5) g l(2) by (metis UnCI all_caps_simps(2) set_append)
    moreover have "set (all_caps (n' # s'')) \<subseteq> set (all_caps (n # segs))"
      using d(3) e(3) by auto
    ultimately show ?thesis unfolding run using d(2,4) e(2,4) by auto
  next
    fix i
    assume f: "find_from (\<lambda>l. tmp = cap_label l) n (Suc 0) = Ret (Suc i)" "cnt n \<le> i"
    obtain s'' t'' o'' r'' where e: "extract_cap type segs tmp ok rv = Ret (s'', t'', o'', r'')"
      "wf_segs s''" "set (all_caps s'') \<subseteq> set (all_caps segs)" "cap_label t'' = cap_label tmp"
      "\<forall>p. t'' AND pol_mask p \<noteq> 0 \<longrightarrow>
         tmp AND pol_mask p \<noteq> 0 \<or> (\<exists>c \<in> set (all_caps segs). grants c (cap_label tmp) p)"
      using Cons.IH [OF wf(2), of tmp ok rv] by auto
    have run: "extract_cap type (n # segs) tmp ok rv = Ret (n # s'', t'', o'', r'')"
      using f e(1) by simp
    have "set (all_caps (n # s'')) \<subseteq> set (all_caps (n # segs))" using e(3) by auto
    with e wf(1) show ?thesis unfolding run by auto
  qed
qed

lemma extract_cap_returns:
  "wf_segs segs \<Longrightarrow> \<exists>r. extract_cap type segs tmp ok rv = Ret r"
  using extract_cap_spec by blast

lemma extract_cap_authority:
  assumes "wf_segs segs" and "extract_cap type segs tmp ok rv = Ret (segs', tmp', ok', rv')"
  shows "wf_segs segs'" and "set (all_caps segs') \<subseteq> set (all_caps segs)"
    and "authority segs' \<subseteq> authority segs"
    and "label_only tmp \<Longrightarrow> {(l, p). grants tmp' l p} \<subseteq> authority segs"
proof -
  from extract_cap_spec [OF assms(1), of type tmp ok rv] assms(2)
  have *: "wf_segs segs'" "set (all_caps segs') \<subseteq> set (all_caps segs)" "cap_label tmp' = cap_label tmp"
    "\<And>p. tmp' AND pol_mask p \<noteq> 0 \<Longrightarrow>
         tmp AND pol_mask p \<noteq> 0 \<or> (\<exists>c \<in> set (all_caps segs). grants c (cap_label tmp) p)"
    by auto
  show "wf_segs segs'" "set (all_caps segs') \<subseteq> set (all_caps segs)" using * by auto
  then show "authority segs' \<subseteq> authority segs" by (auto simp: authority_def)
  show "{(l, p). grants tmp' l p} \<subseteq> authority segs" if "label_only tmp"
  proof safe
    fix l p assume g: "grants tmp' l p"
    then have "tmp' AND pol_mask p \<noteq> 0" and l: "l = cap_label tmp" using *(3) by (auto simp: grants_def)
    moreover have "tmp AND pol_mask p = 0"
      using that label_only_no_bits by (cases p) auto
    ultimately show "(l, p) \<in> authority segs" using *(4) by (auto simp: authority_def)
  qed
qed

lemma insert_cap_authority:
  assumes "wf_segs segs" and "insert_cap ok segs c = Ret segs'"
  shows "authority segs' = authority segs \<union> {(l, p). grants c l p}"
  using insert_cap_spec [OF assms] by (auto simp: authority_def)

text \<open>One round of the system calls: take from \<open>A\<close>, put what was taken into \<open>B\<close>.\<close>

lemma transfer_step:
  assumes "wf_segs A" and "wf_segs B"
  obtains A' tmp ok' rv' B' where "extract_cap type A c ok rv = Ret (A', tmp, ok', rv')"
    and "insert_cap True B tmp = Ret B'" and "wf_segs A'" and "wf_segs B'"
    and "authority A' \<subseteq> authority A" and "label_only c \<Longrightarrow> authority B' \<subseteq> authority B \<union> authority A"
proof -
  obtain A' tmp ok' rv' where x: "extract_cap type A c ok rv = Ret (A', tmp, ok', rv')"
    using extract_cap_returns [OF assms(1)] by (metis prod_cases4)
  obtain B' where i: "insert_cap True B tmp = Ret B'"
    using insert_cap_returns [OF assms(2)] by blast
  show thesis
    using that [OF x i] extract_cap_authority [OF assms(1) x] insert_cap_spec(1) [OF assms(2) i]
      insert_cap_authority [OF assms(2) i] by blast
qed

lemma drop_loop_spec:
  assumes "wf_task ts"
  shows "\<exists>ts' rv'. drop_loop type flag (\<lambda>_. True) i cs ts rv = Ret (ts', rv') \<and> wf_task ts'
    \<and> label ts' = label ts \<and> tcb ts' = tcb ts \<and> authority (capList ts') \<subseteq> authority (capList ts)
    \<and> ((\<forall>c \<in> set cs. label_only c) \<longrightarrow>
         authority (capSuspendList ts') \<subseteq> authority (capSuspendList ts) \<union> authority (capList ts))"
  using assms
proof (induction cs arbitrary: i ts rv)
  case Nil
  then show ?case by simp
next
  case (Cons c cs)
  have wf: "wf_segs (capList ts)" "wf_segs (capSuspendList ts)" "wf_label (label ts)"
    using Cons.prems by (auto simp: wf_task_def)
  obtain A' tmp ok' rv' B' where t: "extract_cap type (capList ts) c False rv = Ret (A', tmp, ok', rv')"
    "insert_cap True (capSuspendList ts) tmp = Ret B'" "wf_segs A'" "wf_segs B'"
    "authority A' \<subseteq> authority (capList ts)"
    "label_only c \<Longrightarrow> authority B' \<subseteq> authority (capSuspendList ts) \<union> authority (capList ts)"
    using transfer_step [OF wf(1,2)] by metis
  define ts1 where "ts1 = (if flag = CAP_OP_FLAG_TEMPORARY
    then ts\<lparr>capList := A', capSuspendList := B'\<rparr> else ts\<lparr>capList := A'\<rparr>)"
  have run: "drop_loop type flag (\<lambda>_. True) i (c # cs) ts rv =
    drop_loop type flag (\<lambda>_. True) (Suc i) cs ts1 (if ok' then rv' else - ENOENT)"
    using t(1,2) by (simp add: ts1_def Let_def)
  have "wf_task ts1" using t wf by (simp add: ts1_def wf_task_def)
  from Cons.IH [OF this] obtain ts' rv'' where r:
    "drop_loop type flag (\<lambda>_. True) (Suc i) cs ts1 (if ok' then rv' else - ENOENT) = Ret (ts', rv'')"
    "wf_task ts'" "label ts' = label ts1" "tcb ts' = tcb ts1"
    "authority (capList ts') \<subseteq> authority (capList ts1)"
    "(\<forall>c \<in> set cs. label_only c) \<longrightarrow>
         authority (capSuspendList ts') \<subseteq> authority (capSuspendList ts1) \<union> authority (capList ts1)"
    by blast
  have "label ts1 = label ts" "tcb ts1 = tcb ts" "authority (capList ts1) \<subseteq> authority (capList ts)"
    "label_only c \<Longrightarrow> authority (capSuspendList ts1) \<subseteq> authority (capSuspendList ts) \<union> authority (capList ts)"
    using t(5,6) by (auto simp: ts1_def)
  with r(2-) show ?case unfolding run r(1) by auto
qed

lemma resume_loop_spec:
  assumes "wf_task ts"
  shows "\<exists>ts' rv'. resume_loop type (\<lambda>_. True) i cs ts rv = Ret (ts', rv') \<and> wf_task ts'
    \<and> label ts' = label ts \<and> tcb ts' = tcb ts
    \<and> authority (capSuspendList ts') \<subseteq> authority (capSuspendList ts)
    \<and> ((\<forall>c \<in> set cs. label_only c) \<longrightarrow>
         authority (capList ts') \<subseteq> authority (capList ts) \<union> authority (capSuspendList ts))"
  using assms
proof (induction cs arbitrary: i ts rv)
  case Nil
  then show ?case by simp
next
  case (Cons c cs)
  have wf: "wf_segs (capList ts)" "wf_segs (capSuspendList ts)" "wf_label (label ts)"
    using Cons.prems by (auto simp: wf_task_def)
  obtain A' tmp ok' rv' B' where t: "extract_cap type (capSuspendList ts) c False rv = Ret (A', tmp, ok', rv')"
    "insert_cap True (capList ts) tmp = Ret B'" "wf_segs A'" "wf_segs B'"
    "authority A' \<subseteq> authority (capSuspendList ts)"
    "label_only c \<Longrightarrow> authority B' \<subseteq> authority (capList ts) \<union> authority (capSuspendList ts)"
    using transfer_step [OF wf(2,1)] by metis
  let ?ts1 = "ts\<lparr>capSuspendList := A', capList := B'\<rparr>"
  have run: "resume_loop type (\<lambda>_. True) i (c # cs) ts rv =
    resume_loop type (\<lambda>_. True) (Suc i) cs ?ts1 (if ok' then rv' else - ENOENT)"
    using t(1,2) by (simp add: Let_def)
  have "wf_task ?ts1" using t wf by (simp add: wf_task_def)
  from Cons.IH [OF this] obtain ts' rv'' where r:
    "resume_loop type (\<lambda>_. True) (Suc i) cs ?ts1 (if ok' then rv' else - ENOENT) = Ret (ts', rv'')"
    "wf_task ts'" "label ts' = label ts" "tcb ts' = tcb ts"
    "authority (capSuspendList ts') \<subseteq> authority A'"
    "(\<forall>c \<in> set cs. label_only c) \<longrightarrow> authority (capList ts') \<subseteq> authority B' \<union> authority A'"
    by fastforce
  with t(5,6) show ?case unfolding run r(1) by auto
qed

lemma send_loop_spec:
  assumes "wf_task ts" and "wf_task rs"
  shows "\<exists>ts' rs' rv'. send_loop type (\<lambda>_. True) i cs ts rs rv = Ret (ts', rs', rv') \<and> wf_task ts' \<and> wf_task rs'
    \<and> capSuspendList ts' = capSuspendList ts \<and> label ts' = label ts \<and> tcb ts' = tcb ts
    \<and> capList rs' = capList rs \<and> label rs' = label rs \<and> tcb rs' = tcb rs
    \<and> authority (capList ts') \<subseteq> authority (capList ts)
    \<and> ((\<forall>c \<in> set cs. label_only c) \<longrightarrow>
         authority (capSuspendList rs') \<subseteq> authority (capSuspendList rs) \<union> authority (capList ts))"
  using assms
proof (induction cs arbitrary: i ts rs rv)
  case Nil
  then show ?case by simp
next
  case (Cons c cs)
  have wf: "wf_segs (capList ts)" "wf_segs (capSuspendList rs)"
    using Cons.prems by (auto simp: wf_task_def)
  obtain A' tmp ok' rv' B' where t: "extract_cap type (capList ts) c False rv = Ret (A', tmp, ok', rv')"
    "insert_cap True (capSuspendList rs) tmp = Ret B'" "wf_segs A'" "wf_segs B'"
    "authority A' \<subseteq> authority (capList ts)"
    "label_only c \<Longrightarrow> authority B' \<subseteq> authority (capSuspendList rs) \<union> authority (capList ts)"
    using transfer_step [OF wf] by metis
  let ?ts1 = "ts\<lparr>capList := A'\<rparr>" and ?rs1 = "rs\<lparr>capSuspendList := B'\<rparr>"
  have run: "send_loop type (\<lambda>_. True) i (c # cs) ts rs rv =
    send_loop type (\<lambda>_. True) (Suc i) cs ?ts1 ?rs1 (if ok' then rv' else - ENOENT)"
    using t(1,2) by (simp add: Let_def)
  have "wf_task ?ts1" "wf_task ?rs1" using t Cons.prems by (auto simp: wf_task_def)
  from Cons.IH [OF this] obtain ts' rs' rv'' where r:
    "send_loop type (\<lambda>_. True) (Suc i) cs ?ts1 ?rs1 (if ok' then rv' else - ENOENT) = Ret (ts', rs', rv'')"
    "wf_task ts'" "wf_task rs'" "capSuspendList ts' = capSuspendList ts" "label ts' = label ts" "tcb ts' = tcb ts"
    "capList rs' = capList rs" "label rs' = label rs" "tcb rs' = tcb rs"
    "authority (capList ts') \<subseteq> authority A'"
    "(\<forall>c \<in> set cs. label_only c) \<longrightarrow> authority (capSuspendList rs') \<subseteq> authority B' \<union> authority A'"
    by fastforce
  with t(5,6) show ?case unfolding run r(1) by auto
qed

lemma copy_caps_exact:
  assumes "unat len < 2 ^ 29"
  shows "copy_caps kok ubuf len = (if kok \<and> unat len \<le> length ubuf then Some (take (unat len) ubuf) else None)"
proof -
  have "unat (8 * len) = 8 * unat len"
    using assms by (simp add: unat_word_ariths)
  then show ?thesis by (simp add: copy_caps_def Let_def)
qed

section \<open>Exact effect on one capability\<close>

lemma extract_absent:
  "wf_segs segs \<Longrightarrow> \<forall>c \<in> set (all_caps segs). cap_label c \<noteq> tmp \<Longrightarrow>
   extract_cap type segs tmp ok rv = Ret (segs, tmp, ok, rv)"
proof (induction segs)
  case Nil
  then show ?case by simp
next
  case (Cons n segs)
  have wf: "wf_arr n" using Cons.prems by simp
  show ?case
    by (rule find_from_cases [OF wf, of "\<lambda>l. tmp = cap_label l"]) (use Cons in auto)
qed

lemma extract_forged:
  "wf_segs segs \<Longrightarrow> \<not> label_only tmp \<Longrightarrow> extract_cap type segs tmp ok rv = Ret (segs, tmp, ok, rv)"
  by (rule extract_absent) (auto simp: label_only_def)

lemma or_bits_not_label_only: "\<not> label_only (c OR CAP_PLUS_MASK)" "\<not> label_only (c OR CAP_MINUS_MASK)"
  using label_only_no_bits(1) [of "c OR CAP_PLUS_MASK"] label_only_no_bits(2) [of "c OR CAP_MINUS_MASK"]
  by (auto simp: bit.conj_disj_distrib2 or_eq_0_iff cap_masks)

lemma plus_is_one_bit: "(c :: u64) AND CAP_PLUS_MASK \<noteq> 0 \<Longrightarrow> (c XOR CAP_PLUS_MASK) AND CAP_PLUS_MASK = 0"
proof -
  assume a: "c AND CAP_PLUS_MASK \<noteq> 0"
  have m: "CAP_PLUS_MASK = push_bit 30 1" by (simp add: cap_masks)
  have "c AND push_bit 30 1 = push_bit 30 1"
  proof (rule bit_word_eqI)
    fix n
    have "bit c 30" using a unfolding m
      by (metis and_exp_eq_0_iff_not_bit push_bit_of_1)
    then show "bit (c AND push_bit 30 1) n = bit (push_bit 30 1 :: u64) n"
      by (auto simp only: bit_and_iff bit_push_bit_iff bit_1_iff) (metis diff_is_0_eq le_antisym)
  qed
  then show ?thesis unfolding m by (simp only: bit.conj_xor_distrib2 and.idem xor_self_eq)
qed

lemma find_in_front:
  "i < length xs \<Longrightarrow> P (xs ! i) \<Longrightarrow> \<forall>j < i. \<not> P (xs ! j) \<Longrightarrow> find P (xs @ ys) = Some (xs ! i)"
  by (auto simp: find_Some_iff nth_append intro!: exI [of _ i])

lemma find_behind: "\<forall>x \<in> set xs. \<not> P x \<Longrightarrow> find P (xs @ ys) = find P ys"
  by (induction xs) auto

lemma extract_one_of_two:
  assumes "wf_segs segs" and "find (\<lambda>c. cap_label c = l) (all_caps segs) = Some c"
    and "c AND CAP_PLUS_MASK \<noteq> 0" and "c AND CAP_MINUS_MASK \<noteq> 0"
  shows "extract_cap TYPE_PLUS segs l ok rv = Ret (segs, l OR CAP_PLUS_MASK, True, rv)"
    and "extract_cap TYPE_MINUS segs l ok rv = Ret (segs, l OR CAP_MINUS_MASK, True, rv)"
proof -
  have "extract_cap TYPE_PLUS segs l ok rv = Ret (segs, l OR CAP_PLUS_MASK, True, rv) \<and>
        extract_cap TYPE_MINUS segs l ok rv = Ret (segs, l OR CAP_MINUS_MASK, True, rv)"
    using assms(1,2)
  proof (induction segs)
    case Nil
    then show ?case by simp
  next
    case (Cons n segs)
    have wf: "wf_arr n" "wf_segs segs" using Cons.prems by auto
    show ?case
    proof (rule find_from_cases [OF wf(1), of "\<lambda>x. l = cap_label x"])
      fix i
      assume f: "find_from (\<lambda>x. l = cap_label x) n (Suc 0) = Ret (Suc i)" "i < cnt n"
        "l = cap_label (entries n ! i)" "rd n (Suc i) = Ret (entries n ! i)"
        "\<forall>j < i. \<not> l = cap_label (entries n ! j)"
      have c: "entries n ! i = c"
        using find_in_front [of i "entries n" "\<lambda>c. cap_label c = l" "all_caps segs"] f(2,3,5) wf(1)
          Cons.prems(2) by (metis all_caps_simps(2) length_entries option.inject)
      have "drop_entry TYPE_PLUS n (Suc i) c l rv = Ret (n, l OR CAP_PLUS_MASK, rv)"
        "drop_entry TYPE_MINUS n (Suc i) c l rv = Ret (n, l OR CAP_MINUS_MASK, rv)"
        using assms(3,4) by (simp_all add: drop_entry_def cap_bits TYPE_PLUS_def TYPE_MINUS_def)
      then show ?thesis
        using f(1,2,4) c extract_forged [OF wf(2) or_bits_not_label_only(1)]
          extract_forged [OF wf(2) or_bits_not_label_only(2)] by simp
    next
      fix i
      assume f: "find_from (\<lambda>x. l = cap_label x) n (Suc 0) = Ret (Suc i)" "cnt n \<le> i"
        "\<forall>c \<in> set (entries n). \<not> l = cap_label c"
      then have "find (\<lambda>c. cap_label c = l) (all_caps segs) = Some c"
        using find_behind [of "entries n" "\<lambda>c. cap_label c = l" "all_caps segs"] Cons.prems(2)
        by (metis all_caps_simps(2))
      then show ?thesis using Cons.IH [OF wf(2)] f by simp
    qed
  qed
  then show "extract_cap TYPE_PLUS segs l ok rv = Ret (segs, l OR CAP_PLUS_MASK, True, rv)"
    and "extract_cap TYPE_MINUS segs l ok rv = Ret (segs, l OR CAP_MINUS_MASK, True, rv)" by auto
qed

definition TYPE_BOTH :: u32 where "TYPE_BOTH = TYPE_PLUS OR TYPE_MINUS"

lemma type_both: "TYPE_BOTH AND TYPE_PLUS \<noteq> 0" "TYPE_BOTH AND TYPE_MINUS \<noteq> 0"
  by (simp_all add: TYPE_BOTH_def TYPE_PLUS_def TYPE_MINUS_def)

lemma filter_label_remove_nth:
  "distinct (map f xs) \<Longrightarrow> i < length xs \<Longrightarrow> filter (\<lambda>x. f x \<noteq> f (xs ! i)) xs = remove_nth i xs"
proof (induction xs arbitrary: i)
  case Nil
  then show ?case by simp
next
  case (Cons x xs)
  show ?case
  proof (cases i)
    case 0
    with Cons.prems show ?thesis by (auto simp: filter_id_conv image_iff)
  next
    case (Suc j)
    with Cons show ?thesis by auto
  qed
qed

text \<open>Asking for both polarities deletes the entry, whichever of the two bits it has.\<close>

lemma drop_entry_both:
  assumes "wf_arr n" and "i < cnt n" and "l AND CAP_PLUS_MASK \<noteq> 0 \<or> l AND CAP_MINUS_MASK \<noteq> 0"
  shows "\<exists>n' tmp' rv'. drop_entry TYPE_BOTH n (Suc i) l tmp rv = Ret (n', tmp', rv') \<and> wf_arr n'
    \<and> entries n' = remove_nth i (entries n) \<and> \<not> label_only tmp'
    \<and> (l AND CAP_PLUS_MASK \<noteq> 0 \<longrightarrow> rv' = rv)"
proof -
  obtain n' where n': "del_at n (Suc i) = Ret n'" "wf_arr n'" "entries n' = remove_nth i (entries n)"
    using del_at_entries [OF assms(1), of "Suc i"] assms(2) by auto
  show ?thesis
  proof (cases "l AND CAP_PLUS_MASK = 0"; cases "l AND CAP_MINUS_MASK = 0")
  qed (use n' assms(3) in \<open>auto simp: drop_entry_def type_both cap_bits or_bits_not_label_only plus_is_one_bit\<close>)
qed

lemma extract_both:
  assumes "wf_segs segs" and "distinct (map cap_label (all_caps segs))" and "c \<in> set (all_caps segs)"
    and "c AND CAP_PLUS_MASK \<noteq> 0 \<or> c AND CAP_MINUS_MASK \<noteq> 0"
  shows "\<exists>segs' tmp' rv'. extract_cap TYPE_BOTH segs (cap_label c) ok rv = Ret (segs', tmp', True, rv')
    \<and> wf_segs segs' \<and> all_caps segs' = filter (\<lambda>x. cap_label x \<noteq> cap_label c) (all_caps segs)
    \<and> (c AND CAP_PLUS_MASK \<noteq> 0 \<longrightarrow> rv' = rv)"
  using assms(1-3)
proof (induction segs)
  case Nil
  then show ?case by simp
next
  case (Cons n segs)
  have wf: "wf_arr n" "wf_segs segs" using Cons.prems by auto
  let ?keep = "filter (\<lambda>x. cap_label x \<noteq> cap_label c)"
  have ids: "?keep xs = xs" if "\<forall>x \<in> set xs. cap_label x \<noteq> cap_label c" for xs
    using that by (simp add: filter_id_conv)
  show ?case
  proof (rule find_from_cases [OF wf(1), of "\<lambda>x. cap_label c = cap_label x"])
    fix i
    assume f: "find_from (\<lambda>x. cap_label c = cap_label x) n (Suc 0) = Ret (Suc i)" "i < cnt n"
      "cap_label c = cap_label (entries n ! i)" "entries n ! i \<in> set (entries n)"
      "rd n (Suc i) = Ret (entries n ! i)"
    have inj: "inj_on cap_label (set (all_caps (n # segs)))"
      using Cons.prems(2) unfolding distinct_map by (rule conjunct2)
    have c: "entries n ! i = c"
      by (rule inj_onD [OF inj f(3) [symmetric] _ Cons.prems(3)]) (use f(4) in simp)
    obtain n' t' r' where d: "drop_entry TYPE_BOTH n (Suc i) c (cap_label c) rv = Ret (n', t', r')" "wf_arr n'"
      "entries n' = remove_nth i (entries n)" "\<not> label_only t'" "c AND CAP_PLUS_MASK \<noteq> 0 \<longrightarrow> r' = rv"
      using drop_entry_both [OF wf(1) f(2), of c "cap_label c" rv] assms(4) by auto
    have run: "extract_cap TYPE_BOTH (n # segs) (cap_label c) ok rv = Ret (n' # segs, t', True, r')"
      using f(1,2,5) c d(1) extract_forged [OF wf(2) d(4)] by simp
    have rest: "\<forall>x \<in> set (all_caps segs). cap_label x \<noteq> cap_label c"
      using Cons.prems(2) f(4) unfolding c by (auto simp: image_iff)
    have dist: "distinct (map cap_label (entries n))" using Cons.prems(2) by simp
    have "?keep (entries n) = remove_nth i (entries n)"
      using filter_label_remove_nth [OF dist, of i] f(2) wf(1) c by simp
    with run d wf rest ids show ?thesis by auto
  next
    fix i
    assume f: "find_from (\<lambda>x. cap_label c = cap_label x) n (Suc 0) = Ret (Suc i)" "cnt n \<le> i"
      "\<forall>x \<in> set (entries n). \<not> cap_label c = cap_label x"
    have "c \<in> set (all_caps segs)" "distinct (map cap_label (all_caps segs))"
      using Cons.prems(2,3) f(3) by auto
    then obtain s' t' r' where e: "extract_cap TYPE_BOTH segs (cap_label c) ok rv = Ret (s', t', True, r')"
      "wf_segs s'" "all_caps s' = ?keep (all_caps segs)" "c AND CAP_PLUS_MASK \<noteq> 0 \<longrightarrow> r' = rv"
      using Cons.IH [OF wf(2)] by auto
    have "?keep (entries n) = entries n" using f(3) by (intro ids) auto
    with e f(1,2) wf(1) show ?thesis by simp
  qed
qed

section \<open>What the capability system calls guarantee\<close>

text \<open>A task for the concrete instances: one segment holding both polarities of label 5.\<close>

definition cap_both :: "label_t \<Rightarrow> capability_t" where
  "cap_both l = (l OR CAP_PLUS_MASK) OR CAP_MINUS_MASK"

definition sample_task :: task_security_struct where
  "sample_task = \<lparr>label = mk_label [] [], capList = [mk_arr [cap_both 5]], capSuspendList = [], tcb = 0\<rparr>"

lemma sample_task_simps [simp]:
  "wf_task sample_task" "all_caps (capList sample_task) = [cap_both 5]"
  "label sample_task = mk_label [] []" "capSuspendList sample_task = []"
  by (simp_all add: sample_task_def wf_task_def LIST_MAX_ENTRIES_def)

lemma cap_both_bits [simp]:
  "cap_both l AND CAP_PLUS_MASK \<noteq> 0" "cap_both l AND CAP_MINUS_MASK \<noteq> 0"
  "cap_label (cap_both l) = cap_label l" "\<not> label_only (cap_both l)"
proof -
  show "cap_both l AND CAP_PLUS_MASK \<noteq> 0" "cap_both l AND CAP_MINUS_MASK \<noteq> 0"
    by (simp_all add: cap_both_def bit.conj_disj_distrib2 cap_bits or_eq_0_iff cap_masks)
  show "cap_label (cap_both l) = cap_label l" by (simp add: cap_both_def cap_bits)
  show "\<not> label_only (cap_both l)" unfolding cap_both_def by (rule or_bits_not_label_only)
qed

lemma label_only_samples [simp]:
  "label_only 5" "label_only 7" "cap_label 5 = 5" "cap_label 7 = 7"
  by (simp_all add: label_only_def cap_masks)

text \<open>Dropping capabilities never creates authority. For a well-formed task, plain label
  values as arguments and a length below \<open>2^29\<close>, \<open>difc_drop_capabilities\<close> returns, keeps
  the task well formed and its label and TCB flag unchanged, leaves no pair (label,
  polarity) in the active list that was not there, and leaves in the suspended list only
  pairs that were suspended or active before.
\<close>

lemma drop_capabilities_conserve:
  assumes "wf_task ts" and "\<forall>c \<in> set ubuf. label_only c" and "unat len < 2 ^ 29"
  shows "\<exists>ts' rv. difc_drop_capabilities kok (\<lambda>_. True) ubuf len type flag (Some ts) = Ret (Some ts', rv)
    \<and> wf_task ts' \<and> label ts' = label ts \<and> tcb ts' = tcb ts
    \<and> authority (capList ts') \<subseteq> authority (capList ts)
    \<and> authority (capSuspendList ts') \<subseteq> authority (capSuspendList ts) \<union> authority (capList ts)"
proof (cases "kok \<and> unat len \<le> length ubuf")
  case True
  have "\<forall>c \<in> set (take (unat len) ubuf). label_only c" using assms(2) by (auto dest: in_set_takeD)
  with drop_loop_spec [OF assms(1), of type flag 0 "take (unat len) ubuf" 0]
  show ?thesis using True
    by (auto simp: difc_drop_capabilities_def copy_caps_exact [OF assms(3)] loop_end_def)
next
  case False
  then show ?thesis using assms(1)
    by (auto simp: difc_drop_capabilities_def copy_caps_exact [OF assms(3)])
qed

lemma drop_capabilities_conserve_example:
  "wf_task sample_task \<and> label_only 5 \<and> label_only 7 \<and> unat (2 :: u32) < 2 ^ 29 \<and>
   (\<exists>ts' rv. difc_drop_capabilities True (\<lambda>_. True) [5, 7] 2 TYPE_BOTH CAP_OP_FLAG_TEMPORARY (Some sample_task)
      = Ret (Some ts', rv) \<and> authority (capList ts') \<subseteq> authority (capList sample_task))"
  using drop_capabilities_conserve [of sample_task "[5, 7]" 2 True TYPE_BOTH CAP_OP_FLAG_TEMPORARY] by auto

text \<open>Resuming capabilities, with plain label values as arguments, only moves authority:
  the call returns, keeps the task well formed, and every pair the active list grants
  afterwards was active or suspended before.
\<close>

lemma resume_capabilities_conserve:
  assumes "wf_task ts" and "\<forall>c \<in> set ubuf. label_only c" and "unat len < 2 ^ 29"
  shows "\<exists>ts' rv. difc_resume_capabilities kok (\<lambda>_. True) ubuf len type (Some ts) = Ret (Some ts', rv)
    \<and> wf_task ts' \<and> label ts' = label ts \<and> tcb ts' = tcb ts
    \<and> authority (capSuspendList ts') \<subseteq> authority (capSuspendList ts)
    \<and> authority (capList ts') \<subseteq> authority (capList ts) \<union> authority (capSuspendList ts)"
proof (cases "kok \<and> unat len \<le> length ubuf")
  case True
  have "\<forall>c \<in> set (take (unat len) ubuf). label_only c" using assms(2) by (auto dest: in_set_takeD)
  with resume_loop_spec [OF assms(1), of type 0 "take (unat len) ubuf" 0]
  show ?thesis using True
    by (auto simp: difc_resume_capabilities_def copy_caps_exact [OF assms(3)] loop_end_def)
next
  case False
  then show ?thesis using assms(1)
    by (auto simp: difc_resume_capabilities_def copy_caps_exact [OF assms(3)])
qed

lemma resume_capabilities_conserve_example:
  "wf_task sample_task \<and> label_only 5 \<and> unat (1 :: u32) < 2 ^ 29 \<and>
   (\<exists>ts' rv. difc_resume_capabilities True (\<lambda>_. True) [5] 1 TYPE_PLUS (Some sample_task) = Ret (Some ts', rv)
      \<and> authority (capList ts') \<subseteq> authority (capList sample_task) \<union> authority (capSuspendList sample_task))"
  using resume_capabilities_conserve [of sample_task "[5]" 1 True TYPE_PLUS] by auto

text \<open>C30: Sending capabilities to another task respects the flow order and conserves authority, as
  long as the words the sender passes are plain label values, fewer than \<open>2^29\<close> of them. If the
  sender's label may not flow to the receiver's, the call returns \<open>-EPERM\<close> and
  changes neither task. Otherwise it returns, the labels and the receiver's active list
  are unchanged, and the receiver's suspended list grants only what it granted before or
  what the sender's active list granted.
\<close>

theorem send_capabilities_guarded:
  assumes "wf_task ts" and "wf_task rs" and "\<forall>c \<in> set ubuf. label_only c" and "unat len < 2 ^ 29"
  shows "if \<not> can_flow (label ts) (label rs)
    then difc_send_capabilities kok (\<lambda>_. True) ubuf len type False (Some ts) (Some (Some rs))
           = Ret (Some ts, Some (Some rs), - EPERM)
    else \<exists>ts' rs' rv. difc_send_capabilities kok (\<lambda>_. True) ubuf len type False (Some ts) (Some (Some rs))
           = Ret (Some ts', Some (Some rs'), rv) \<and> wf_task ts' \<and> wf_task rs'
         \<and> label ts' = label ts \<and> label rs' = label rs \<and> capList rs' = capList rs
         \<and> capSuspendList ts' = capSuspendList ts
         \<and> authority (capList ts') \<subseteq> authority (capList ts)
         \<and> authority (capSuspendList rs') \<subseteq> authority (capSuspendList rs) \<union> authority (capList ts)"
proof -
  have wf: "wf_label (label ts)" "wf_label (label rs)" using assms(1,2) by (auto simp: wf_task_def)
  have "\<forall>c \<in> set (take (unat len) ubuf). label_only c" using assms(3) by (auto dest: in_set_takeD)
  with send_loop_spec [OF assms(1,2), of type 0 "take (unat len) ubuf" 0] assms(1,2)
  show ?thesis
    by (auto simp: difc_send_capabilities_def check_allowed_Some [OF wf] copy_caps_exact [OF assms(4)]
        loop_end_def EPERM_def)
qed

theorem send_capabilities_guarded_witness:
  "wf_task sample_task \<and> wf_task (sample_task\<lparr>label := mk_label [] [9]\<rparr>)
   \<and> label_only 5 \<and> unat (1 :: u32) < 2 ^ 29
   \<and> difc_send_capabilities True (\<lambda>_. True) [5] 1 TYPE_BOTH False
       (Some sample_task) (Some (Some (sample_task\<lparr>label := mk_label [] [9]\<rparr>)))
     = Ret (Some sample_task, Some (Some (sample_task\<lparr>label := mk_label [] [9]\<rparr>)), - EPERM)"
proof -
  have wf: "wf_task (sample_task\<lparr>label := mk_label [] [9]\<rparr>)"
    by (simp add: sample_task_def wf_task_def LIST_MAX_ENTRIES_def)
  show ?thesis
    using send_capabilities_guarded [of sample_task "sample_task\<lparr>label := mk_label [] [9]\<rparr>" "[5]" 1 True TYPE_BOTH]
      wf by (simp add: can_flow_def LIST_MAX_ENTRIES_def)
qed

text \<open>C38: Resuming accepts any word as the capability to install. A task that holds nothing for
  label \<open>l\<close> passes the word with both polarity bits set: the call answers \<open>-ENOENT\<close>, and
  afterwards \<open>task_find_capability\<close> finds both polarities of \<open>l\<close> in the active list.
\<close>

theorem resume_capabilities_forge:
  assumes "wf_task ts" and "label_only l" and "\<forall>c \<in> set (all_caps (capList ts)). cap_label c \<noteq> l"
  shows "\<exists>ts'. difc_resume_capabilities True (\<lambda>_. True) [cap_both l] 1 type (Some ts) = Ret (Some ts', - ENOENT)
    \<and> task_find_capability (capList ts') l = Ret (cap_both l)"
proof -
  have wf: "wf_segs (capList ts)" "wf_segs (capSuspendList ts)" using assms(1) by (auto simp: wf_task_def)
  obtain B where B: "insert_cap True (capList ts) (cap_both l) = Ret B" "wf_segs B"
    "set (all_caps B) = insert (cap_both l) (set (all_caps (capList ts)))"
    using insert_cap_returns [OF wf(1)] insert_cap_spec [OF wf(1)] by blast
  have l: "cap_label l = l" using assms(2) by (simp add: label_only_def)
  have "find (\<lambda>c. cap_label c = l) (all_caps B) = Some (cap_both l)"
  proof (cases "find (\<lambda>c. cap_label c = l) (all_caps B)")
    case None
    then show ?thesis using B(3) l by (auto simp: find_None_iff)
  next
    case (Some c)
    then have "c \<in> set (all_caps B)" "cap_label c = l" by (auto simp: find_Some_iff)
    with B(3) assms(3) Some show ?thesis by auto
  qed
  then have "task_find_capability B l = Ret (cap_both l)" by (simp add: task_find_capability_spec [OF B(2)])
  moreover have "copy_caps True [cap_both l] 1 = Some [cap_both l]" by (simp add: copy_caps_def)
  ultimately show ?thesis
    using B(1) extract_forged [OF wf(2), of "cap_both l"]
    by (simp add: difc_resume_capabilities_def loop_end_def)
qed

theorem resume_capabilities_forge_witness:
  "wf_task sample_task \<and> label_only 7 \<and> list_all (\<lambda>c. cap_label c \<noteq> 7) (all_caps (capList sample_task)) \<and>
   (\<exists>ts'. difc_resume_capabilities True (\<lambda>_. True) [cap_both 7] 1 0 (Some sample_task) = Ret (Some ts', - ENOENT)
     \<and> task_find_capability (capList ts') 7 = Ret (cap_both 7))"
proof -
  have "\<forall>c \<in> set (all_caps (capList sample_task)). cap_label c \<noteq> 7" by simp
  then show ?thesis using resume_capabilities_forge [of sample_task 7 0] by simp
qed

text \<open>Dropping one polarity of a capability that has both changes nothing. The call answers
  0, but the cleared copy of the word is never written back: the task is as before and the
  capability it finds for the label still has both polarities.
\<close>

lemma drop_one_polarity_ineffective:
  assumes "wf_task ts" and "task_find_capability (capList ts) l = Ret c"
    and "c AND CAP_PLUS_MASK \<noteq> 0" and "c AND CAP_MINUS_MASK \<noteq> 0" and "type \<in> {TYPE_PLUS, TYPE_MINUS}"
  shows "difc_drop_capabilities True (\<lambda>_. True) [l] 1 type CAP_OP_FLAG_PERMANENT (Some ts) = Ret (Some ts, 0)"
proof -
  have wf: "wf_segs (capList ts)" using assms(1) by (simp add: wf_task_def)
  have "find (\<lambda>c. cap_label c = l) (all_caps (capList ts)) = Some c"
    using assms(2,3) by (auto simp: task_find_capability_spec [OF wf] split: option.splits)
  from extract_one_of_two [OF wf this assms(3,4), of False 0]
  have "\<exists>tmp. extract_cap type (capList ts) l False 0 = Ret (capList ts, tmp, True, 0)"
    using assms(5) by auto
  then show ?thesis
    by (auto simp: difc_drop_capabilities_def copy_caps_def loop_end_def CAP_OP_FLAG_PERMANENT_def
        CAP_OP_FLAG_TEMPORARY_def)
qed

lemma drop_one_polarity_ineffective_example:
  "wf_task sample_task \<and> task_find_capability (capList sample_task) 5 = Ret (cap_both 5) \<and>
   difc_drop_capabilities True (\<lambda>_. True) [5] 1 TYPE_MINUS CAP_OP_FLAG_PERMANENT (Some sample_task)
     = Ret (Some sample_task, 0)"
proof -
  have "wf_segs (capList sample_task)" by (simp add: sample_task_def LIST_MAX_ENTRIES_def)
  then have f: "task_find_capability (capList sample_task) 5 = Ret (cap_both 5)"
    by (simp add: task_find_capability_spec)
  with drop_one_polarity_ineffective [OF _ f, of TYPE_MINUS] show ?thesis by simp
qed

text \<open>Dropping both polarities removes the capability. When the active list has at most one
  entry per label, the entry of the named label is deleted, the others keep their order,
  the suspended list is untouched by a permanent drop, and the result is 0 if the entry
  had the plus polarity.
\<close>

lemma drop_both_removes:
  assumes "wf_task ts" and "distinct (map cap_label (all_caps (capList ts)))"
    and "c \<in> set (all_caps (capList ts))" and "c AND CAP_PLUS_MASK \<noteq> 0"
  shows "\<exists>ts'. difc_drop_capabilities True (\<lambda>_. True) [cap_label c] 1 TYPE_BOTH CAP_OP_FLAG_PERMANENT (Some ts)
      = Ret (Some ts', 0) \<and> capSuspendList ts' = capSuspendList ts \<and> label ts' = label ts
    \<and> all_caps (capList ts') = filter (\<lambda>x. cap_label x \<noteq> cap_label c) (all_caps (capList ts))"
proof -
  have wf: "wf_segs (capList ts)" using assms(1) by (simp add: wf_task_def)
  have "\<exists>segs' tmp'. extract_cap TYPE_BOTH (capList ts) (cap_label c) False 0 = Ret (segs', tmp', True, 0)
    \<and> all_caps segs' = filter (\<lambda>x. cap_label x \<noteq> cap_label c) (all_caps (capList ts))"
    using extract_both [OF wf assms(2,3), of False 0] assms(4) by auto
  then show ?thesis
    by (auto simp: difc_drop_capabilities_def copy_caps_def loop_end_def CAP_OP_FLAG_PERMANENT_def
        CAP_OP_FLAG_TEMPORARY_def)
qed

lemma drop_both_removes_example:
  "wf_task sample_task \<and> distinct (map cap_label (all_caps (capList sample_task)))
   \<and> cap_both 5 \<in> set (all_caps (capList sample_task)) \<and> cap_both 5 AND CAP_PLUS_MASK \<noteq> 0
   \<and> (\<exists>ts'. difc_drop_capabilities True (\<lambda>_. True) [cap_label (cap_both 5)] 1 TYPE_BOTH
        CAP_OP_FLAG_PERMANENT (Some sample_task) = Ret (Some ts', 0) \<and> all_caps (capList ts') = [])"
  using drop_both_removes [of sample_task "cap_both 5"] by auto

end
