(* ===== verification/Difc.thy ===== *)
theory Difc
  imports Xattr Caps Rwsem
begin

text \<open>
  The hooks of the DIFC security module, \<^verbatim>\<open>security/difc.c\<close>, over the label arrays,
  capability lists, extended attributes and reader/writer semaphores of the imported
  theories. A task is its user id and its security pointer; an inode is its security
  pointer. Hooks that use \<open>current\<close> take that task as an argument and return what they
  change. Allocation results are boolean arguments. A \<open>down_read\<close> or \<open>down_write\<close> that is
  not granted at once is \<open>Oops Sleeps\<close>.
\<close>

record task_struct =
  uid :: u32
  security :: "task_security_struct option"

record object_security_struct =
  obj_label :: label_struct
  label_change_sem :: rw_semaphore

section \<open>Changing one label\<close>

text \<open>
  \<open>__difc_set_label\<close>: \<open>lbl\<close> is the structure to change and is only dereferenced when
  \<open>check_only\<close> is not set.
\<close>

definition do_difc_set_label ::
  "task_security_struct option \<Rightarrow> label_struct option \<Rightarrow> label_t \<Rightarrow> int \<Rightarrow> int \<Rightarrow> bool \<Rightarrow>
   (label_struct option \<times> errno) outcome" where
  "do_difc_set_label tsec lbl l op_type label_type check_only =
     (case tsec of
        None \<Rightarrow> Ret (lbl, - ENOTTY)
      | Some ts \<Rightarrow>
          bindO (task_find_capability (capList ts) l) (\<lambda>cap.
          if cap = 0 then Ret (lbl, - EPERM)
          else if op_type = LABEL_OP_ADD then
            if cap AND CAP_PLUS_MASK \<noteq> 0 then
              if check_only then Ret (lbl, 0)
              else bindO (deref lbl) (\<lambda>x. bindO (add_label x l label_type) (\<lambda>(x', rv). Ret (Some x', rv)))
            else Ret (lbl, - EPERM)
          else if op_type = LABEL_OP_REMOVE then
            if cap AND CAP_MINUS_MASK \<noteq> 0 then
              if check_only then Ret (lbl, 0)
              else bindO (deref lbl) (\<lambda>x. bindO (remove_label x l label_type) (\<lambda>(x', rv). Ret (Some x', rv)))
            else Ret (lbl, - EPERM)
          else Ret (lbl, - EINVAL)))"

section \<open>Replacing a whole label\<close>

text \<open>
  One of the four loops of \<open>check_label_replace\<close>: each label of \<open>src\<close> that is not in \<open>dst\<close>
  needs the capability for \<open>op_type\<close>. \<open>guard\<close> is the test on the TCB label at the head of
  the loop body: \<open>Some r\<close> leaves the loop with \<open>r\<close>, where 0 is the \<open>break\<close>. \<open>dst\<close> is read
  through its pointer.
\<close>

function replace_loop ::
  "(label_t \<Rightarrow> errno option) \<Rightarrow> int \<Rightarrow> int \<Rightarrow> task_security_struct option \<Rightarrow> label_struct option \<Rightarrow>
   carray \<Rightarrow> carray option \<Rightarrow> nat \<Rightarrow> errno outcome" where
  "replace_loop guard op_type label_type tsec old src dst idx =
     (if idx \<le> cnt src
      then bindO (rd src idx) (\<lambda>l.
           case guard l of
             Some r \<Rightarrow> Ret r
           | None \<Rightarrow>
               bindO (deref dst) (\<lambda>d.
               bindO (find_from (\<lambda>x. l = x) d 1) (\<lambda>j.
               if j \<le> cnt d then replace_loop guard op_type label_type tsec old src dst (Suc idx)
               else bindO (do_difc_set_label tsec old l op_type label_type True) (\<lambda>(_, rv).
                 if rv < 0 then Ret rv
                 else replace_loop guard op_type label_type tsec old src dst (Suc idx)))))
      else Ret 0)"
  by pat_completeness auto
termination
  by (relation "measure (\<lambda>(guard, op_type, label_type, tsec, old, src, dst, idx). Suc (cnt src) - idx)") auto

declare replace_loop.simps [simp del]

definition tcb_sec_guard :: "u32 \<Rightarrow> label_t \<Rightarrow> errno option" where
  "tcb_sec_guard cur_uid l = (if l = LABEL_TCB \<and> cur_uid \<noteq> 0 then Some (- EPERM) else None)"

definition tcb_int_guard :: "u32 \<Rightarrow> label_t \<Rightarrow> errno option" where
  "tcb_int_guard cur_uid l = (if l = LABEL_TCB then Some (if cur_uid \<noteq> 0 then - EPERM else 0) else None)"

definition check_label_replace ::
  "u32 \<Rightarrow> task_security_struct option \<Rightarrow> label_struct option \<Rightarrow> label_struct \<Rightarrow> errno outcome" where
  "check_label_replace cur_uid tsec old new =
     bindO (replace_loop (tcb_sec_guard cur_uid) LABEL_OP_ADD LABEL_TYPE_SEC tsec old
              (secList new) (map_option secList old) 1) (\<lambda>rv.
     if rv < 0 then Ret rv else
     bindO (deref old) (\<lambda>o1.
     bindO (replace_loop (\<lambda>_. None) LABEL_OP_REMOVE LABEL_TYPE_SEC tsec old
              (secList o1) (Some (secList new)) 1) (\<lambda>rv.
     if rv < 0 then Ret rv else
     bindO (replace_loop (tcb_int_guard cur_uid) LABEL_OP_ADD LABEL_TYPE_INT tsec old
              (intList new) (Some (intList o1)) 1) (\<lambda>rv.
     if rv < 0 then Ret rv else
     replace_loop (\<lambda>_. None) LABEL_OP_REMOVE LABEL_TYPE_INT tsec old
       (intList o1) (Some (intList new)) 1))))"

text \<open>\<open>task_get_labels\<close>: 1 for an unlabelled task, with the security pointer it stores.\<close>

definition task_get_labels :: "task_struct \<Rightarrow> int \<times> task_security_struct option" where
  "task_get_labels tsk =
     (case security tsk of
        None \<Rightarrow> (1, None)
      | Some ts \<Rightarrow>
          (if cnt (secList (label ts)) = 0 \<and> cnt (intList (label ts)) = 0 then 1 else 0, Some ts))"

section \<open>Allocation of the security structures\<close>

definition zero_tsec :: task_security_struct where
  "zero_tsec = \<lparr>label = empty_label, capList = [], capSuspendList = [], tcb = 0\<rparr>"

text \<open>The copy of the parent's segments, one allocation each.\<close>

primrec copy_segs :: "(nat \<Rightarrow> bool) \<Rightarrow> nat \<Rightarrow> cap_segment list \<Rightarrow> cap_segment list option" where
  "copy_segs seg_ok i [] = Some []"
| "copy_segs seg_ok i (n # ns) =
     (if seg_ok i then map_option (\<lambda>ms. n # ms) (copy_segs seg_ok (Suc i) ns) else None)"

definition difc_task_alloc_security ::
  "bool \<Rightarrow> (nat \<Rightarrow> bool) \<Rightarrow> task_struct \<Rightarrow> task_struct \<Rightarrow> task_struct \<times> errno" where
  "difc_task_alloc_security alloc_ok seg_ok cur tsk =
     (if \<not> alloc_ok then (tsk, - ENOMEM)
      else case security cur of
        None \<Rightarrow> (tsk\<lparr>security := Some zero_tsec\<rparr>, 0)
      | Some cur_tsec \<Rightarrow>
          (case copy_segs seg_ok 0 (capList cur_tsec) of
             None \<Rightarrow> (tsk, - ENOMEM)
           | Some segs \<Rightarrow> (tsk\<lparr>security := Some (zero_tsec\<lparr>capList := segs, tcb := tcb cur_tsec\<rparr>)\<rparr>, 0)))"

definition difc_task_free_security :: "task_struct \<Rightarrow> task_struct" where
  "difc_task_free_security tsk = tsk\<lparr>security := None\<rparr>"

definition difc_inode_alloc_security ::
  "bool \<Rightarrow> object_security_struct option \<Rightarrow> object_security_struct option \<times> errno" where
  "difc_inode_alloc_security alloc_ok isec =
     (if \<not> alloc_ok then (isec, - ENOMEM)
      else (Some \<lparr>obj_label = empty_label, label_change_sem = init_rwsem\<rparr>, 0))"

definition difc_inode_free_security :: "object_security_struct option \<Rightarrow> object_security_struct option" where
  "difc_inode_free_security isec = None"

text \<open>The binary's security structure (its semaphore is the zeroed memory and never used).\<close>

definition difc_bprm_alloc_security ::
  "bool \<Rightarrow> nat \<Rightarrow> object_security_struct option \<Rightarrow> object_security_struct option \<Rightarrow>
   (object_security_struct option \<times> object_security_struct option \<times> errno) outcome" where
  "difc_bprm_alloc_security alloc_ok pid isec bsec =
     (if \<not> alloc_ok then Ret (isec, bsec, - ENOMEM)
      else case isec of
        None \<Rightarrow> Ret (None, Some \<lparr>obj_label = empty_label, label_change_sem = init_rwsem\<rparr>, 0)
      | Some oss \<Rightarrow>
          (let (s1, granted) = down_read pid (label_change_sem oss) in
           if \<not> granted then Oops Sleeps
           else bindO (up_read_sem s1) (\<lambda>s2.
             Ret (Some (oss\<lparr>label_change_sem := s2\<rparr>),
                  Some \<lparr>obj_label = obj_label oss, label_change_sem = init_rwsem\<rparr>, 0))))"

definition difc_bprm_free_security :: "object_security_struct option \<Rightarrow> object_security_struct option" where
  "difc_bprm_free_security bsec = None"

definition difc_bprm_apply_creds ::
  "object_security_struct option \<Rightarrow> task_struct \<Rightarrow> task_struct outcome" where
  "difc_bprm_apply_creds bsec cur =
     bindO (deref bsec) (\<lambda>oss.
     bindO (find_from (\<lambda>l. l = LABEL_TCB) (intList (obj_label oss)) 1) (\<lambda>idx.
     bindO (deref (security cur)) (\<lambda>ttsec.
     Ret (cur\<lparr>security := Some (ttsec\<lparr>tcb := (if idx \<le> cnt (intList (obj_label oss)) then 1 else 0)\<rparr>)\<rparr>))))"

section \<open>Inode hooks\<close>

definition unlabeled_obj :: "object_security_struct option \<Rightarrow> bool" where
  "unlabeled_obj isec =
     (case isec of None \<Rightarrow> True
      | Some oss \<Rightarrow> cnt (secList (obj_label oss)) = 0 \<and> cnt (intList (obj_label oss)) = 0)"

text \<open>
  The second half of \<open>difc_inode_init_security\<close>: the attribute name and value for an inode
  that has been given the label \<open>l\<close>. \<open>want_name\<close> and \<open>want_value\<close> say whether the caller
  passed pointers for the name and for the value and its length. The name stays stored
  when the allocation of the value fails, although it has been freed.
\<close>

definition init_inode_xattr ::
  "bool \<Rightarrow> bool \<Rightarrow> bool \<Rightarrow> bool \<Rightarrow> label_struct \<Rightarrow> (string option \<times> u8 list option \<times> errno) outcome" where
  "init_inode_xattr kstrdup_ok kmalloc_ok want_name want_value l =
     (let mylen = (of_nat (cnt (secList l)) + of_nat (cnt (intList l)) :: u32) in
      if mylen = 0 then Ret (None, None, - EOPNOTSUPP)
      else if want_name \<and> \<not> kstrdup_ok then Ret (None, None, - ENOMEM)
      else let name = (if want_name then Some XATTR_DIFC_SUFFIX else None) in
        if want_value then
          if \<not> kmalloc_ok then Ret (name, None, - ENOMEM)
          else bindO (pack_difc_inode_xattr ((mylen + 2) * 8) l) (\<lambda>(_, bytes). Ret (name, Some bytes, 0))
        else Ret (name, None, 0))"

text \<open>The result has the inode's security structure, the stored name and value, and the return code.\<close>

definition difc_inode_init_security ::
  "bool \<Rightarrow> bool \<Rightarrow> bool \<Rightarrow> bool \<Rightarrow> task_struct \<Rightarrow> label_struct option \<Rightarrow> object_security_struct option \<Rightarrow>
   (object_security_struct option \<times> string option \<times> u8 list option \<times> errno) outcome" where
  "difc_inode_init_security kstrdup_ok kmalloc_ok want_name want_value cur lbl isec =
     (case isec of None \<Rightarrow> Oops BugOn
      | Some oss \<Rightarrow>
     (case security cur of None \<Rightarrow> Ret (isec, None, None, - EOPNOTSUPP)
      | Some tsec \<Rightarrow>
     bindO (case lbl of
         None \<Rightarrow> Ret (Some (label tsec))
       | Some input_label \<Rightarrow>
           bindO (check_allowed (Some (label tsec)) (Some input_label)) (\<lambda>a.
           bindO (check_label_replace (uid cur) (Some tsec) (Some (label tsec)) input_label) (\<lambda>b.
           Ret (if a = 0 \<and> b = 0 then Some input_label else None)))) (\<lambda>chosen.
     case chosen of
       None \<Rightarrow> Ret (isec, None, None, - EPERM)
     | Some l \<Rightarrow>
         bindO (init_inode_xattr kstrdup_ok kmalloc_ok want_name want_value l) (\<lambda>(name, val, rv).
         Ret (Some (oss\<lparr>obj_label := l\<rparr>), name, val, rv)))))"

definition MAY_EXEC :: u32 where "MAY_EXEC = 1"
definition MAY_WRITE :: u32 where "MAY_WRITE = 2"
definition MAY_READ :: u32 where "MAY_READ = 4"
definition MAY_APPEND :: u32 where "MAY_APPEND = 8"

lemmas may_defs = MAY_EXEC_def MAY_WRITE_def MAY_READ_def MAY_APPEND_def

text \<open>
  \<open>rv |= ...\<close> on the two results: both are 0 or \<open>-EPERM\<close>, so the disjunction of the words
  is nonzero, and then \<open>-EPERM\<close>, as soon as one is.
\<close>

definition or_rv :: "errno \<Rightarrow> errno \<Rightarrow> errno" where
  "or_rv a b = (a OR b)"

definition difc_inode_permission ::
  "task_struct \<Rightarrow> object_security_struct option \<Rightarrow> u32 \<Rightarrow> errno outcome" where
  "difc_inode_permission cur isec msk =
     (let unlabeled_inode = unlabeled_obj isec;
          (unlabeled_task, tsec) = task_get_labels cur in
      if unlabeled_task = 1 \<and> unlabeled_inode then Ret 0
      else bindO (if msk AND (MAY_READ OR MAY_EXEC) \<noteq> 0
                  then check_allowed (map_option obj_label isec) (map_option label tsec)
                  else Ret 0) (\<lambda>r.
           bindO (if msk AND MAY_WRITE = MAY_WRITE
                  then check_allowed (map_option label tsec) (map_option obj_label isec)
                  else Ret 0) (\<lambda>w.
           Ret (or_rv r w))))"

definition difc_file_permission ::
  "nat \<Rightarrow> task_struct \<Rightarrow> object_security_struct option \<Rightarrow> u32 \<Rightarrow>
   (object_security_struct option \<times> errno) outcome" where
  "difc_file_permission pid cur isec msk =
     (case isec of
        None \<Rightarrow> Ret (None, 0)
      | Some oss \<Rightarrow>
          (let (s1, granted) = down_read pid (label_change_sem oss);
               oss1 = oss\<lparr>label_change_sem := s1\<rparr> in
           if \<not> granted then Oops Sleeps
           else bindO (difc_inode_permission cur (Some oss1) msk) (\<lambda>rv.
             if rv \<noteq> 0 then bindO (up_read_sem s1) (\<lambda>s2. Ret (Some (oss1\<lparr>label_change_sem := s2\<rparr>), rv))
             else Ret (Some oss1, rv))))"

definition difc_file_rw_release :: "object_security_struct option \<Rightarrow> object_security_struct option outcome" where
  "difc_file_rw_release isec =
     (case isec of
        None \<Rightarrow> Ret None
      | Some oss \<Rightarrow> bindO (up_read_sem (label_change_sem oss)) (\<lambda>s. Ret (Some (oss\<lparr>label_change_sem := s\<rparr>))))"

definition difc_socket_connect :: "task_struct \<Rightarrow> errno outcome" where
  "difc_socket_connect cur =
     bindO (deref (security cur)) (\<lambda>tsec.
     Ret (if 0 \<noteq> cnt (secList (label tsec)) then 1 else 0))"

definition difc_inode_getattr :: "task_struct \<Rightarrow> object_security_struct option \<Rightarrow> errno outcome" where
  "difc_inode_getattr cur isec = difc_inode_permission cur isec MAY_READ"

definition difc_inode_setattr :: "task_struct \<Rightarrow> object_security_struct option \<Rightarrow> errno outcome" where
  "difc_inode_setattr cur isec = difc_inode_permission cur isec MAY_WRITE"

section \<open>Allocating labels\<close>

definition REGION_NONE :: int where "REGION_NONE = 0"
definition REGION_SELF :: int where "REGION_SELF = 1"
definition REGION_GROUP :: int where "REGION_GROUP = 2"

definition do_difc_alloc_label :: "bool \<Rightarrow> task_struct \<Rightarrow> capability_t \<Rightarrow> task_struct outcome" where
  "do_difc_alloc_label seg_ok tsk new_cap =
     (case security tsk of
        None \<Rightarrow> Oops BugOn
      | Some tsec \<Rightarrow>
          bindO (insert_cap seg_ok (capList tsec) new_cap) (\<lambda>segs.
          Ret (tsk\<lparr>security := Some (tsec\<lparr>capList := segs\<rparr>)\<rparr>)))"

primrec alloc_in_group :: "(nat \<Rightarrow> bool) \<Rightarrow> nat \<Rightarrow> task_struct list \<Rightarrow> capability_t \<Rightarrow> task_struct list outcome" where
  "alloc_in_group seg_ok i [] new_cap = Ret []"
| "alloc_in_group seg_ok i (t # ts) new_cap =
     bindO (do_difc_alloc_label (seg_ok i) t new_cap) (\<lambda>t'.
     bindO (alloc_in_group seg_ok (Suc i) ts new_cap) (\<lambda>ts'. Ret (t' # ts')))"

text \<open>
  \<open>tsk\<close> is the caller and \<open>others\<close> the rest of its thread group in the order of
  \<open>while_each_thread\<close>. The counter is the 32-bit \<open>cur_max_capability\<close>; the sum of
  \<open>atomic_inc_return\<close> and the masked \<open>type\<close> are \<open>int\<close> values widened with their sign.
\<close>

definition difc_alloc_label ::
  "(nat \<Rightarrow> bool) \<Rightarrow> u32 \<Rightarrow> int \<Rightarrow> u32 \<Rightarrow> task_struct \<Rightarrow> task_struct list \<Rightarrow>
   (u32 \<times> task_struct \<times> task_struct list \<times> label_t) outcome" where
  "difc_alloc_label seg_ok type region cur_max tsk others =
     (let cur_max' = cur_max + 1;
          new_cap = (scast cur_max' :: u64) OR scast (type AND (TYPE_PLUS OR TYPE_MINUS)) in
      bindO (if region = REGION_SELF then bindO (do_difc_alloc_label (seg_ok 0) tsk new_cap) (\<lambda>t. Ret (t, others))
             else if region = REGION_GROUP then
               bindO (do_difc_alloc_label (seg_ok 0) tsk new_cap) (\<lambda>t.
               bindO (alloc_in_group seg_ok 1 others new_cap) (\<lambda>ts. Ret (t, ts)))
             else Ret (tsk, others)) (\<lambda>(t, ts).
      Ret (cur_max', t, ts, new_cap AND CAP_LABEL_MASK)))"

section \<open>Setting labels\<close>

text \<open>
  The user's \<open>struct label_struct\<close>: 64 words, secrecy first. Nothing checks the two counts.
  \<open>None\<close> stands for a failed allocation or copy.
\<close>

definition difc_copy_user_label :: "bool \<Rightarrow> u64 list \<Rightarrow> label_struct option" where
  "difc_copy_user_label kmalloc_ok ubuf =
     (if kmalloc_ok \<and> 2 * LIST_WORDS \<le> length ubuf
      then Some \<lparr>secList = take LIST_WORDS ubuf, intList = take LIST_WORDS (drop LIST_WORDS ubuf)\<rparr>
      else None)"

definition difc_set_task_label ::
  "bool \<Rightarrow> u32 \<Rightarrow> label_t \<Rightarrow> int \<Rightarrow> int \<Rightarrow> u64 list \<Rightarrow> task_struct \<Rightarrow> (task_struct \<times> errno) outcome" where
  "difc_set_task_label kmalloc_ok cur_uid l op_type label_type bulk_label tsk =
     (if op_type = LABEL_OP_REPLACE then
        case difc_copy_user_label kmalloc_ok bulk_label of
          None \<Rightarrow> Ret (tsk, - ENOMEM)
        | Some ulabel \<Rightarrow>
            bindO (check_label_replace cur_uid (security tsk) (map_option label (security tsk)) ulabel) (\<lambda>rv.
            if rv = 0 then bindO (deref (security tsk)) (\<lambda>tsec.
              Ret (tsk\<lparr>security := Some (tsec\<lparr>label := ulabel\<rparr>)\<rparr>, 0))
            else Ret (tsk, rv))
      else
        bindO (do_difc_set_label (security tsk) (map_option label (security tsk)) l op_type label_type False)
          (\<lambda>(lbl, rv). case (security tsk, lbl) of
             (Some tsec, Some x) \<Rightarrow> Ret (tsk\<lparr>security := Some (tsec\<lparr>label := x\<rparr>)\<rparr>, rv)
           | _ \<Rightarrow> Ret (tsk, rv)))"

text \<open>The walk over the aliases: each parent directory must be writable, the first refusal ends it.\<close>

primrec parents_writable :: "task_struct \<Rightarrow> object_security_struct option list \<Rightarrow> errno outcome" where
  "parents_writable cur [] = Ret 0"
| "parents_writable cur (p # ps) =
     bindO (difc_inode_permission cur p MAY_WRITE) (\<lambda>rv.
     if rv \<noteq> 0 then Ret rv else parents_writable cur ps)"

definition difc_inode_set_label ::
  "bool \<Rightarrow> nat \<Rightarrow> u64 list \<Rightarrow> task_struct \<Rightarrow> object_security_struct option list \<Rightarrow>
   object_security_struct option \<Rightarrow> (object_security_struct option \<times> errno) outcome" where
  "difc_inode_set_label kmalloc_ok pid new_label cur parents isec =
     (case difc_copy_user_label kmalloc_ok new_label of
        None \<Rightarrow> Ret (isec, - ENOMEM)
      | Some ulabel \<Rightarrow>
          bindO (deref isec) (\<lambda>oss.
          let (s1, granted) = down_write pid (label_change_sem oss) in
          if \<not> granted then Oops Sleeps
          else bindO (check_label_replace (uid cur) (security cur) (Some (obj_label oss)) ulabel) (\<lambda>rv0.
          bindO (if rv0 = 0 then parents_writable cur parents else Ret rv0) (\<lambda>rv.
          bindO (up_write_sem s1) (\<lambda>s2.
          Ret (Some (oss\<lparr>obj_label := (if rv = 0 then ulabel else obj_label oss), label_change_sem := s2\<rparr>), rv))))))"

definition difc_replace_label_tcb ::
  "bool \<Rightarrow> u64 list \<Rightarrow> task_struct \<Rightarrow> (task_struct \<times> errno) outcome" where
  "difc_replace_label_tcb kmalloc_ok ubuf cur =
     bindO (deref (security cur)) (\<lambda>tsec.
     if tcb tsec = 0 then Ret (cur, - EPERM)
     else case difc_copy_user_label kmalloc_ok ubuf of
       None \<Rightarrow> Ret (cur, - ENOMEM)
     | Some ulabel \<Rightarrow> Ret (cur\<lparr>security := Some (tsec\<lparr>label := ulabel\<rparr>)\<rparr>, 0))"

text \<open>
  \<open>difc_pipe_full\<close> compares the arrays themselves with 0, that is, their addresses: the two
  lists are at offsets 0 and 256 of the structures at \<open>isec\<close> and \<open>tsec\<close>.
\<close>

definition difc_pipe_full :: "u32 \<Rightarrow> u32 \<Rightarrow> int" where
  "difc_pipe_full isec tsec =
     (if isec = 0 \<and> isec + 256 = 0 \<and> tsec = 0 \<and> tsec + 256 = 0 then 0 else 1)"

section \<open>What the label checks decide\<close>

text \<open>The polarity \<open>p\<close> of the capability \<open>task_find_capability\<close> finds for \<open>l\<close>.\<close>

definition has_cap :: "task_security_struct \<Rightarrow> label_t \<Rightarrow> polarity \<Rightarrow> bool" where
  "has_cap ts l p \<longleftrightarrow> (case find (\<lambda>c. cap_label c = l) (all_caps (capList ts)) of
     None \<Rightarrow> False | Some c \<Rightarrow> c AND pol_mask p \<noteq> 0)"

primrec op_of :: "polarity \<Rightarrow> int" where
  "op_of Plus = LABEL_OP_ADD"
| "op_of Minus = LABEL_OP_REMOVE"

lemma has_cap_authority: "has_cap ts l p \<Longrightarrow> (l, p) \<in> authority (capList ts)"
  by (auto simp: has_cap_def authority_def grants_def find_Some_iff split: option.splits)

lemma wf_taskD: "wf_task ts \<Longrightarrow> wf_label (label ts)" "wf_task ts \<Longrightarrow> wf_segs (capList ts)"
  "wf_task ts \<Longrightarrow> wf_segs (capSuspendList ts)"
  by (simp_all add: wf_task_def)

lemma do_set_label_guard:
  assumes "wf_task ts"
  shows "do_difc_set_label (Some ts) lbl l (op_of p) ty chk =
    (if has_cap ts l p then
       if chk then Ret (lbl, 0)
       else bindO (deref lbl) (\<lambda>x. bindO (case p of Plus \<Rightarrow> add_label x l ty | Minus \<Rightarrow> remove_label x l ty)
              (\<lambda>(x', rv). Ret (Some x', rv)))
     else Ret (lbl, - EPERM))"
  using task_find_capability_spec [OF wf_taskD(2) [OF assms], of l]
  by (cases p) (auto simp: do_difc_set_label_def has_cap_def LABEL_OP_ADD_def LABEL_OP_REMOVE_def
      split: option.splits)

text \<open>The result of a replace loop as a scan of the labels of the source list.\<close>

primrec scan :: "(label_t \<Rightarrow> errno option) \<Rightarrow> (label_t \<Rightarrow> bool) \<Rightarrow> label_t list \<Rightarrow> errno" where
  "scan guard ok [] = 0"
| "scan guard ok (l # ls) =
     (case guard l of Some r \<Rightarrow> r | None \<Rightarrow> if ok l then scan guard ok ls else - EPERM)"

lemma replace_loop_scan:
  assumes "wf_task ts" and "wf_arr src" and "wf_arr d" and "n = Suc (cnt src) - idx" and "0 < idx"
    and "idx \<le> Suc (cnt src)"
  shows "replace_loop guard (op_of p) ty (Some ts) old src (Some d) idx =
    Ret (scan guard (\<lambda>l. l \<in> set (entries d) \<or> has_cap ts l p) (drop (idx - 1) (entries src)))"
  using assms(4-6)
proof (induction n arbitrary: idx)
  case 0
  then show ?case using assms(2) by (simp add: replace_loop.simps)
next
  case (Suc n)
  then obtain i where i: "idx = Suc i" "i < cnt src" by (cases idx) auto
  let ?l = "entries src ! i" and ?S = "scan guard (\<lambda>l. l \<in> set (entries d) \<or> has_cap ts l p)"
  have dr: "drop i (entries src) = ?l # drop (Suc i) (entries src)"
    using i assms(2) by (simp add: Cons_nth_drop_Suc)
  have ih: "replace_loop guard (op_of p) ty (Some ts) old src (Some d) (Suc idx) = Ret (?S (drop (Suc i) (entries src)))"
    using Suc.IH [of "Suc idx"] Suc.prems i by simp
  obtain j where j: "find_from (\<lambda>x. ?l = x) d (Suc 0) = Ret j" "j \<le> cnt d \<longleftrightarrow> ?l \<in> set (entries d)"
    using member_test [OF assms(3)] by blast
  have "replace_loop guard (op_of p) ty (Some ts) old src (Some d) idx = Ret (?S (?l # drop (Suc i) (entries src)))"
    using i ih j rd_entry [OF assms(2) i(2)]
    by (subst replace_loop.simps)
       (auto simp: do_set_label_guard [OF assms(1)] EPERM_def split: option.splits)
  then show ?case using i dr by simp
qed

lemmas replace_loop_full = replace_loop_scan [OF _ _ _ refl, of _ _ _ "Suc 0", simplified]

lemma scan_no_guard: "scan (\<lambda>_. None) ok ls = (if \<forall>l \<in> set ls. ok l then 0 else - EPERM)"
  by (induction ls) auto

lemma scan_sec_guard:
  "scan (tcb_sec_guard u) ok ls = (if \<forall>l \<in> set ls. (l = LABEL_TCB \<longrightarrow> u = 0) \<and> ok l then 0 else - EPERM)"
  by (induction ls) (auto simp: tcb_sec_guard_def)

lemma scan_int_guard:
  "scan (tcb_int_guard u) ok ls =
    (if (\<forall>l \<in> set (takeWhile (\<lambda>l. l \<noteq> LABEL_TCB) ls). ok l) \<and> (LABEL_TCB \<in> set ls \<longrightarrow> u = 0) then 0 else - EPERM)"
proof (induction ls)
  case Nil
  then show ?case by simp
next
  case (Cons l ls)
  then show ?case by (cases "l = LABEL_TCB"; cases "ok l") (simp_all add: tcb_int_guard_def [of _ l] tcb_int_guard_def [of _ LABEL_TCB])
qed

definition may_replace :: "u32 \<Rightarrow> task_security_struct \<Rightarrow> label_struct \<Rightarrow> label_struct \<Rightarrow> bool" where
  "may_replace u ts old new \<longleftrightarrow>
     (\<forall>l \<in> secs new. (l = LABEL_TCB \<longrightarrow> u = 0) \<and> (l \<in> secs old \<or> has_cap ts l Plus))
   \<and> (\<forall>l \<in> secs old. l \<in> secs new \<or> has_cap ts l Minus)
   \<and> (\<forall>l \<in> set (takeWhile (\<lambda>l. l \<noteq> LABEL_TCB) (entries (intList new))). l \<in> ints old \<or> has_cap ts l Plus)
   \<and> (LABEL_TCB \<in> ints new \<longrightarrow> u = 0)
   \<and> (\<forall>l \<in> ints old. l \<in> ints new \<or> has_cap ts l Minus)"

lemma check_label_replace_spec:
  assumes "wf_task ts" and "wf_label old" and "wf_label new"
  shows "check_label_replace u (Some ts) (Some old) new = Ret (if may_replace u ts old new then 0 else - EPERM)"
proof -
  have wf: "wf_arr (secList old)" "wf_arr (intList old)" "wf_arr (secList new)" "wf_arr (intList new)"
    using assms by (auto simp: wf_label_def)
  define A where "A \<longleftrightarrow> (\<forall>l \<in> secs new. (l = LABEL_TCB \<longrightarrow> u = 0) \<and> (l \<in> secs old \<or> has_cap ts l Plus))"
  define B where "B \<longleftrightarrow> (\<forall>l \<in> secs old. l \<in> secs new \<or> has_cap ts l Minus)"
  define C where "C \<longleftrightarrow> (\<forall>l \<in> set (takeWhile (\<lambda>l. l \<noteq> LABEL_TCB) (entries (intList new))).
     l \<in> ints old \<or> has_cap ts l Plus) \<and> (LABEL_TCB \<in> ints new \<longrightarrow> u = 0)"
  define D where "D \<longleftrightarrow> (\<forall>l \<in> ints old. l \<in> ints new \<or> has_cap ts l Minus)"
  note adds = replace_loop_full [OF assms(1), where p = Plus, simplified op_of.simps]
    and removes = replace_loop_full [OF assms(1), where p = Minus, simplified op_of.simps]
  have "replace_loop (tcb_sec_guard u) LABEL_OP_ADD LABEL_TYPE_SEC (Some ts) (Some old) (secList new)
          (Some (secList old)) (Suc 0) = Ret (if A then 0 else - EPERM)"
    using wf by (simp add: adds scan_sec_guard A_def secs_def)
  moreover have "replace_loop (\<lambda>_. None) LABEL_OP_REMOVE LABEL_TYPE_SEC (Some ts) (Some old) (secList old)
          (Some (secList new)) (Suc 0) = Ret (if B then 0 else - EPERM)"
    using wf by (simp add: removes scan_no_guard B_def secs_def)
  moreover have "replace_loop (tcb_int_guard u) LABEL_OP_ADD LABEL_TYPE_INT (Some ts) (Some old) (intList new)
          (Some (intList old)) (Suc 0) = Ret (if C then 0 else - EPERM)"
    using wf by (simp add: adds scan_int_guard C_def ints_def)
  moreover have "replace_loop (\<lambda>_. None) LABEL_OP_REMOVE LABEL_TYPE_INT (Some ts) (Some old) (intList old)
          (Some (intList new)) (Suc 0) = Ret (if D then 0 else - EPERM)"
    using wf by (simp add: removes scan_no_guard D_def ints_def)
  moreover have "may_replace u ts old new \<longleftrightarrow> A \<and> B \<and> C \<and> D"
    by (simp add: may_replace_def A_def B_def C_def D_def)
  ultimately show ?thesis
    by (simp add: check_label_replace_def EPERM_def)
qed

section \<open>Effect of setting one label\<close>

lemma secs_list_of: "secs x = set (list_of x LABEL_TYPE_SEC)" and ints_list_of: "ints x = set (list_of x LABEL_TYPE_INT)"
  by (simp_all add: secs_def ints_def list_of_def LABEL_TYPE_SEC_def LABEL_TYPE_INT_def)

text \<open>How far a label change from \<open>old\<close> to \<open>new\<close> stays inside an authority.\<close>

definition change_within :: "(label_t \<times> polarity) set \<Rightarrow> label_struct \<Rightarrow> label_struct \<Rightarrow> bool" where
  "change_within A old new \<longleftrightarrow>
     (\<forall>l \<in> secs new - secs old \<union> (ints new - ints old). (l, Plus) \<in> A) \<and>
     (\<forall>l \<in> secs old - secs new \<union> (ints old - ints new). (l, Minus) \<in> A)"

lemma change_within_refl [simp]: "change_within A x x"
  by (simp add: change_within_def)

lemma add_label_within:
  assumes "wf_label x"
  obtains x' rv where "add_label x l ty = Ret (x', rv)" and "wf_label x'" and "rv \<noteq> 0 \<Longrightarrow> x' = x"
    and "(l, Plus) \<in> A \<Longrightarrow> change_within A x x'"
proof (cases "valid_type ty")
  case True
  from add_label_cases [OF assms True, of l] show thesis
  proof (elim disjE exE conjE)
    fix x'
    assume a: "add_label x l ty = Ret (x', 0)" "wf_label x'" "list_of x' ty = list_of x ty @ [l]"
      and o: "\<forall>ty'. ty' \<noteq> ty \<longrightarrow> valid_type ty' \<longrightarrow> list_of x' ty' = list_of x ty'"
    show thesis
      by (rule that [OF a(1,2)]) (use a(3) o True in
        \<open>auto simp: change_within_def secs_list_of ints_list_of valid_type_def LABEL_TYPE_SEC_def LABEL_TYPE_INT_def\<close>)
  qed (use that assms in auto)
next
  case False
  then show thesis using that assms by (simp add: add_label_def pick_list_invalid)
qed

lemma remove_label_within:
  assumes "wf_label x"
  obtains x' rv where "remove_label x l ty = Ret (x', rv)" and "wf_label x'" and "rv \<noteq> 0 \<Longrightarrow> x' = x"
    and "(l, Minus) \<in> A \<Longrightarrow> change_within A x x'"
proof (cases "valid_type ty")
  case True
  from remove_label_cases [OF assms True, of l] show thesis
  proof (elim disjE exE conjE)
    fix x'
    let ?i = "first_index (\<lambda>y. l = y) (list_of x ty)"
    assume a: "remove_label x l ty = Ret (x', 0)" "wf_label x'" "l \<in> set (list_of x ty)"
      "list_of x' ty = remove_nth ?i (list_of x ty)"
      and o: "\<forall>ty'. ty' \<noteq> ty \<longrightarrow> valid_type ty' \<longrightarrow> list_of x' ty' = list_of x ty'"
    have i: "?i < length (list_of x ty)" using a(3) by (simp add: first_index_less_iff)
    then have "list_of x ty ! ?i = l" using first_index_holds [of "\<lambda>y. l = y" "list_of x ty"] by simp
    then have "set (list_of x ty) \<subseteq> insert l (set (list_of x' ty))" "set (list_of x' ty) \<subseteq> set (list_of x ty)"
      using set_remove_nth [OF i] set_remove_nth_subset [of ?i "list_of x ty"] a(4) by auto
    then show thesis
      by (intro that [OF a(1,2)]) (use o True in
        \<open>auto simp: change_within_def secs_list_of ints_list_of valid_type_def LABEL_TYPE_SEC_def LABEL_TYPE_INT_def\<close>)
  qed (use that assms in auto)
next
  case False
  then show thesis using that assms by (simp add: remove_label_def pick_list_invalid)
qed

lemma do_set_label_other:
  assumes "wf_task ts" and "op \<noteq> LABEL_OP_ADD" and "op \<noteq> LABEL_OP_REMOVE"
  shows "\<exists>e < 0. do_difc_set_label (Some ts) lbl l op ty chk = Ret (lbl, e)"
  using task_find_capability_spec [OF wf_taskD(2) [OF assms(1)], of l] assms(2,3)
  by (auto simp: do_difc_set_label_def errno_defs split: option.splits)

lemma do_set_label_within:
  assumes "wf_task ts" and "wf_label x"
  obtains x' rv where "do_difc_set_label (Some ts) (Some x) l op ty False = Ret (Some x', rv)" and "wf_label x'"
    and "rv \<noteq> 0 \<Longrightarrow> x' = x" and "change_within (authority (capList ts)) x x'"
proof -
  let ?A = "authority (capList ts)"
  consider p where "op = op_of p" "has_cap ts l p" | p where "op = op_of p" "\<not> has_cap ts l p"
    | "op \<noteq> op_of Plus" "op \<noteq> op_of Minus"
    by blast
  then show thesis
  proof cases
    case (1 p)
    then have A: "(l, p) \<in> ?A" by (simp add: has_cap_authority)
    show thesis
    proof (cases p)
      case Plus
      obtain x' rv where "add_label x l ty = Ret (x', rv)" "wf_label x'" "rv \<noteq> 0 \<Longrightarrow> x' = x"
        "(l, Plus) \<in> ?A \<Longrightarrow> change_within ?A x x'"
        using add_label_within [OF assms(2), where l = l and ty = ty and A = ?A] by metis
      with 1 A Plus show thesis
        by (intro that) (simp_all add: do_set_label_guard [OF assms(1), where p = Plus, unfolded op_of.simps])
    next
      case Minus
      obtain x' rv where "remove_label x l ty = Ret (x', rv)" "wf_label x'" "rv \<noteq> 0 \<Longrightarrow> x' = x"
        "(l, Minus) \<in> ?A \<Longrightarrow> change_within ?A x x'"
        using remove_label_within [OF assms(2), where l = l and ty = ty and A = ?A] by metis
      with 1 A Minus show thesis
        by (intro that) (simp_all add: do_set_label_guard [OF assms(1), where p = Minus, unfolded op_of.simps])
    qed
  next
    case (2 p)
    with assms(2) show thesis by (intro that [of x "- EPERM"]) (simp_all add: do_set_label_guard [OF assms(1)])
  next
    case 3
    then obtain e where "do_difc_set_label (Some ts) (Some x) l op ty False = Ret (Some x, e)"
      using do_set_label_other [OF assms(1)] unfolding op_of.simps by blast
    with assms(2) show thesis by (intro that [of x e]) simp_all
  qed
qed

lemma may_replace_within:
  assumes "may_replace u ts old new" and "u \<noteq> 0"
  shows "change_within (authority (capList ts)) old new"
proof -
  have "LABEL_TCB \<notin> ints new" using assms by (simp add: may_replace_def)
  then have "takeWhile (\<lambda>l. l \<noteq> LABEL_TCB) (entries (intList new)) = entries (intList new)"
    by (auto simp: ints_def takeWhile_eq_all_conv)
  with assms(1) show ?thesis
    by (auto simp: may_replace_def change_within_def ints_def [of new] intro: has_cap_authority)
qed

section \<open>Permission checks and their lock\<close>

definition access_ok :: "u32 \<Rightarrow> label_struct \<Rightarrow> label_struct \<Rightarrow> bool" where
  "access_ok msk task_lbl obj_lbl \<longleftrightarrow>
     (msk AND (MAY_READ OR MAY_EXEC) \<noteq> 0 \<longrightarrow> can_flow obj_lbl task_lbl) \<and>
     (msk AND MAY_WRITE = MAY_WRITE \<longrightarrow> can_flow task_lbl obj_lbl)"

lemma unlabeled_can_flow:
  assumes "wf_label a" and "wf_label b" and "cnt (secList a) = 0" and "cnt (intList b) = 0"
  shows "can_flow a b"
  using assms by (simp add: can_flow_def secs_def ints_def wf_label_def)

lemma or_rv_simps [simp]: "or_rv 0 x = x" "or_rv x 0 = x" "or_rv x x = x"
  by (simp_all add: or_rv_def)

lemma inode_permission_spec:
  assumes "security cur = Some ts" and "wf_label (label ts)" and "wf_label (obj_label oss)"
  shows "difc_inode_permission cur (Some oss) msk = Ret (if access_ok msk (label ts) (obj_label oss) then 0 else - EPERM)"
proof (cases "unlabeled_obj (Some oss) \<and> fst (task_get_labels cur) = 1")
  case True
  then have "can_flow (label ts) (obj_label oss)" "can_flow (obj_label oss) (label ts)"
    using assms by (auto simp: unlabeled_obj_def task_get_labels_def intro!: unlabeled_can_flow split: if_splits)
  with True assms(1) show ?thesis
    by (auto simp: difc_inode_permission_def access_ok_def task_get_labels_def split: if_splits)
next
  case False
  then show ?thesis
    using assms(1) by (auto simp: difc_inode_permission_def access_ok_def task_get_labels_def
        check_allowed_Some [OF assms(2,3)] check_allowed_Some [OF assms(3,2)] Let_def)
qed

lemma read_side: "read_open s \<Longrightarrow> \<exists>s'. down_read p s = (s', True) \<and> up_read_sem s' = Ret s"
  using rd_side.acquire_open [of 0 s p] rd_side.release_undoes [of 0 s p]
  by (cases "down_read p s") (auto simp: read_open_def)

lemma file_permission_spec:
  assumes "security cur = Some ts" and "wf_label (label ts)" and "wf_label (obj_label oss)"
    and "read_open (label_change_sem oss)"
  shows "\<exists>oss'. difc_file_permission pid cur (Some oss) msk =
      Ret (if access_ok msk (label ts) (obj_label oss) then (Some oss', 0) else (Some oss, - EPERM))
    \<and> obj_label oss' = obj_label oss \<and> fst (down_read pid (label_change_sem oss)) = label_change_sem oss'
    \<and> difc_file_rw_release (Some oss') = Ret (Some oss)"
proof -
  obtain s' where s': "down_read pid (label_change_sem oss) = (s', True)" "up_read_sem s' = Ret (label_change_sem oss)"
    using read_side [OF assms(4)] by blast
  have "difc_inode_permission cur (Some (oss\<lparr>label_change_sem := s'\<rparr>)) msk
      = Ret (if access_ok msk (label ts) (obj_label oss) then 0 else - EPERM)"
    using inode_permission_spec [OF assms(1,2), of "oss\<lparr>label_change_sem := s'\<rparr>"] assms(3) by simp
  with s' show ?thesis
    by (intro exI [of _ "oss\<lparr>label_change_sem := s'\<rparr>"])
      (simp add: difc_file_permission_def difc_file_rw_release_def EPERM_def)
qed

section \<open>Labelling a new inode\<close>

lemma init_inode_xattr_spec:
  assumes "wf_label l"
  shows "init_inode_xattr True True True True l = Ret
    (if cnt (secList l) = 0 \<and> cnt (intList l) = 0 then (None, None, - EOPNOTSUPP)
     else (Some ''difc'', Some (arr_bytes (used (secList l) @ used (intList l))), 0))"
proof -
  let ?n = "cnt (secList l) + cnt (intList l)"
  have b: "?n \<le> 62" using assms by (auto simp: wf_label_def dest!: wf_arrD)
  have u: "unat (of_nat ?n :: u32) = ?n" by (rule unat_small) (use b in simp)
  have "(of_nat ?n + 2) * 8 = (of_nat (8 * (?n + 2)) :: u32)" by (simp add: algebra_simps)
  moreover have "unat (of_nat (8 * (?n + 2)) :: u32) = 8 * (?n + 2)" by (rule unat_small) (use b in simp)
  ultimately have p: "pack_difc_inode_xattr ((of_nat ?n + 2) * 8) l
      = Ret (int (8 * (?n + 2)), arr_bytes (used (secList l) @ used (intList l)))"
    using pack_spec [OF assms refl, of "(of_nat ?n + 2) * 8"] by (simp only:) simp
  have "(of_nat ?n :: u32) = 0 \<longleftrightarrow> ?n = 0" using u by (metis unat_eq_zero)
  with p show ?thesis
    by (auto simp: init_inode_xattr_def Let_def XATTR_DIFC_SUFFIX_def simp flip: of_nat_add)
qed

end
