(* ===== verification/Difc_Props.thy ===== *)
theory Difc_Props
  imports Difc
begin

text \<open>
  The guarantees of the DIFC hooks of \<^verbatim>\<open>security/difc.c\<close>: what a label change needs, what
  an access needs and how it leaves the label semaphore, which label a new inode gets,
  that an allocated label is new, and the places where the code falls short of this.
\<close>

section \<open>Label allocation\<close>

lemma high_bits_zero: "x < 2 ^ 30 \<Longrightarrow> 30 \<le> n \<Longrightarrow> \<not> bit (x :: u32) n"
proof -
  assume a: "x < 2 ^ 30" "30 \<le> n"
  then have "unat x < 2 ^ 30" by (simp add: word_less_nat_alt)
  then have "take_bit 30 (unat x) = unat x" by (rule take_bit_nat_eq_self)
  then have "\<not> bit (unat x) n" using a(2) by (metis bit_take_bit_iff not_le)
  then show ?thesis by (simp add: bit_unsigned_iff)
qed

text \<open>The capability word built from the counter \<open>x\<close> and the requested \<open>type\<close>.\<close>

abbreviation new_cap :: "u32 \<Rightarrow> u32 \<Rightarrow> capability_t" where
  "new_cap x type \<equiv> scast x OR scast (type AND (TYPE_PLUS OR TYPE_MINUS))"

lemma type_mask: "TYPE_PLUS OR TYPE_MINUS = NOT (mask 30 :: u32)"
  by (simp add: TYPE_PLUS_def TYPE_MINUS_def mask_eq_exp_minus_1)

lemma cap_masks_as_masks:
  "CAP_LABEL_MASK = mask 30" "CAP_PLUS_MASK = push_bit 30 1" "CAP_MINUS_MASK = NOT (mask 31)"
  by (simp_all add: cap_masks mask_eq_exp_minus_1)

lemma new_cap_label: "x < 2 ^ 30 \<Longrightarrow> cap_label (new_cap x type) = ucast x"
  unfolding type_mask cap_masks_as_masks
proof (rule bit_word_eqI)
  fix n
  assume x: "x < 2 ^ 30" and "n < LENGTH(64)"
  show "bit ((scast x OR scast (type AND NOT (mask 30)) :: u64) AND mask 30) n = bit (ucast x :: u64) n"
    using high_bits_zero [OF x, of n] by (cases "n < 30") (auto simp: bit_simps min_def)
qed

lemma new_cap_bit30: "x < 2 ^ 30 \<Longrightarrow> bit (new_cap x type) 30 = bit type 30"
  unfolding type_mask using high_bits_zero [of x 30] by (simp add: bit_simps)

lemma new_cap_bit31: "x < 2 ^ 30 \<Longrightarrow> 31 \<le> n \<Longrightarrow> n < 64 \<Longrightarrow> bit (new_cap x type) n = bit type 31"
  unfolding type_mask using high_bits_zero [of x 31] by (auto simp: bit_simps min_def)

primrec type_bit :: "polarity \<Rightarrow> nat" where
  "type_bit Plus = 30"
| "type_bit Minus = 31"

lemma new_cap_polarity:
  assumes "x < 2 ^ 30"
  shows "new_cap x type AND pol_mask p \<noteq> 0 \<longleftrightarrow> bit type (type_bit p)"
proof (cases p)
  case Plus
  have "new_cap x type AND push_bit 30 1 \<noteq> 0 \<longleftrightarrow> bit (new_cap x type) 30"
    by (metis and_exp_eq_0_iff_not_bit push_bit_of_1)
  with Plus show ?thesis
    using new_cap_bit30 [OF assms, of type] by (simp only: pol_mask.simps cap_masks_as_masks type_bit.simps)
next
  case Minus
  have "new_cap x type AND NOT (mask 31) \<noteq> 0 \<longleftrightarrow> (\<exists>n. 31 \<le> n \<and> n < 64 \<and> bit (new_cap x type) n)"
    by (auto simp only: bit_eq_iff bit_and_iff bit_not_iff bit_mask_iff bit_0_eq bot_apply possible_bit_word
        len_of_numeral_defs) auto
  also have "\<dots> \<longleftrightarrow> bit type 31" using new_cap_bit31 [OF assms] by (auto intro: exI [of _ 31])
  finally show ?thesis using Minus by (simp only: pol_mask.simps cap_masks_as_masks type_bit.simps)
qed

text \<open>The authority a task holds, active or suspended, and the invariant of the counter.\<close>

definition held :: "task_struct \<Rightarrow> (label_t \<times> polarity) set" where
  "held t = (case security t of None \<Rightarrow> {}
     | Some ts \<Rightarrow> authority (capList ts) \<union> authority (capSuspendList ts))"

definition has_task :: "task_struct \<Rightarrow> bool" where
  "has_task t \<longleftrightarrow> (\<exists>ts. security t = Some ts \<and> wf_task ts)"

definition requested :: "u32 \<Rightarrow> polarity set" where
  "requested type = {p. bit type (type_bit p)}"

lemma unat_ucast64: "unat (ucast (n :: u32) :: u64) = unat n"
proof -
  have "unat n < 2 ^ LENGTH(32)" by (rule unsigned_less)
  then have "unat n < 2 ^ 64" by simp
  then show ?thesis by (simp add: unsigned_ucast_eq take_bit_nat_eq_self)
qed

lemma authority_insert:
  "set (all_caps B) = insert c (set (all_caps A)) \<Longrightarrow> authority B = authority A \<union> {(l, p). grants c l p}"
  by (auto simp: authority_def)

lemma do_alloc_spec:
  assumes "has_task t" and "x < 2 ^ 30"
  obtains t' where "do_difc_alloc_label True t (new_cap x type) = Ret t'" and "held t' = held t \<union> {ucast x} \<times> requested type"
proof -
  obtain ts where ts: "security t = Some ts" "wf_task ts" using assms(1) by (auto simp: has_task_def)
  obtain B where B: "insert_cap True (capList ts) (new_cap x type) = Ret B"
    "set (all_caps B) = insert (new_cap x type) (set (all_caps (capList ts)))"
    using insert_cap_returns [OF wf_taskD(2) [OF ts(2)]] insert_cap_spec [OF wf_taskD(2) [OF ts(2)]] by blast
  have "{(l, p). grants (new_cap x type) l p} = {ucast x} \<times> requested type"
    by (auto simp: grants_def requested_def new_cap_label [OF assms(2)] new_cap_polarity [OF assms(2)])
  then have "held (t\<lparr>security := Some (ts\<lparr>capList := B\<rparr>)\<rparr>) = held t \<union> {ucast x} \<times> requested type"
    using ts(1) authority_insert [OF B(2)] by (auto simp: held_def)
  then show thesis
    using ts(1) B(1) by (intro that [of "t\<lparr>security := Some (ts\<lparr>capList := B\<rparr>)\<rparr>"]) (simp_all add: do_difc_alloc_label_def)
qed

lemma alloc_in_group_spec:
  assumes "x < 2 ^ 30" and "\<forall>t \<in> set ts. has_task t"
  shows "\<exists>ts'. alloc_in_group (\<lambda>_. True) i ts (new_cap x type) = Ret ts'
    \<and> list_all2 (\<lambda>t t'. held t' = held t \<union> {ucast x} \<times> requested type) ts ts'"
  using assms(2)
proof (induction ts arbitrary: i)
  case Nil
  then show ?case by simp
next
  case (Cons t ts)
  obtain t' where t': "do_difc_alloc_label True t (new_cap x type) = Ret t'" "held t' = held t \<union> {ucast x} \<times> requested type"
    using do_alloc_spec [OF _ assms(1)] Cons.prems by (metis list.set_intros(1))
  with Cons.IH [of "Suc i"] Cons.prems show ?case by auto
qed

text \<open>What one request changes: the caller gains the requested polarities of the label if the region is
  itself or its group, the other threads if it is the group.\<close>

definition handed_out ::
  "u32 \<times> int \<times> task_struct \<times> task_struct list \<Rightarrow> task_struct \<times> task_struct list \<times> label_t \<Rightarrow> bool" where
  "handed_out req out = (case (req, out) of ((type, region, t, ts), (t', ts', l)) \<Rightarrow>
     held t' = held t \<union> (if region \<in> {REGION_SELF, REGION_GROUP} then {l} \<times> requested type else {}) \<and>
     list_all2 (\<lambda>a a'. held a' = held a \<union> (if region = REGION_GROUP then {l} \<times> requested type else {})) ts ts')"

lemma alloc_one:
  assumes "unat m + 1 < 2 ^ 30" "\<forall>t \<in> set (tsk # others). has_task t"
  shows "\<exists>tsk' others'. difc_alloc_label (\<lambda>_. True) type region m tsk others = Ret (m + 1, tsk', others', ucast (m + 1))
    \<and> handed_out (type, region, tsk, others) (tsk', others', ucast (m + 1))"
proof -
  have x: "m + 1 < 2 ^ 30" using assms(1) by (simp add: word_less_nat_alt unat_word_ariths)
  obtain t' where t': "do_difc_alloc_label True tsk (new_cap (m + 1) type) = Ret t'"
    "held t' = held tsk \<union> {ucast (m + 1)} \<times> requested type"
    using do_alloc_spec [OF _ x] assms(2) by (metis list.set_intros(1))
  obtain ts' where ts': "alloc_in_group (\<lambda>_. True) 1 others (new_cap (m + 1) type) = Ret ts'"
    "list_all2 (\<lambda>t t'. held t' = held t \<union> {ucast (m + 1)} \<times> requested type) others ts'"
    using alloc_in_group_spec [OF x, of others 1 type] assms(2) by auto
  have same: "list_all2 (\<lambda>t t'. held t' = held t) others others" by (simp add: list_all2_same)
  consider "region = REGION_SELF" | "region = REGION_GROUP" | "region \<notin> {REGION_SELF, REGION_GROUP}" by blast
  then show ?thesis
    using t' ts' same
    by cases (simp_all add: difc_alloc_label_def handed_out_def new_cap_label [OF x] Let_def REGION_SELF_def REGION_GROUP_def)
qed

text \<open>Requests one after the other; each has the state of its caller and thread group, whatever
  happened to them in between. Only the counter is shared.\<close>

primrec alloc_run ::
  "u32 \<Rightarrow> (u32 \<times> int \<times> task_struct \<times> task_struct list) list \<Rightarrow> (u32 \<times> (task_struct \<times> task_struct list \<times> label_t) list) outcome" where
  "alloc_run m [] = Ret (m, [])"
| "alloc_run m (r # rs) =
     (case r of (type, region, tsk, others) \<Rightarrow>
        bindO (difc_alloc_label (\<lambda>_. True) type region m tsk others) (\<lambda>(m1, t', ts', l).
        bindO (alloc_run m1 rs) (\<lambda>(m2, outs). Ret (m2, (t', ts', l) # outs))))"

lemma alloc_run_spec:
  assumes "unat m + length rs < 2 ^ 30" "\<forall>(type, region, t, ts) \<in> set rs. \<forall>a \<in> set (t # ts). has_task a"
  shows "\<exists>outs. alloc_run m rs = Ret (m + of_nat (length rs), outs) \<and> list_all2 handed_out rs outs \<and>
    map (\<lambda>(t, ts, l). unat l) outs = [Suc (unat m)..<Suc (unat m + length rs)]"
  using assms
proof (induction rs arbitrary: m)
  case Nil
  then show ?case by simp
next
  case (Cons r rs)
  obtain type region tsk others where r: "r = (type, region, tsk, others)" by (cases r) auto
  obtain t' ts' where a: "difc_alloc_label (\<lambda>_. True) type region m tsk others = Ret (m + 1, t', ts', ucast (m + 1))"
    "handed_out r (t', ts', ucast (m + 1))"
    using alloc_one [of m tsk others type region] Cons.prems r by auto
  have u: "unat (m + 1) = Suc (unat m)" using Cons.prems(1) by (simp add: unat_word_ariths)
  then obtain outs where o: "alloc_run (m + 1) rs = Ret (m + 1 + of_nat (length rs), outs)" "list_all2 handed_out rs outs"
    "map (\<lambda>(t, ts, l). unat l) outs = [Suc (Suc (unat m))..<Suc (Suc (unat m) + length rs)]"
    using Cons.IH [of "m + 1"] Cons.prems by auto
  have "map (\<lambda>(t, ts, l). unat l) ((t', ts', ucast (m + 1) :: u64) # outs) = [Suc (unat m)..<Suc (unat m + length (r # rs))]"
    using o(3) u by (simp add: unat_ucast64 upt_conv_Cons del: upt_Suc)
  moreover have "alloc_run m (r # rs) = Ret (m + of_nat (length (r # rs)), (t', ts', ucast (m + 1)) # outs)"
    using r a(1) o(1) by (simp add: add.assoc)
  ultimately show ?case using a(2) o(2) by (intro exI [of _ "(t', ts', ucast (m + 1)) # outs"]) simp
qed

text \<open>Concrete tasks and inodes for the instances.\<close>

definition sample_user :: task_struct where
  "sample_user = \<lparr>uid = 1000, security = Some sample_task\<rparr>"

lemma sample_user_simps [simp]: "security sample_user = Some sample_task" "uid sample_user = 1000"
  by (simp_all add: sample_user_def)

lemma sample_user_task: "has_task sample_user"
  by (simp add: has_task_def)

text \<open>C31: No label is handed out twice. For any sequence of allocations by any well-formed tasks, as
  long as the counter stays below \<open>2^30\<close>, every call returns a label; the labels are pairwise
  distinct, above the counter at the beginning and never that of the TCB; and each call gives
  exactly the requested polarities of its label, to the caller when the region is itself or
  its group, and to the other threads only when it is the group.
\<close>

theorem alloc_labels_unique:
  assumes "unat m + length rs < 2 ^ 30" and "\<forall>(type, region, t, ts) \<in> set rs. \<forall>a \<in> set (t # ts). has_task a"
  shows "\<exists>outs. alloc_run m rs = Ret (m + of_nat (length rs), outs) \<and> list_all2 handed_out rs outs \<and>
    distinct (map (\<lambda>(t, ts, l). l) outs) \<and>
    (\<forall>(t, ts, l) \<in> set outs. unat m < unat l \<and> unat l < 2 ^ 30 \<and> l \<noteq> LABEL_TCB)"
proof -
  obtain outs where o: "alloc_run m rs = Ret (m + of_nat (length rs), outs)" "list_all2 handed_out rs outs"
    "map (\<lambda>(t, ts, l). unat l) outs = [Suc (unat m)..<Suc (unat m + length rs)]"
    using alloc_run_spec [OF assms] by blast
  have u: "map unat (map (\<lambda>(t, ts, l). l) outs) = map (\<lambda>(t, ts, l). unat l) outs" by auto
  have "distinct (map unat (map (\<lambda>(t, ts, l). l) outs))" unfolding u o(3) by simp
  then have d: "distinct (map (\<lambda>(t, ts, l). l) outs)" by (simp only: distinct_map)
  have "unat m < unat l \<and> unat l < 2 ^ 30 \<and> l \<noteq> LABEL_TCB" if "(t, ts, l) \<in> set outs" for t ts l
  proof -
    have "unat l \<in> set (map (\<lambda>(t, ts, l). unat l) outs)" using that by force
    then have "unat m < unat l \<and> unat l < 2 ^ 30" unfolding o(3) using assms(1) by auto
    then show ?thesis by (auto simp: LABEL_TCB_def)
  qed
  then show ?thesis using o d by blast
qed

theorem alloc_labels_unique_witness:
  "\<exists>outs. alloc_run 5 [(TYPE_PLUS, REGION_SELF, sample_user, []), (TYPE_PLUS, REGION_SELF, sample_user, [])] = Ret (7, outs) \<and>
     distinct (map (\<lambda>(t, ts, l). l) outs)"
  using alloc_labels_unique [of 5 "[(TYPE_PLUS, REGION_SELF, sample_user, []), (TYPE_PLUS, REGION_SELF, sample_user, [])]"]
    sample_user_task by auto

text \<open>C40: The counter is not bounded: after the last 30-bit label the next allocation returns
  label 0, reserved for the TCB, and a request for any type with region \<open>REGION_SELF\<close> gives
  the caller the plus polarity of that label.
\<close>

theorem alloc_label_overflows_to_tcb:
  assumes "security tsk = Some ts" and "wf_task ts"
  shows "\<exists>tsk'. difc_alloc_label (\<lambda>_. True) type REGION_SELF (2 ^ 30 - 1) tsk others
      = Ret (2 ^ 30, tsk', others, LABEL_TCB) \<and> (LABEL_TCB, Plus) \<in> held tsk'"
proof -
  let ?c = "new_cap (2 ^ 30) type"
  have s: "scast (2 ^ 30 :: u32) = CAP_PLUS_MASK" by (simp add: cap_masks)
  have "scast (type AND NOT (mask 30) :: u32) AND (mask 30 :: u64) = 0"
    by (rule bit_word_eqI) (auto simp: bit_simps min_def)
  then have "cap_label ?c = LABEL_TCB"
    unfolding s type_mask by (simp add: bit.conj_disj_distrib2 cap_bits LABEL_TCB_def flip: cap_masks_as_masks(1))
  moreover have "?c AND CAP_PLUS_MASK \<noteq> 0"
    unfolding s by (simp add: bit.conj_disj_distrib2 or_eq_0_iff cap_masks)
  ultimately have g: "grants ?c LABEL_TCB Plus" by (simp add: grants_def)
  obtain B where B: "insert_cap True (capList ts) ?c = Ret B"
    "set (all_caps B) = insert ?c (set (all_caps (capList ts)))"
    using insert_cap_returns [OF wf_taskD(2) [OF assms(2)]] insert_cap_spec [OF wf_taskD(2) [OF assms(2)]] by blast
  have "(2 ^ 30 - 1 :: u32) + 1 = 2 ^ 30" by simp
  then show ?thesis
    using B g assms(1) \<open>cap_label ?c = LABEL_TCB\<close> authority_insert [OF B(2)]
    by (simp add: difc_alloc_label_def do_difc_alloc_label_def held_def Let_def del: power_numeral)
qed

theorem alloc_label_overflows_to_tcb_witness:
  "security sample_user = Some sample_task \<and> wf_task sample_task \<and>
   (\<exists>t'. difc_alloc_label (\<lambda>_. True) TYPE_MINUS REGION_SELF (2 ^ 30 - 1) sample_user [] = Ret (2 ^ 30, t', [], LABEL_TCB)
      \<and> (LABEL_TCB, Plus) \<in> held t')"
  using alloc_label_overflows_to_tcb [of sample_user sample_task TYPE_MINUS "[]"] by simp

section \<open>Changing labels\<close>

text \<open>\<open>check_label_replace\<close> on well-formed labels answers 0 exactly when: each secrecy label
  added has a plus capability and is the TCB label only for root; each label removed has a
  minus capability; each integrity label added before the TCB label has a plus capability,
  and the TCB label is in the new integrity list only for root. Otherwise it answers
  \<open>-EPERM\<close>; it always returns.
\<close>

lemma check_label_replace_decides:
  assumes "wf_task ts" and "wf_label old" and "wf_label new"
  shows "check_label_replace u (Some ts) (Some old) new = Ret
    (if (\<forall>l \<in> secs new. (l = LABEL_TCB \<longrightarrow> u = 0) \<and> (l \<in> secs old \<or> has_cap ts l Plus))
      \<and> (\<forall>l \<in> secs old. l \<in> secs new \<or> has_cap ts l Minus)
      \<and> (\<forall>l \<in> set (takeWhile (\<lambda>l. l \<noteq> LABEL_TCB) (entries (intList new))). l \<in> ints old \<or> has_cap ts l Plus)
      \<and> (LABEL_TCB \<in> ints new \<longrightarrow> u = 0)
      \<and> (\<forall>l \<in> ints old. l \<in> ints new \<or> has_cap ts l Minus)
     then 0 else - EPERM)"
  using check_label_replace_spec [OF assms, of u] unfolding may_replace_def .

lemma check_label_replace_decides_example:
  "wf_task sample_task \<and> wf_label (mk_label [] []) \<and> wf_label (mk_label [5] []) \<and>
   check_label_replace 1000 (Some sample_task) (Some (mk_label [] [])) (mk_label [5] []) = Ret 0"
proof -
  have "has_cap sample_task 5 Plus" by (simp add: has_cap_def)
  then show ?thesis
    using check_label_replace_decides [of sample_task "mk_label [] []" "mk_label [5] []" 1000]
    by (simp add: LABEL_TCB_def ints_def [of "mk_label [5] []"] LIST_MAX_ENTRIES_def)
qed

text \<open>C3: A task that is not root changes its label only within its capabilities. For every
  operation (add, remove, replace or an invalid one) \<open>difc_set_task_label\<close> returns, keeps
  the task well formed, its capability lists and TCB flag unchanged; every label that
  appears has the plus polarity in the active list, every label that disappears the minus
  polarity; and on an error the task is unchanged. The replacement label must be
  well formed, which the code does not check.
\<close>

theorem set_task_label_within_authority:
  assumes "security tsk = Some ts" and "wf_task ts" and "u \<noteq> 0"
    and "\<And>ul. difc_copy_user_label kok bulk = Some ul \<Longrightarrow> wf_label ul"
  shows "\<exists>ts' rv. difc_set_task_label kok u l op ty bulk tsk = Ret (tsk\<lparr>security := Some ts'\<rparr>, rv)
    \<and> wf_task ts' \<and> capList ts' = capList ts \<and> capSuspendList ts' = capSuspendList ts \<and> tcb ts' = tcb ts
    \<and> change_within (authority (capList ts)) (label ts) (label ts') \<and> (rv \<noteq> 0 \<longrightarrow> ts' = ts)"
proof (cases "op = LABEL_OP_REPLACE")
  case True
  show ?thesis
  proof (cases "difc_copy_user_label kok bulk")
    case None
    with True assms(1,2) show ?thesis
      by (intro exI [of _ ts]) (simp add: difc_set_task_label_def ENOMEM_def)
  next
    case (Some ul)
    note spec = check_label_replace_spec [OF assms(2) wf_taskD(1) [OF assms(2)] assms(4) [OF Some], of u]
    show ?thesis
    proof (cases "may_replace u ts (label ts) ul")
      case yes: True
      with True Some assms spec may_replace_within [OF yes assms(3)] show ?thesis
        by (intro exI [of _ "ts\<lparr>label := ul\<rparr>"]) (simp add: difc_set_task_label_def wf_task_def)
    next
      case False
      with True Some assms spec show ?thesis
        by (intro exI [of _ ts]) (simp add: difc_set_task_label_def EPERM_def)
    qed
  qed
next
  case False
  obtain x' rv where x': "do_difc_set_label (Some ts) (Some (label ts)) l op ty False = Ret (Some x', rv)" "wf_label x'"
    "rv \<noteq> 0 \<Longrightarrow> x' = label ts" "change_within (authority (capList ts)) (label ts) x'"
    using do_set_label_within [OF assms(2) wf_taskD(1) [OF assms(2)], where l = l and op = op and ty = ty] by metis
  with False assms(1,2) show ?thesis
    by (intro exI [of _ "ts\<lparr>label := x'\<rparr>"]) (auto simp: difc_set_task_label_def wf_task_def)
qed

theorem set_task_label_within_authority_witness:
  "security sample_user = Some sample_task \<and> wf_task sample_task \<and> (1000 :: u32) \<noteq> 0 \<and>
   (\<exists>ts' rv. difc_set_task_label True 1000 9 LABEL_OP_ADD LABEL_TYPE_SEC [] sample_user
       = Ret (sample_user\<lparr>security := Some ts'\<rparr>, rv)
     \<and> change_within (authority (capList sample_task)) (label sample_task) (label ts'))"
  using set_task_label_within_authority [of sample_user sample_task 1000 True "[]" 9 LABEL_OP_ADD LABEL_TYPE_SEC]
  by (auto simp: difc_copy_user_label_def LIST_WORDS_def)

text \<open>For root the integrity check stops at the TCB label. A root task with no capability at
  all may replace an empty label by one whose integrity list has the TCB label first and
  then any other labels.
\<close>

lemma replace_after_tcb_unchecked:
  assumes "wf_label (label ts)" and "capList ts = []" and "capSuspendList ts = []"
    and "secs (label ts) = {}" and "ints (label ts) = {}" and "length ls \<le> 30"
  shows "check_label_replace 0 (Some ts) (Some (label ts)) (mk_label [] (LABEL_TCB # ls)) = Ret 0"
proof -
  have wf: "wf_task ts" "wf_label (mk_label [] (LABEL_TCB # ls))"
    using assms by (simp_all add: wf_task_def LIST_MAX_ENTRIES_def LIST_WORDS_def)
  have "entries (intList (mk_label [] (LABEL_TCB # ls))) = LABEL_TCB # ls"
    using assms(6) by (simp add: LIST_MAX_ENTRIES_def)
  then show ?thesis
    using check_label_replace_spec [OF wf(1) assms(1) wf(2), of 0] assms(4-6)
    by (simp add: may_replace_def)
qed

lemma replace_after_tcb_unchecked_example:
  "check_label_replace 0 (Some zero_tsec) (Some (label zero_tsec)) (mk_label [] (LABEL_TCB # [7, 8])) = Ret 0"
proof -
  have "wf_label empty_label" "secs empty_label = {}" "ints empty_label = {}"
    by (simp_all add: empty_label_def wf_label_def secs_def ints_def)
  then show ?thesis using replace_after_tcb_unchecked [of zero_tsec "[7, 8]"] by (simp add: zero_tsec_def)
qed

section \<open>Access\<close>

text \<open>An inode with secrecy label 5 and an unused semaphore.\<close>

definition sample_obj :: object_security_struct where
  "sample_obj = \<lparr>obj_label = mk_label [5] [], label_change_sem = init_rwsem\<rparr>"

lemma sample_obj_simps [simp]:
  "obj_label sample_obj = mk_label [5] []" "read_open (label_change_sem sample_obj)" "wf_label (obj_label sample_obj)"
  by (simp_all add: sample_obj_def read_open_def read_room_def init_rwsem_def LIST_MAX_ENTRIES_def)

text \<open>C2: \<open>difc_file_permission\<close> allows an access exactly when the flow order does and keeps the
  label semaphore balanced. With no writer on the semaphore and room in its counter it
  returns 0 if reading and executing let the inode's label flow to the task's and writing the task's to the inode's;
  then the semaphore is held for reading, the label is unchanged, and
  \<open>difc_file_rw_release\<close> restores the very state before the call. Otherwise it returns
  \<open>-EPERM\<close> and has already restored that state itself.
\<close>

theorem file_permission_balanced:
  assumes "security cur = Some ts" and "wf_label (label ts)" and "wf_label (obj_label oss)"
    and "read_open (label_change_sem oss)"
  shows "if (msk AND (MAY_READ OR MAY_EXEC) \<noteq> 0 \<longrightarrow> can_flow (obj_label oss) (label ts))
        \<and> (msk AND MAY_WRITE = MAY_WRITE \<longrightarrow> can_flow (label ts) (obj_label oss))
    then \<exists>oss'. difc_file_permission pid cur (Some oss) msk = Ret (Some oss', 0)
       \<and> obj_label oss' = obj_label oss \<and> activity (label_change_sem oss') = activity (label_change_sem oss) + 1
       \<and> difc_file_rw_release (Some oss') = Ret (Some oss)
    else difc_file_permission pid cur (Some oss) msk = Ret (Some oss, - EPERM)"
proof -
  have "activity (fst (down_read pid (label_change_sem oss))) = activity (label_change_sem oss) + 1"
    using assms(4) by (simp add: down_read_def read_open_def read_room_def)
  with file_permission_spec [OF assms, of pid msk] show ?thesis by (auto simp: access_ok_def)
qed

theorem file_permission_balanced_witness:
  "security sample_user = Some sample_task \<and> wf_label (label sample_task) \<and> wf_label (obj_label sample_obj)
   \<and> read_open (label_change_sem sample_obj)
   \<and> difc_file_permission 1 sample_user (Some sample_obj) MAY_READ = Ret (Some sample_obj, - EPERM)
   \<and> (\<exists>oss'. difc_file_permission 1 sample_user (Some sample_obj) MAY_WRITE = Ret (Some oss', 0)
        \<and> difc_file_rw_release (Some oss') = Ret (Some sample_obj))"
proof -
  have wf: "wf_label (label sample_task)" by (simp add: LIST_MAX_ENTRIES_def)
  have flow: "\<not> can_flow (mk_label [5] []) (mk_label [] [])" "can_flow (mk_label [] []) (mk_label [5] [])"
    by (simp_all add: can_flow_def LIST_MAX_ENTRIES_def)
  note b = file_permission_balanced [of sample_user sample_task sample_obj, OF _ wf]
  show ?thesis
    using b [of MAY_READ 1] b [of MAY_WRITE 1] flow wf by (auto simp: may_defs)
qed

text \<open>C33: A new inode never gets a label below its creator's. When \<open>difc_inode_init_security\<close>
  takes a label for the inode (it does not answer \<open>-EPERM\<close>), the creator's label may flow
  to it, and a requested label is taken only if the creator's capabilities also allow the
  change; a refused request leaves the inode's label alone. With enough memory a labelled
  inode gets the attribute \<open>difc\<close> whose value is the count and the entries of the secrecy list
  followed by those of the integrity list, eight bytes each, lowest byte first.
\<close>

theorem inode_init_label_flow:
  assumes "security cur = Some ts" and "wf_task ts" and "\<And>x. lbl = Some x \<Longrightarrow> wf_label x"
  shows "\<exists>oss' nm val rv. difc_inode_init_security True True True True cur lbl (Some oss) = Ret (Some oss', nm, val, rv)
    \<and> (if rv = - EPERM
       then oss' = oss \<and> (\<exists>x. lbl = Some x \<and> \<not> (can_flow (label ts) x \<and> may_replace (uid cur) ts (label ts) x))
       else can_flow (label ts) (obj_label oss')
         \<and> obj_label oss' = (case lbl of None \<Rightarrow> label ts | Some x \<Rightarrow> x)
         \<and> (rv = 0 \<longrightarrow> nm = Some ''difc'' \<and>
              val = Some (arr_bytes (used (secList (obj_label oss')) @ used (intList (obj_label oss')))))
         \<and> (rv \<noteq> 0 \<longrightarrow> rv = - EOPNOTSUPP \<and> unlabeled_obj (Some oss')))"
proof -
  define new where "new = (case lbl of None \<Rightarrow> label ts | Some x \<Rightarrow> x)"
  define ok where "ok \<longleftrightarrow> (case lbl of None \<Rightarrow> True
     | Some x \<Rightarrow> can_flow (label ts) x \<and> may_replace (uid cur) ts (label ts) x)"
  have wf: "wf_label (label ts)" "wf_label new"
    using assms(2,3) by (auto simp: new_def wf_task_def split: option.splits)
  then have a: "wf_arr (secList new)" "wf_arr (intList new)" by (auto simp: wf_label_def)
  have run: "difc_inode_init_security True True True True cur lbl (Some oss) =
    (if ok then bindO (init_inode_xattr True True True True new) (\<lambda>(name, val, rv). Ret (Some (oss\<lparr>obj_label := new\<rparr>), name, val, rv))
     else Ret (Some oss, None, None, - EPERM))"
  proof (cases lbl)
    case None
    then show ?thesis using assms(1) by (simp add: difc_inode_init_security_def new_def ok_def)
  next
    case (Some x)
    note w = assms(3) [OF Some]
    from Some show ?thesis
      using assms(1) by (simp add: difc_inode_init_security_def new_def ok_def check_allowed_Some [OF wf(1) w]
          check_label_replace_spec [OF assms(2) wf(1) w] EPERM_def)
  qed
  show ?thesis
  proof (cases ok)
    case True
    then have f: "can_flow (label ts) new" by (auto simp: ok_def new_def can_flow_refl split: option.splits)
    have E: "- EOPNOTSUPP \<noteq> - EPERM" "0 \<noteq> - EPERM" "EOPNOTSUPP \<noteq> 0" by (simp_all add: errno_defs)
    show ?thesis
      unfolding run init_inode_xattr_spec [OF wf(2)]
      using True f E a by (auto simp: new_def unlabeled_obj_def)
  next
    case False
    then show ?thesis unfolding run by (auto simp: ok_def split: option.splits)
  qed
qed

theorem inode_init_label_flow_witness:
  "security sample_user = Some sample_task \<and> wf_task sample_task \<and>
   (\<exists>oss' nm val rv. difc_inode_init_security True True True True sample_user (Some (mk_label [5] [])) (Some sample_obj)
      = Ret (Some oss', nm, val, rv) \<and> (rv = - EPERM \<or> can_flow (label sample_task) (obj_label oss')))"
proof -
  have "wf_label (mk_label [5] [])" by (simp add: LIST_MAX_ENTRIES_def)
  then show ?thesis
    using inode_init_label_flow [of sample_user sample_task "Some (mk_label [5] [])" sample_obj]
    by (auto split: if_splits)
qed








section \<open>Where the label protection ends\<close>

lemma copy_segs_all: "copy_segs (\<lambda>_. True) i segs = Some segs"
  by (induction segs arbitrary: i) auto

text \<open>A forked child starts without a label. \<open>difc_task_alloc_security\<close> copies the parent's
  active capabilities and TCB flag, but neither its label nor its suspended capabilities,
  so the label of a parent with any secrecy label may not flow to the child's.
\<close>

lemma fork_child_unlabelled:
  assumes "security cur = Some ts" and "secs (label ts) \<noteq> {}"
  shows "\<exists>cs. difc_task_alloc_security True (\<lambda>_. True) cur tsk = (tsk\<lparr>security := Some cs\<rparr>, 0)
    \<and> secs (label cs) = {} \<and> ints (label cs) = {} \<and> \<not> can_flow (label ts) (label cs)
    \<and> capList cs = capList ts \<and> capSuspendList cs = [] \<and> tcb cs = tcb ts"
  using assms
  by (auto simp: difc_task_alloc_security_def copy_segs_all zero_tsec_def can_flow_def secs_def ints_def empty_label_def)

lemma fork_child_unlabelled_example:
  "\<exists>cs. difc_task_alloc_security True (\<lambda>_. True)
      \<lparr>uid = 7, security = Some (sample_task\<lparr>label := mk_label [5] []\<rparr>)\<rparr> \<lparr>uid = 7, security = None\<rparr>
      = (\<lparr>uid = 7, security = Some cs\<rparr>, 0) \<and> \<not> can_flow (mk_label [5] []) (label cs)"
  using fork_child_unlabelled [of "\<lparr>uid = 7, security = Some (sample_task\<lparr>label := mk_label [5] []\<rparr>)\<rparr>"
      "sample_task\<lparr>label := mk_label [5] []\<rparr>" "\<lparr>uid = 7, security = None\<rparr>"]
  by (auto simp: LIST_MAX_ENTRIES_def)

text \<open>\<open>difc_pipe_full\<close> answers 1 for every inode and task, labelled or not: it compares
  the addresses of the label arrays with 0 instead of their counts, and the two arrays of one
  structure cannot both be at address 0.
\<close>

lemma pipe_full_constant: "difc_pipe_full isec tsec = 1"
  by (simp add: difc_pipe_full_def)

lemma find_from_overrun:
  assumes "\<forall>i < length a. idx \<le> i \<longrightarrow> \<not> P (a ! i)" and "length a \<le> cnt a" and "n = length a - idx" and "idx \<le> length a"
  shows "find_from P a idx = Oops OutOfBounds"
  using assms(1,3,4)
proof (induction n arbitrary: idx)
  case 0
  then show ?case using assms(2) by (subst find_from.simps) (simp add: rd_def)
next
  case (Suc n)
  then have "find_from P a (Suc idx) = Oops OutOfBounds" by (intro Suc.IH) auto
  with Suc.prems assms(2) show ?case by (subst find_from.simps) (simp add: rd_def)
qed

definition long_label :: "u64 list" where
  "long_label = 32 # replicate 63 0"

text \<open>A label set by a TCB task is not validated. The call accepts 64 words whose secrecy
  count is one more than the array holds, and the next check of an object with a secrecy
  label other than 0 against this task reads past the array.
\<close>

lemma tcb_replace_unvalidated:
  assumes "security cur = Some ts" and "tcb ts \<noteq> 0" and "wf_label x" and "cnt (secList x) > 0"
    and "entries (secList x) ! 0 \<noteq> 0"
  shows "\<exists>ts'. difc_replace_label_tcb True long_label cur = Ret (cur\<lparr>security := Some ts'\<rparr>, 0)
    \<and> check_allowed (Some x) (Some (label ts')) = Oops OutOfBounds"
proof -
  let ?a = "32 # replicate 31 (0 :: u64)"
  let ?ul = "\<lparr>secList = ?a, intList = replicate 32 0\<rparr>"
  have len: "length long_label = 64" by (simp add: long_label_def)
  have "take 32 long_label = ?a" "take 32 (drop 32 long_label) = replicate 32 0"
    by (simp_all add: long_label_def take_Cons' drop_Cons')
  then have c: "difc_copy_user_label True long_label = Some ?ul"
    using len by (simp add: difc_copy_user_label_def LIST_WORDS_def)
  let ?l = "entries (secList x) ! 0"
  have "find_from (\<lambda>y. ?l = y) ?a (Suc 0) = Oops OutOfBounds"
    using assms(5) by (intro find_from_overrun) (auto simp: cnt_def nth_Cons split: nat.splits)
  moreover have "rd (secList x) (Suc 0) = Ret ?l"
    using assms(3,4) by (intro rd_entry) (auto simp: wf_label_def)
  ultimately have "check_allowed (Some x) (Some ?ul) = Oops OutOfBounds"
    using assms(4) by (simp add: check_allowed_def subset_loop.simps)
  with c assms(1,2) show ?thesis
    by (intro exI [of _ "ts\<lparr>label := ?ul\<rparr>"]) (simp add: difc_replace_label_tcb_def)
qed

lemma tcb_replace_unvalidated_example:
  "\<exists>ts'. difc_replace_label_tcb True long_label \<lparr>uid = 0, security = Some (zero_tsec\<lparr>tcb := 1\<rparr>)\<rparr>
      = Ret (\<lparr>uid = 0, security = Some ts'\<rparr>, 0)
    \<and> check_allowed (Some (mk_label [5] [])) (Some (label ts')) = Oops OutOfBounds"
proof -
  have m: "wf_label (mk_label [5] [])" "entries (secList (mk_label [5] [])) = [5]"
    by (simp_all add: LIST_MAX_ENTRIES_def)
  then have "cnt (secList (mk_label [5] [])) = 1" by (metis length_entries wf_label_def length_Cons list.size(3) One_nat_def)
  with m show ?thesis
    using tcb_replace_unvalidated [of "\<lparr>uid = 0, security = Some (zero_tsec\<lparr>tcb := 1\<rparr>)\<rparr>" "zero_tsec\<lparr>tcb := 1\<rparr>" "mk_label [5] []"]
    by (auto simp del: mk_label_sel)
qed

end
