(* ===== verification/Vfs.thy ===== *)
theory Vfs
  imports Difc_Props
begin

text \<open>
  The system calls on open files, \<^verbatim>\<open>fs/read_write.c\<close>, with the look-up of descriptors in
  \<^verbatim>\<open>fs/file_table.c\<close>, \<open>vfs_readdir\<close> and the submission of asynchronous requests in
  \<^verbatim>\<open>fs/aio.c\<close>: the callers of the file hooks of the DIFC module. The operations of a file
  (\<open>f_op\<close>) are function pointers in the code and functions on an abstract state in the model;
  the mandatory locks of \<^verbatim>\<open>fs/locks.c\<close> and the completion of asynchronous requests are
  arguments. Accounting and notification are left out.
\<close>

section \<open>Files, inodes and the task\<close>

definition EIOCBQUEUED :: errno where "EIOCBQUEUED = 529"
definition EIOCBRETRY :: errno where "EIOCBRETRY = 530"

definition FMODE_LSEEK :: u32 where "FMODE_LSEEK = 4"
definition FMODE_PREAD :: u32 where "FMODE_PREAD = 8"
definition FMODE_PWRITE :: u32 where "FMODE_PWRITE = FMODE_PREAD"
definition S_IFIFO :: u32 where "S_IFIFO = 0x1000"

type_synonym loff_t = u64
type_synonym user_vec = "(u32 \<times> u32) list"

text \<open>\<open>i_pipe\<close> has the numbers of writers and readers of a pipe; \<open>i_flock\<close> stands for a
  mandatory lock on the inode.\<close>

record inode =
  i_mode :: u32
  i_security :: "object_security_struct option"
  i_pipe :: "(u32 \<times> u32) option"
  i_flock :: bool
  i_size :: loff_t
  s_maxbytes :: loff_t
  dead_dir :: bool

record 's file_operations =
  op_llseek :: "(loff_t \<Rightarrow> inode \<Rightarrow> loff_t \<Rightarrow> u32 \<Rightarrow> loff_t \<times> loff_t) option"
  op_read :: "(u32 \<Rightarrow> u32 \<Rightarrow> loff_t \<Rightarrow> 's \<Rightarrow> (int \<times> loff_t \<times> 's) outcome) option"
  op_write :: "(u32 \<Rightarrow> u32 \<Rightarrow> loff_t \<Rightarrow> 's \<Rightarrow> (int \<times> loff_t \<times> 's) outcome) option"
  op_aio_read :: "(user_vec \<Rightarrow> loff_t \<Rightarrow> 's \<Rightarrow> (int \<times> loff_t \<times> 's) outcome) option"
  op_aio_write :: "(user_vec \<Rightarrow> loff_t \<Rightarrow> 's \<Rightarrow> (int \<times> loff_t \<times> 's) outcome) option"
  op_sendfile :: "(loff_t \<Rightarrow> u32 \<Rightarrow> nat \<Rightarrow> 's \<Rightarrow> (int \<times> loff_t \<times> 's) outcome) option"
  op_sendpage :: bool
  op_readdir :: "('s \<Rightarrow> (int \<times> 's) outcome) option"
  op_aio_fsync :: bool
  op_release :: "('s \<Rightarrow> 's) option"

record 's struct_file =
  f_mode :: u32
  f_pos :: loff_t
  f_count :: int
  f_inode :: nat
  f_op :: "'s file_operations option"

text \<open>The current task, its table of descriptors (\<open>files_shared\<close>: \<open>files->count\<close> is not 1), the
  open files, the inodes, and everything below the operations of a file.\<close>

record 's system =
  cur_pid :: nat
  cur_task :: task_struct
  fd_table :: "nat \<Rightarrow> nat option"
  files_shared :: bool
  filps :: "nat \<Rightarrow> 's struct_file option"
  inodes :: "nat \<Rightarrow> inode"
  below_fop :: 's

text \<open>What the calls ask the rest of the kernel: mandatory locks, the completion of a queued
  request, the allocation of a segment array, and how often a request that asks for a retry
  is tried before the task is regarded as waiting.\<close>

record 's vfs_env =
  locks_mandatory_area :: "bool \<Rightarrow> nat \<Rightarrow> loff_t \<Rightarrow> u32 \<Rightarrow> 's \<Rightarrow> int"
  wait_on_sync_kiocb :: "'s \<Rightarrow> int \<times> loff_t \<times> 's"
  kmalloc_iov :: bool
  retries :: nat

definition get_file :: "nat \<Rightarrow> 's system \<Rightarrow> 's struct_file outcome" where
  "get_file fi S = deref (filps S fi)"

definition put_file :: "nat \<Rightarrow> 's struct_file \<Rightarrow> 's system \<Rightarrow> 's system" where
  "put_file fi f S = S\<lparr>filps := (filps S)(fi \<mapsto> f)\<rparr>"

definition put_isec :: "nat \<Rightarrow> object_security_struct option \<Rightarrow> 's system \<Rightarrow> 's system" where
  "put_isec i isec S = S\<lparr>inodes := (inodes S)(i := (inodes S i)\<lparr>i_security := isec\<rparr>)\<rparr>"

section \<open>Looking up descriptors\<close>

definition fget_light :: "nat \<Rightarrow> 's system \<Rightarrow> (nat option \<times> bool \<times> 's system) outcome" where
  "fget_light fd S =
     (case fd_table S fd of
        None \<Rightarrow> Ret (None, False, S)
      | Some fi \<Rightarrow>
          if \<not> files_shared S then Ret (Some fi, False, S)
          else bindO (get_file fi S) (\<lambda>f.
            if f_count f \<noteq> 0 then Ret (Some fi, True, put_file fi (f\<lparr>f_count := f_count f + 1\<rparr>) S)
            else Ret (None, False, S)))"

text \<open>The end of \<open>__fput\<close> that concerns the model: \<open>release\<close>, and the file is gone.\<close>

definition last_fput :: "nat \<Rightarrow> 's struct_file \<Rightarrow> 's system \<Rightarrow> 's system" where
  "last_fput fi f S =
     (let S1 = (case f_op f of
                  Some ops \<Rightarrow> (case op_release ops of Some rel \<Rightarrow> S\<lparr>below_fop := rel (below_fop S)\<rparr> | None \<Rightarrow> S)
                | None \<Rightarrow> S)
      in S1\<lparr>filps := (filps S1)(fi := None)\<rparr>)"

definition fput :: "nat \<Rightarrow> 's system \<Rightarrow> 's system outcome" where
  "fput fi S =
     bindO (get_file fi S) (\<lambda>f.
     let f1 = f\<lparr>f_count := f_count f - 1\<rparr>; S1 = put_file fi f1 S; i = f_inode f; ino = inodes S i in
     if f_count f1 = 0 then Ret (last_fput fi f1 S1)
     else if i_mode ino AND S_IFIFO = 0 then Ret S1
     else bindO (difc_inode_permission (cur_task S) (i_security ino) MAY_WRITE) (\<lambda>rv.
       if rv = 0 then Ret S1
       else bindO (deref (i_pipe ino)) (\<lambda>(w, r).
         Ret (S1\<lparr>inodes := (inodes S1)(i := ino\<lparr>i_pipe := Some (w + 1, r + 1)\<rparr>)\<rparr>))))"

definition fput_light :: "nat \<Rightarrow> bool \<Rightarrow> 's system \<Rightarrow> 's system outcome" where
  "fput_light fi fput_needed S = (if fput_needed then fput fi S else Ret S)"

section \<open>The hooks on a file\<close>

definition file_permission_hook :: "nat \<Rightarrow> u32 \<Rightarrow> 's system \<Rightarrow> (errno \<times> 's system) outcome" where
  "file_permission_hook fi msk S =
     bindO (get_file fi S) (\<lambda>f.
     bindO (difc_file_permission (cur_pid S) (cur_task S) (i_security (inodes S (f_inode f))) msk) (\<lambda>(isec, rv).
     Ret (rv, put_isec (f_inode f) isec S)))"

definition rw_release_hook :: "nat \<Rightarrow> 's system \<Rightarrow> 's system outcome" where
  "rw_release_hook fi S =
     bindO (get_file fi S) (\<lambda>f.
     bindO (difc_file_rw_release (i_security (inodes S (f_inode f)))) (\<lambda>isec.
     Ret (put_isec (f_inode f) isec S)))"

section \<open>Seeking\<close>

text \<open>A function of \<open>llseek\<close> takes the position of the file, its inode, the offset and the origin,
  and gives the new position and the result.\<close>

definition seek_offset :: "loff_t \<Rightarrow> inode \<Rightarrow> loff_t \<Rightarrow> u32 \<Rightarrow> loff_t" where
  "seek_offset pos ino offset origin =
     (if origin = 2 then offset + i_size ino else if origin = 1 then offset + pos else offset)"

definition generic_file_llseek :: "loff_t \<Rightarrow> inode \<Rightarrow> loff_t \<Rightarrow> u32 \<Rightarrow> loff_t \<times> loff_t" where
  "generic_file_llseek pos ino offset origin =
     (let off = seek_offset pos ino offset origin in
      if 0 \<le> sint off \<and> off \<le> s_maxbytes ino then (off, off) else (pos, word_of_int (- EINVAL)))"

definition remote_llseek :: "loff_t \<Rightarrow> inode \<Rightarrow> loff_t \<Rightarrow> u32 \<Rightarrow> loff_t \<times> loff_t" where
  "remote_llseek pos ino offset origin =
     (let off = seek_offset pos ino offset origin in
      if 0 \<le> sint off \<and> off \<le> s_maxbytes ino then (off, off) else (pos, word_of_int (- EINVAL)))"

definition no_llseek :: "loff_t \<Rightarrow> inode \<Rightarrow> loff_t \<Rightarrow> u32 \<Rightarrow> loff_t \<times> loff_t" where
  "no_llseek pos ino offset origin = (pos, word_of_int (- ESPIPE))"

definition default_llseek :: "loff_t \<Rightarrow> inode \<Rightarrow> loff_t \<Rightarrow> u32 \<Rightarrow> loff_t \<times> loff_t" where
  "default_llseek pos ino offset origin =
     (let off = seek_offset pos ino offset origin in
      if 0 \<le> sint off then (off, off) else (pos, word_of_int (- EINVAL)))"

definition vfs_llseek :: "nat \<Rightarrow> loff_t \<Rightarrow> u32 \<Rightarrow> 's system \<Rightarrow> (loff_t \<times> 's system) outcome" where
  "vfs_llseek fi offset origin S =
     bindO (get_file fi S) (\<lambda>f.
     let fn = (if f_mode f AND FMODE_LSEEK = 0 then no_llseek
               else case f_op f of
                      Some ops \<Rightarrow> (case op_llseek ops of Some g \<Rightarrow> g | None \<Rightarrow> default_llseek)
                    | None \<Rightarrow> default_llseek);
         (pos, ret) = fn (f_pos f) (inodes S (f_inode f)) offset origin
     in Ret (ret, put_file fi (f\<lparr>f_pos := pos\<rparr>) S))"

text \<open>\<open>off_t\<close> has 32 bits: a result that does not fit is an error after the file has moved.\<close>

definition sys_lseek :: "nat \<Rightarrow> u32 \<Rightarrow> u32 \<Rightarrow> 's system \<Rightarrow> (int \<times> 's system) outcome" where
  "sys_lseek fd offset origin S =
     bindO (fget_light fd S) (\<lambda>(file, fput_needed, S1).
     case file of
       None \<Rightarrow> Ret (- EBADF, S1)
     | Some fi \<Rightarrow>
         bindO (if origin \<le> 2 then
                  bindO (vfs_llseek fi (scast offset) origin S1) (\<lambda>(res, S2).
                  let retval = (ucast res :: u32) in
                  Ret (if res \<noteq> scast retval then - EOVERFLOW else sint retval, S2))
                else Ret (- EINVAL, S1)) (\<lambda>(ret, S2).
         bindO (fput_light fi fput_needed S2) (\<lambda>S3. Ret (ret, S3))))"

text \<open>The 64-bit result of \<open>sys_llseek\<close> goes to user memory (\<open>copy_ok\<close>).\<close>

definition sys_llseek ::
  "bool \<Rightarrow> nat \<Rightarrow> u32 \<Rightarrow> u32 \<Rightarrow> u32 \<Rightarrow> 's system \<Rightarrow> (int \<times> loff_t option \<times> 's system) outcome" where
  "sys_llseek copy_ok fd offset_high offset_low origin S =
     bindO (fget_light fd S) (\<lambda>(file, fput_needed, S1).
     case file of
       None \<Rightarrow> Ret (- EBADF, None, S1)
     | Some fi \<Rightarrow>
         bindO (if origin > 2 then Ret (- EINVAL, None, S1)
                else bindO (vfs_llseek fi (push_bit 32 (ucast offset_high) OR ucast offset_low) origin S1) (\<lambda>(offset, S2).
                  Ret (if 0 \<le> sint offset then if copy_ok then (0, Some offset, S2) else (- EFAULT, None, S2)
                       else (sint (ucast offset :: u32), None, S2)))) (\<lambda>(ret, result, S2).
         bindO (fput_light fi fput_needed S2) (\<lambda>S3. Ret (ret, result, S3))))"

section \<open>Reading and writing\<close>

definition MAX_RW_COUNT :: u32 where "MAX_RW_COUNT = 0x7FFFF000"

text \<open>A range of user memory below the address limit (\<open>addr_limit.seg\<close>, 3 GB), with the carry.\<close>

definition user_range_ok :: "u32 \<Rightarrow> u32 \<Rightarrow> bool" where
  "user_range_ok addr sz \<longleftrightarrow> unat addr + unat sz \<le> 0xC0000000"

definition rw_verify_area :: "'s vfs_env \<Rightarrow> bool \<Rightarrow> nat \<Rightarrow> loff_t \<Rightarrow> u32 \<Rightarrow> 's system \<Rightarrow> int outcome" where
  "rw_verify_area env is_read fi pos nbytes S =
     bindO (get_file fi S) (\<lambda>f.
     let cap = int (unat (if nbytes > MAX_RW_COUNT then MAX_RW_COUNT else nbytes)) in
     if sint nbytes < 0 then Ret (- EINVAL)
     else if sint pos < 0 \<or> sint (pos + ucast nbytes) < 0 then Ret (- EINVAL)
     else if i_flock (inodes S (f_inode f)) then
       let retval = locks_mandatory_area env is_read fi pos nbytes (below_fop S) in
       Ret (if retval < 0 then retval else cap)
     else Ret cap)"

text \<open>The loop of the synchronous calls over an asynchronous operation: as long as it asks for a
  retry the task waits and tries again; a queued request is waited for.\<close>

primrec sync_loop ::
  "'s vfs_env \<Rightarrow> (user_vec \<Rightarrow> loff_t \<Rightarrow> 's \<Rightarrow> (int \<times> loff_t \<times> 's) outcome) \<Rightarrow> user_vec \<Rightarrow> nat \<Rightarrow> loff_t \<Rightarrow> 's \<Rightarrow>
   (int \<times> loff_t \<times> 's) outcome" where
  "sync_loop env fn iov 0 pos d = Oops Sleeps"
| "sync_loop env fn iov (Suc n) pos d =
     bindO (fn iov pos d) (\<lambda>(ret, pos', d').
     if ret = - EIOCBRETRY then sync_loop env fn iov n pos' d'
     else if ret = - EIOCBQUEUED then Ret (wait_on_sync_kiocb env d')
     else Ret (ret, pos', d'))"

definition do_sync_read where
  "do_sync_read env fn buf len pos d = sync_loop env fn [(buf, len)] (retries env) pos d"

definition do_sync_write where
  "do_sync_write env fn buf len pos d = sync_loop env fn [(buf, len)] (retries env) pos d"

definition do_sync_readv_writev where
  "do_sync_readv_writev env fn iov pos d = sync_loop env fn iov (retries env) pos d"

definition vfs_read ::
  "'s vfs_env \<Rightarrow> nat \<Rightarrow> u32 \<Rightarrow> u32 \<Rightarrow> loff_t \<Rightarrow> 's system \<Rightarrow> (int \<times> loff_t \<times> 's system) outcome" where
  "vfs_read env fi buf nbytes pos S =
     bindO (get_file fi S) (\<lambda>f.
     if f_mode f AND FMODE_READ = 0 then Ret (- EBADF, pos, S)
     else case f_op f of
       None \<Rightarrow> Ret (- EINVAL, pos, S)
     | Some ops \<Rightarrow>
         if op_read ops = None \<and> op_aio_read ops = None then Ret (- EINVAL, pos, S)
         else if \<not> user_range_ok buf nbytes then Ret (- EFAULT, pos, S)
         else bindO (rw_verify_area env True fi pos nbytes S) (\<lambda>ret.
         if ret < 0 then Ret (ret, pos, S)
         else bindO (file_permission_hook fi MAY_READ S) (\<lambda>(rv, S1).
         if rv \<noteq> 0 then Ret (rv, pos, S1)
         else bindO (case op_read ops of
                       Some fn_rd \<Rightarrow> fn_rd buf (word_of_int ret) pos (below_fop S1)
                     | None \<Rightarrow> bindO (deref (op_aio_read ops)) (\<lambda>fn. do_sync_read env fn buf (word_of_int ret) pos (below_fop S1)))
                (\<lambda>(n, pos', d).
         bindO (rw_release_hook fi (S1\<lparr>below_fop := d\<rparr>)) (\<lambda>S2. Ret (n, pos', S2))))))"

definition vfs_write ::
  "'s vfs_env \<Rightarrow> nat \<Rightarrow> u32 \<Rightarrow> u32 \<Rightarrow> loff_t \<Rightarrow> 's system \<Rightarrow> (int \<times> loff_t \<times> 's system) outcome" where
  "vfs_write env fi buf nbytes pos S =
     bindO (get_file fi S) (\<lambda>f.
     if f_mode f AND FMODE_WRITE = 0 then Ret (- EBADF, pos, S)
     else case f_op f of
       None \<Rightarrow> Ret (- EINVAL, pos, S)
     | Some ops \<Rightarrow>
         if op_write ops = None \<and> op_aio_write ops = None then Ret (- EINVAL, pos, S)
         else if \<not> user_range_ok buf nbytes then Ret (- EFAULT, pos, S)
         else bindO (rw_verify_area env False fi pos nbytes S) (\<lambda>ret.
         if ret < 0 then Ret (ret, pos, S)
         else bindO (file_permission_hook fi MAY_WRITE S) (\<lambda>(rv, S1).
         if rv \<noteq> 0 then Ret (rv, pos, S1)
         else bindO (case op_write ops of
                       Some fn_wt \<Rightarrow> fn_wt buf (word_of_int ret) pos (below_fop S1)
                     | None \<Rightarrow> bindO (deref (op_aio_write ops)) (\<lambda>fn. do_sync_write env fn buf (word_of_int ret) pos (below_fop S1)))
                (\<lambda>(n, pos', d).
         bindO (rw_release_hook fi (S1\<lparr>below_fop := d\<rparr>)) (\<lambda>S2. Ret (n, pos', S2))))))"

text \<open>A call on a descriptor at the position of the file, and one at a position given by the
  caller that needs a mode bit.\<close>

definition file_pos_read :: "nat \<Rightarrow> 's system \<Rightarrow> loff_t outcome" where
  "file_pos_read fi S = bindO (get_file fi S) (\<lambda>f. Ret (f_pos f))"

definition file_pos_write :: "nat \<Rightarrow> loff_t \<Rightarrow> 's system \<Rightarrow> 's system outcome" where
  "file_pos_write fi pos S = bindO (get_file fi S) (\<lambda>f. Ret (put_file fi (f\<lparr>f_pos := pos\<rparr>) S))"

definition at_file_pos ::
  "nat \<Rightarrow> (nat \<Rightarrow> loff_t \<Rightarrow> 's system \<Rightarrow> (int \<times> loff_t \<times> 's system) outcome) \<Rightarrow> 's system \<Rightarrow> (int \<times> 's system) outcome" where
  "at_file_pos fd op S =
     bindO (fget_light fd S) (\<lambda>(file, fput_needed, S1).
     case file of
       None \<Rightarrow> Ret (- EBADF, S1)
     | Some fi \<Rightarrow>
         bindO (file_pos_read fi S1) (\<lambda>pos.
         bindO (op fi pos S1) (\<lambda>(ret, pos', S2).
         bindO (file_pos_write fi pos' S2) (\<lambda>S3.
         bindO (fput_light fi fput_needed S3) (\<lambda>S4. Ret (ret, S4))))))"

definition at_given_pos ::
  "nat \<Rightarrow> u32 \<Rightarrow> loff_t \<Rightarrow> (nat \<Rightarrow> loff_t \<Rightarrow> 's system \<Rightarrow> (int \<times> loff_t \<times> 's system) outcome) \<Rightarrow> 's system \<Rightarrow>
   (int \<times> 's system) outcome" where
  "at_given_pos fd mode pos op S =
     (if sint pos < 0 then Ret (- EINVAL, S)
      else bindO (fget_light fd S) (\<lambda>(file, fput_needed, S1).
      case file of
        None \<Rightarrow> Ret (- EBADF, S1)
      | Some fi \<Rightarrow>
          bindO (get_file fi S1) (\<lambda>f.
          bindO (if f_mode f AND mode = 0 then Ret (- ESPIPE, pos, S1) else op fi pos S1) (\<lambda>(ret, pos', S2).
          bindO (fput_light fi fput_needed S2) (\<lambda>S3. Ret (ret, S3))))))"

definition sys_read :: "'s vfs_env \<Rightarrow> nat \<Rightarrow> u32 \<Rightarrow> u32 \<Rightarrow> 's system \<Rightarrow> (int \<times> 's system) outcome" where
  "sys_read env fd buf nbytes S = at_file_pos fd (\<lambda>fi. vfs_read env fi buf nbytes) S"

definition sys_write :: "'s vfs_env \<Rightarrow> nat \<Rightarrow> u32 \<Rightarrow> u32 \<Rightarrow> 's system \<Rightarrow> (int \<times> 's system) outcome" where
  "sys_write env fd buf nbytes S = at_file_pos fd (\<lambda>fi. vfs_write env fi buf nbytes) S"

definition sys_pread64 :: "'s vfs_env \<Rightarrow> nat \<Rightarrow> u32 \<Rightarrow> u32 \<Rightarrow> loff_t \<Rightarrow> 's system \<Rightarrow> (int \<times> 's system) outcome" where
  "sys_pread64 env fd buf nbytes pos S = at_given_pos fd FMODE_PREAD pos (\<lambda>fi. vfs_read env fi buf nbytes) S"

definition sys_pwrite64 :: "'s vfs_env \<Rightarrow> nat \<Rightarrow> u32 \<Rightarrow> u32 \<Rightarrow> loff_t \<Rightarrow> 's system \<Rightarrow> (int \<times> 's system) outcome" where
  "sys_pwrite64 env fd buf nbytes pos S = at_given_pos fd FMODE_PWRITE pos (\<lambda>fi. vfs_write env fi buf nbytes) S"

section \<open>Vectors\<close>

definition UIO_MAXIOV :: nat where "UIO_MAXIOV = 1024"
definition UIO_FASTIOV :: nat where "UIO_FASTIOV = 8"

text \<open>\<open>iov_shorten\<close> gives the shortened vector and the number of segments left.\<close>

fun iov_shorten :: "user_vec \<Rightarrow> u32 \<Rightarrow> u32 \<Rightarrow> user_vec \<times> nat" where
  "iov_shorten [] len to = ([], 0)"
| "iov_shorten ((base, n) # iov) len to =
     (if len + n \<ge> to then ((base, to - len) # iov, 1)
      else let (iov', seg) = iov_shorten iov (len + n) to in ((base, n) # iov', Suc seg))"

text \<open>The operation for one buffer, called for each segment until one fails or is not filled.\<close>

fun do_loop_readv_writev ::
  "(u32 \<Rightarrow> u32 \<Rightarrow> loff_t \<Rightarrow> 's \<Rightarrow> (int \<times> loff_t \<times> 's) outcome) \<Rightarrow> user_vec \<Rightarrow> int \<Rightarrow> loff_t \<Rightarrow> 's \<Rightarrow>
   (int \<times> loff_t \<times> 's) outcome" where
  "do_loop_readv_writev fn [] ret pos d = Ret (ret, pos, d)"
| "do_loop_readv_writev fn ((base, len) # vector) ret pos d =
     bindO (fn base len pos d) (\<lambda>(nr, pos', d').
     if nr < 0 then Ret (if ret = 0 then nr else ret, pos', d')
     else if nr \<noteq> int (unat len) then Ret (ret + nr, pos', d')
     else do_loop_readv_writev fn vector (ret + nr) pos' d')"

text \<open>The segments of the user: their total length as a signed 32-bit sum that must not wrap.\<close>

fun check_uvector :: "user_vec \<Rightarrow> u32 \<Rightarrow> int" where
  "check_uvector [] ret = sint ret"
| "check_uvector ((buf, len) # iov) ret =
     (if sint len < 0 \<or> sint (ret + len) < sint ret then - EINVAL
      else if \<not> user_range_ok buf len then - EFAULT
      else check_uvector iov (ret + len))"

definition rw_copy_check_uvector :: "bool \<Rightarrow> nat \<Rightarrow> user_vec option \<Rightarrow> nat \<Rightarrow> int" where
  "rw_copy_check_uvector kmalloc_ok fast_segs uvector nr_segs =
     (if nr_segs = 0 then 0
      else if nr_segs > UIO_MAXIOV then - EINVAL
      else if nr_segs > fast_segs \<and> \<not> kmalloc_ok then - ENOMEM
      else case uvector of None \<Rightarrow> - EFAULT | Some iov \<Rightarrow> check_uvector iov 0)"

definition do_readv_writev ::
  "'s vfs_env \<Rightarrow> bool \<Rightarrow> nat \<Rightarrow> user_vec option \<Rightarrow> nat \<Rightarrow> loff_t \<Rightarrow> 's system \<Rightarrow> (int \<times> loff_t \<times> 's system) outcome" where
  "do_readv_writev env is_read fi uvector nr_segs pos S =
     bindO (get_file fi S) (\<lambda>f.
     case f_op f of
       None \<Rightarrow> Ret (- EINVAL, pos, S)
     | Some ops \<Rightarrow>
         let tot = rw_copy_check_uvector (kmalloc_iov env) UIO_FASTIOV uvector nr_segs in
         if tot \<le> 0 then Ret (tot, pos, S)
         else bindO (rw_verify_area env is_read fi pos (word_of_int tot) S) (\<lambda>ret.
         if ret < 0 then Ret (ret, pos, S)
         else bindO (file_permission_hook fi (if is_read then MAY_READ else MAY_WRITE) S) (\<lambda>(rv, S1).
         if rv \<noteq> 0 then Ret (rv, pos, S1)
         else
           let fn = (if is_read then op_read ops else op_write ops);
               fnv = (if is_read then op_aio_read ops else op_aio_write ops);
               iov = (case uvector of Some v \<Rightarrow> v | None \<Rightarrow> [])
           in bindO (case fnv of
                       Some g \<Rightarrow> do_sync_readv_writev env g iov pos (below_fop S1)
                     | None \<Rightarrow> bindO (deref fn) (\<lambda>g. do_loop_readv_writev g iov 0 pos (below_fop S1)))
                (\<lambda>(n, pos', d).
              bindO (rw_release_hook fi (S1\<lparr>below_fop := d\<rparr>)) (\<lambda>S2. Ret (n, pos', S2))))))"

definition vfs_readv ::
  "'s vfs_env \<Rightarrow> nat \<Rightarrow> user_vec option \<Rightarrow> nat \<Rightarrow> loff_t \<Rightarrow> 's system \<Rightarrow> (int \<times> loff_t \<times> 's system) outcome" where
  "vfs_readv env fi vec vlen pos S =
     bindO (get_file fi S) (\<lambda>f.
     if f_mode f AND FMODE_READ = 0 then Ret (- EBADF, pos, S)
     else case f_op f of
       None \<Rightarrow> Ret (- EINVAL, pos, S)
     | Some ops \<Rightarrow>
         if op_aio_read ops = None \<and> op_read ops = None then Ret (- EINVAL, pos, S)
         else do_readv_writev env True fi vec vlen pos S)"

definition vfs_writev ::
  "'s vfs_env \<Rightarrow> nat \<Rightarrow> user_vec option \<Rightarrow> nat \<Rightarrow> loff_t \<Rightarrow> 's system \<Rightarrow> (int \<times> loff_t \<times> 's system) outcome" where
  "vfs_writev env fi vec vlen pos S =
     bindO (get_file fi S) (\<lambda>f.
     if f_mode f AND FMODE_WRITE = 0 then Ret (- EBADF, pos, S)
     else case f_op f of
       None \<Rightarrow> Ret (- EINVAL, pos, S)
     | Some ops \<Rightarrow>
         if op_aio_write ops = None \<and> op_write ops = None then Ret (- EINVAL, pos, S)
         else do_readv_writev env False fi vec vlen pos S)"

definition sys_readv :: "'s vfs_env \<Rightarrow> nat \<Rightarrow> user_vec option \<Rightarrow> nat \<Rightarrow> 's system \<Rightarrow> (int \<times> 's system) outcome" where
  "sys_readv env fd vec vlen S = at_file_pos fd (\<lambda>fi. vfs_readv env fi vec vlen) S"

definition sys_writev :: "'s vfs_env \<Rightarrow> nat \<Rightarrow> user_vec option \<Rightarrow> nat \<Rightarrow> 's system \<Rightarrow> (int \<times> 's system) outcome" where
  "sys_writev env fd vec vlen S = at_file_pos fd (\<lambda>fi. vfs_writev env fi vec vlen) S"

section \<open>Sending a file\<close>

definition MAX_NON_LFS :: loff_t where "MAX_NON_LFS = 0x7FFFFFFF"

text \<open>The position of the input, in \<open>ppos\<close> or in the file itself.\<close>

definition send_pos :: "nat \<Rightarrow> loff_t option \<Rightarrow> 's system \<Rightarrow> loff_t outcome" where
  "send_pos fi ppos S = (case ppos of Some p \<Rightarrow> Ret p | None \<Rightarrow> file_pos_read fi S)"

text \<open>The part of \<open>do_sendfile\<close> that holds both files: the result, the position and whether the
  code goes on at \<open>fput_out_sec\<close> (the lock of the output file is given back) or at
  \<open>fput_out\<close>.\<close>

definition sendfile_locked ::
  "('s file_operations) \<Rightarrow> nat \<Rightarrow> loff_t \<Rightarrow> u32 \<Rightarrow> loff_t \<Rightarrow> 's \<Rightarrow> (int \<times> loff_t \<times> bool \<times> 's) outcome" where
  "sendfile_locked ops out pos nbytes maxb d =
     (if sint pos < 0 then Ret (- EINVAL, pos, True, d)
      else if sint (pos + ucast nbytes) > sint maxb \<and> sint pos \<ge> sint maxb then Ret (- EOVERFLOW, pos, False, d)
      else
        let nbytes' = (if sint (pos + ucast nbytes) > sint maxb then ucast (maxb - pos) else nbytes) in
        bindO (deref (op_sendfile ops)) (\<lambda>send.
        bindO (send pos nbytes' out d) (\<lambda>(n, pos', d').
        Ret (if sint pos' > sint maxb then - EOVERFLOW else n, pos', True, d'))))"

text \<open>From the mode of the output file to the label \<open>fput_out\<close>, and from \<open>fget_light\<close> of the
  output file to the label \<open>fput_in_sec\<close>.\<close>

definition sendfile_checked ::
  "'s vfs_env \<Rightarrow> 's file_operations \<Rightarrow> nat \<Rightarrow> 's struct_file \<Rightarrow> inode \<Rightarrow> loff_t \<Rightarrow> u32 \<Rightarrow> loff_t \<Rightarrow> 's system \<Rightarrow>
   (int \<times> loff_t \<times> 's system) outcome" where
  "sendfile_checked env ops fo g in_inode pos nbytes maxb S =
     (if f_mode g AND FMODE_WRITE = 0 then Ret (- EBADF, pos, S)
      else if (case f_op g of None \<Rightarrow> True | Some o_ops \<Rightarrow> \<not> op_sendpage o_ops) then Ret (- EINVAL, pos, S)
      else bindO (rw_verify_area env False fo (f_pos g) nbytes S) (\<lambda>ret.
      if ret < 0 then Ret (ret, pos, S)
      else bindO (file_permission_hook fo MAY_WRITE S) (\<lambda>(rv, S2).
      if rv \<noteq> 0 then Ret (rv, pos, S2)
      else
        let maxb' = (if maxb = 0 then min (s_maxbytes in_inode) (s_maxbytes (inodes S2 (f_inode g))) else maxb) in
        bindO (sendfile_locked ops fo pos (word_of_int ret) maxb' (below_fop S2)) (\<lambda>(n, pos', rel, d).
        bindO (if rel then rw_release_hook fo (S2\<lparr>below_fop := d\<rparr>) else Ret (S2\<lparr>below_fop := d\<rparr>)) (\<lambda>S3.
        Ret (n, pos', S3))))))"

definition sendfile_out ::
  "'s vfs_env \<Rightarrow> 's file_operations \<Rightarrow> nat \<Rightarrow> inode \<Rightarrow> loff_t \<Rightarrow> u32 \<Rightarrow> loff_t \<Rightarrow> 's system \<Rightarrow>
   (int \<times> loff_t \<times> 's system) outcome" where
  "sendfile_out env ops out_fd in_inode pos nbytes maxb S =
     bindO (fget_light out_fd S) (\<lambda>(file, fput_needed, S1).
     case file of
       None \<Rightarrow> Ret (- EBADF, pos, S1)
     | Some fo \<Rightarrow>
         bindO (get_file fo S1) (\<lambda>g.
         bindO (sendfile_checked env ops fo g in_inode pos nbytes maxb S1) (\<lambda>(n, pos', S3).
         bindO (fput_light fo fput_needed S3) (\<lambda>S4. Ret (n, pos', S4)))))"

definition sendfile_in ::
  "'s vfs_env \<Rightarrow> nat \<Rightarrow> nat \<Rightarrow> 's struct_file \<Rightarrow> loff_t option \<Rightarrow> u32 \<Rightarrow> loff_t \<Rightarrow> 's system \<Rightarrow>
   (int \<times> loff_t option \<times> 's system) outcome" where
  "sendfile_in env out_fd fi f ppos nbytes maxb S =
     (if f_mode f AND FMODE_READ = 0 then Ret (- EBADF, ppos, S)
      else case f_op f of
        None \<Rightarrow> Ret (- EINVAL, ppos, S)
      | Some ops \<Rightarrow>
          if op_sendfile ops = None then Ret (- EINVAL, ppos, S)
          else if ppos \<noteq> None \<and> f_mode f AND FMODE_PREAD = 0 then Ret (- ESPIPE, ppos, S)
          else bindO (send_pos fi ppos S) (\<lambda>pos.
          bindO (rw_verify_area env True fi pos nbytes S) (\<lambda>ret.
          if ret < 0 then Ret (ret, ppos, S)
          else bindO (file_permission_hook fi MAY_READ S) (\<lambda>(rv, S2).
          if rv \<noteq> 0 then Ret (rv, ppos, S2)
          else bindO (sendfile_out env ops out_fd (inodes S2 (f_inode f)) pos (word_of_int ret) maxb S2) (\<lambda>(n, pos', S3).
          bindO (case ppos of Some _ \<Rightarrow> Ret S3 | None \<Rightarrow> file_pos_write fi pos' S3) (\<lambda>S4.
          bindO (rw_release_hook fi S4) (\<lambda>S5.
          Ret (n, map_option (\<lambda>_. pos') ppos, S5))))))))"

definition do_sendfile ::
  "'s vfs_env \<Rightarrow> nat \<Rightarrow> nat \<Rightarrow> loff_t option \<Rightarrow> u32 \<Rightarrow> loff_t \<Rightarrow> 's system \<Rightarrow> (int \<times> loff_t option \<times> 's system) outcome" where
  "do_sendfile env out_fd in_fd ppos nbytes maxb S =
     bindO (fget_light in_fd S) (\<lambda>(file, fput_needed, S1).
     case file of
       None \<Rightarrow> Ret (- EBADF, ppos, S1)
     | Some fi \<Rightarrow>
         bindO (get_file fi S1) (\<lambda>f.
         bindO (sendfile_in env out_fd fi f ppos nbytes maxb S1) (\<lambda>(n, ppos', S6).
         bindO (fput_light fi fput_needed S6) (\<lambda>S7. Ret (n, ppos', S7)))))"

text \<open>The offset in user memory: \<open>get_ok\<close> and \<open>put_ok\<close> say whether it can be read and written.\<close>

definition sys_sendfile ::
  "'s vfs_env \<Rightarrow> nat \<Rightarrow> nat \<Rightarrow> u32 option \<Rightarrow> bool \<Rightarrow> bool \<Rightarrow> u32 \<Rightarrow> 's system \<Rightarrow> (int \<times> u32 option \<times> 's system) outcome" where
  "sys_sendfile env out_fd in_fd offset get_ok put_ok nbytes S =
     (case offset of
        None \<Rightarrow> bindO (do_sendfile env out_fd in_fd None nbytes 0 S) (\<lambda>(ret, _, S1). Ret (ret, None, S1))
      | Some off \<Rightarrow>
          if \<not> get_ok then Ret (- EFAULT, offset, S)
          else bindO (do_sendfile env out_fd in_fd (Some (scast off)) nbytes MAX_NON_LFS S) (\<lambda>(ret, pos, S1).
          if \<not> put_ok then Ret (- EFAULT, offset, S1) else Ret (ret, map_option ucast pos, S1)))"

definition sys_sendfile64 ::
  "'s vfs_env \<Rightarrow> nat \<Rightarrow> nat \<Rightarrow> loff_t option \<Rightarrow> bool \<Rightarrow> bool \<Rightarrow> u32 \<Rightarrow> 's system \<Rightarrow> (int \<times> loff_t option \<times> 's system) outcome" where
  "sys_sendfile64 env out_fd in_fd offset get_ok put_ok nbytes S =
     (case offset of
        None \<Rightarrow> bindO (do_sendfile env out_fd in_fd None nbytes 0 S) (\<lambda>(ret, _, S1). Ret (ret, None, S1))
      | Some off \<Rightarrow>
          if \<not> get_ok then Ret (- EFAULT, offset, S)
          else bindO (do_sendfile env out_fd in_fd (Some off) nbytes 0 S) (\<lambda>(ret, pos, S1).
          if \<not> put_ok then Ret (- EFAULT, offset, S1) else Ret (ret, pos, S1)))"

section \<open>Directories\<close>

definition vfs_readdir :: "nat \<Rightarrow> 's system \<Rightarrow> (int \<times> 's system) outcome" where
  "vfs_readdir fi S =
     bindO (get_file fi S) (\<lambda>f.
     case f_op f of
       None \<Rightarrow> Ret (- ENOTDIR, S)
     | Some ops \<Rightarrow>
         (case op_readdir ops of
            None \<Rightarrow> Ret (- ENOTDIR, S)
          | Some fn_rd \<Rightarrow>
              bindO (file_permission_hook fi MAY_READ S) (\<lambda>(res, S1).
              if res \<noteq> 0 then Ret (res, S1)
              else if dead_dir (inodes S1 (f_inode f)) then Ret (- ENOENT, S1)
              else bindO (fn_rd (below_fop S1)) (\<lambda>(n, d). Ret (n, S1\<lparr>below_fop := d\<rparr>)))))"

section \<open>Asynchronous requests\<close>

definition IOCB_CMD_PREAD :: nat where "IOCB_CMD_PREAD = 0"
definition IOCB_CMD_PWRITE :: nat where "IOCB_CMD_PWRITE = 1"
definition IOCB_CMD_FSYNC :: nat where "IOCB_CMD_FSYNC = 2"
definition IOCB_CMD_FDSYNC :: nat where "IOCB_CMD_FDSYNC = 3"
definition IOCB_CMD_PREADV :: nat where "IOCB_CMD_PREADV = 7"
definition IOCB_CMD_PWRITEV :: nat where "IOCB_CMD_PWRITEV = 8"

lemmas iocb_cmds = IOCB_CMD_PREAD_def IOCB_CMD_PWRITE_def IOCB_CMD_FSYNC_def IOCB_CMD_FDSYNC_def
  IOCB_CMD_PREADV_def IOCB_CMD_PWRITEV_def

datatype aio_retry = Aio_rw_vect_retry | Aio_fdsync | Aio_fsync

record kiocb =
  ki_filp :: nat
  ki_opcode :: nat
  ki_buf :: u32
  ki_left :: u32
  ki_nbytes :: u32
  ki_pos :: loff_t
  ki_iovec :: user_vec
  ki_nr_segs :: nat
  ki_cur_seg :: nat
  ki_retry :: "aio_retry option"

definition aio_setup_single_vector :: "kiocb \<Rightarrow> int \<times> kiocb" where
  "aio_setup_single_vector k = (0, k\<lparr>ki_iovec := [(ki_buf k, ki_left k)], ki_nr_segs := 1, ki_cur_seg := 0\<rparr>)"

text \<open>For a vectored request \<open>ki_nbytes\<close> is the number of segments at first; \<open>uvec\<close> is what the
  user has at \<open>ki_buf\<close>.\<close>

definition aio_setup_vectored_rw :: "bool \<Rightarrow> user_vec option \<Rightarrow> kiocb \<Rightarrow> int \<times> kiocb" where
  "aio_setup_vectored_rw kmalloc_ok uvec k =
     (let ret = rw_copy_check_uvector kmalloc_ok 1 uvec (unat (ki_nbytes k)) in
      if ret < 0 then (ret, k)
      else (0, k\<lparr>ki_iovec := (case uvec of Some v \<Rightarrow> v | None \<Rightarrow> []), ki_nr_segs := unat (ki_nbytes k), ki_cur_seg := 0,
                 ki_nbytes := word_of_int ret, ki_left := word_of_int ret\<rparr>))"

text \<open>The four cases of \<open>aio_setup_iocb\<close> for reading and writing; only the cases with a single
  buffer test the range.\<close>

definition aio_setup_rw ::
  "'s vfs_env \<Rightarrow> bool \<Rightarrow> bool \<Rightarrow> user_vec option \<Rightarrow> kiocb \<Rightarrow> 's system \<Rightarrow> (int \<times> kiocb \<times> 's system) outcome" where
  "aio_setup_rw env is_read vectored uvec k S =
     bindO (get_file (ki_filp k) S) (\<lambda>f.
     if f_mode f AND (if is_read then FMODE_READ else FMODE_WRITE) = 0 then Ret (- EBADF, k, S)
     else if \<not> vectored \<and> \<not> user_range_ok (ki_buf k) (ki_left k) then Ret (- EFAULT, k, S)
     else bindO (file_permission_hook (ki_filp k) (if is_read then MAY_READ else MAY_WRITE) S) (\<lambda>(ret, S1).
     if ret \<noteq> 0 then Ret (ret, k, S1)
     else let (r, k1) = (if vectored then aio_setup_vectored_rw (kmalloc_iov env) uvec k else aio_setup_single_vector k) in
     if r \<noteq> 0 then Ret (r, k1, S1)
     else bindO (deref (f_op f)) (\<lambda>ops.
     Ret (- EINVAL, if (if is_read then op_aio_read ops else op_aio_write ops) \<noteq> None
                    then k1\<lparr>ki_retry := Some Aio_rw_vect_retry\<rparr> else k1, S1))))"

definition aio_setup_sync :: "aio_retry \<Rightarrow> kiocb \<Rightarrow> 's system \<Rightarrow> (int \<times> kiocb \<times> 's system) outcome" where
  "aio_setup_sync method k S =
     bindO (get_file (ki_filp k) S) (\<lambda>f.
     bindO (deref (f_op f)) (\<lambda>ops.
     Ret (- EINVAL, if op_aio_fsync ops then k\<lparr>ki_retry := Some method\<rparr> else k, S)))"

definition aio_setup_iocb ::
  "'s vfs_env \<Rightarrow> user_vec option \<Rightarrow> kiocb \<Rightarrow> 's system \<Rightarrow> (int \<times> kiocb \<times> 's system) outcome" where
  "aio_setup_iocb env uvec k S =
     bindO (if ki_opcode k = IOCB_CMD_PREAD then aio_setup_rw env True False uvec k S
            else if ki_opcode k = IOCB_CMD_PWRITE then aio_setup_rw env False False uvec k S
            else if ki_opcode k = IOCB_CMD_PREADV then aio_setup_rw env True True uvec k S
            else if ki_opcode k = IOCB_CMD_PWRITEV then aio_setup_rw env False True uvec k S
            else if ki_opcode k = IOCB_CMD_FDSYNC then aio_setup_sync Aio_fdsync k S
            else if ki_opcode k = IOCB_CMD_FSYNC then aio_setup_sync Aio_fsync k S
            else Ret (- EINVAL, k, S)) (\<lambda>(ret, k1, S1).
     Ret (if ki_retry k1 = None then ret else 0, k1, S1))"

definition fget :: "nat \<Rightarrow> 's system \<Rightarrow> (nat option \<times> 's system) outcome" where
  "fget fd S =
     (case fd_table S fd of
        None \<Rightarrow> Ret (None, S)
      | Some fi \<Rightarrow> bindO (get_file fi S) (\<lambda>f.
          if f_count f = 0 then Ret (None, S) else Ret (Some fi, put_file fi (f\<lparr>f_count := f_count f + 1\<rparr>) S)))"

text \<open>The last reference to a request gives back its reference to the file.\<close>

definition aio_put_last :: "nat \<Rightarrow> 's system \<Rightarrow> 's system outcome" where
  "aio_put_last fi S =
     bindO (get_file fi S) (\<lambda>f.
     let f1 = f\<lparr>f_count := f_count f - 1\<rparr>; S1 = put_file fi f1 S in
     Ret (if f_count f1 = 0 then last_fput fi f1 S1 else S1))"

record iocb =
  aio_reserved :: bool
  aio_buf :: u64
  aio_nbytes :: u64
  aio_fildes :: nat
  aio_offset :: loff_t
  aio_lio_opcode :: nat

text \<open>\<open>req_ok\<close>: a request can be had from the context; \<open>put_ok\<close>: its key can be stored in user
  memory; \<open>run\<close> stands for \<open>aio_run_iocb\<close> and the run list, which call the operation of the
  file. A request with an event descriptor (\<open>IOCB_FLAG_RESFD\<close>) is not modelled.\<close>

definition io_submit_one ::
  "'s vfs_env \<Rightarrow> (kiocb \<Rightarrow> 's \<Rightarrow> 's) \<Rightarrow> bool \<Rightarrow> bool \<Rightarrow> user_vec option \<Rightarrow> iocb \<Rightarrow> 's system \<Rightarrow> (int \<times> 's system) outcome" where
  "io_submit_one env run req_ok put_ok uvec c S =
     (if aio_reserved c then Ret (- EINVAL, S)
      else if aio_buf c \<noteq> ucast (ucast (aio_buf c) :: u32) \<or> aio_nbytes c \<noteq> ucast (ucast (aio_nbytes c) :: u32)
        \<or> sint (ucast (aio_nbytes c) :: u32) < 0 then Ret (- EINVAL, S)
      else bindO (fget (aio_fildes c) S) (\<lambda>(file, S1).
      case file of
        None \<Rightarrow> Ret (- EBADF, S1)
      | Some fi \<Rightarrow>
          if \<not> req_ok then bindO (fput fi S1) (\<lambda>S2. Ret (- EAGAIN, S2))
          else if \<not> put_ok then bindO (aio_put_last fi S1) (\<lambda>S2. Ret (- EFAULT, S2))
          else
            let req = \<lparr>ki_filp = fi, ki_opcode = aio_lio_opcode c, ki_buf = ucast (aio_buf c),
                       ki_left = ucast (aio_nbytes c), ki_nbytes = ucast (aio_nbytes c), ki_pos = aio_offset c,
                       ki_iovec = [], ki_nr_segs = 0, ki_cur_seg = 0, ki_retry = None\<rparr>
            in bindO (aio_setup_iocb env uvec req S1) (\<lambda>(ret, req1, S2).
               if ret \<noteq> 0 then bindO (aio_put_last fi S2) (\<lambda>S3. Ret (ret, S3))
               else bindO (rw_release_hook fi (S2\<lparr>below_fop := run req1 (below_fop S2)\<rparr>)) (\<lambda>S3. Ret (0, S3)))))"

section \<open>The label lock around a call\<close>

text \<open>A system in which the task has a security record and every labelled inode a well-formed
  label and a semaphore that a reader may take, and what the flow rules say of a file.\<close>

definition sys_ok :: "'s system \<Rightarrow> bool" where
  "sys_ok S \<longleftrightarrow> (\<exists>ts. security (cur_task S) = Some ts \<and> wf_label (label ts)) \<and>
     (\<forall>i oss. i_security (inodes S i) = Some oss \<longrightarrow> wf_label (obj_label oss) \<and> read_open (label_change_sem oss))"

definition may_access :: "u32 \<Rightarrow> nat \<Rightarrow> 's system \<Rightarrow> bool" where
  "may_access msk fi S \<longleftrightarrow>
     (case (filps S fi, security (cur_task S)) of
        (Some f, Some ts) \<Rightarrow>
          (case i_security (inodes S (f_inode f)) of None \<Rightarrow> True | Some oss \<Rightarrow> access_ok msk (label ts) (obj_label oss))
      | _ \<Rightarrow> False)"

definition locked :: "nat \<Rightarrow> 's system \<Rightarrow> 's system" where
  "locked fi S =
     (case filps S fi of
        None \<Rightarrow> S
      | Some f \<Rightarrow> put_isec (f_inode f)
          (map_option (\<lambda>oss. oss\<lparr>label_change_sem := fst (down_read (cur_pid S) (label_change_sem oss))\<rparr>)
             (i_security (inodes S (f_inode f)))) S)"

lemma get_file_Ret [simp]: "get_file fi S = Ret f \<longleftrightarrow> filps S fi = Some f"
  by (simp add: get_file_def)

lemma put_isec_simps [simp]:
  "filps (put_isec i x S) = filps S" "below_fop (put_isec i x S) = below_fop S"
  "cur_task (put_isec i x S) = cur_task S" "cur_pid (put_isec i x S) = cur_pid S"
  "fd_table (put_isec i x S) = fd_table S" "files_shared (put_isec i x S) = files_shared S"
  by (simp_all add: put_isec_def)

lemma put_isec_back: "put_isec i (i_security (inodes S i)) (put_isec i x S) = S"
  by (simp add: put_isec_def)

lemma put_isec_same: "put_isec i (i_security (inodes S i)) S = S"
  by (simp add: put_isec_def)

lemma put_isec_below: "put_isec i x (S\<lparr>below_fop := d\<rparr>) = (put_isec i x S)\<lparr>below_fop := d\<rparr>"
  by (simp add: put_isec_def)

lemma i_security_put_isec [simp]:
  "i_security (inodes (put_isec i x S) j) = (if j = i then x else i_security (inodes S j))"
  by (simp add: put_isec_def)

lemma locked_simps [simp]:
  "filps (locked fi S) = filps S" "below_fop (locked fi S) = below_fop S" "cur_task (locked fi S) = cur_task S"
  "cur_pid (locked fi S) = cur_pid S" "fd_table (locked fi S) = fd_table S" "files_shared (locked fi S) = files_shared S"
  by (simp_all add: locked_def split: option.split)

lemma permission_hook_spec:
  assumes "sys_ok S" "filps S fi = Some f"
  shows "file_permission_hook fi msk S = (if may_access msk fi S then Ret (0, locked fi S) else Ret (- EPERM, S))"
proof (cases "i_security (inodes S (f_inode f))")
  case None
  obtain ts where "security (cur_task S) = Some ts" using assms(1) by (auto simp: sys_ok_def)
  with None assms(2) show ?thesis
    by (simp add: file_permission_hook_def difc_file_permission_def may_access_def locked_def get_file_def)
next
  case (Some oss)
  obtain ts where ts: "security (cur_task S) = Some ts" "wf_label (label ts)" and
    o: "wf_label (obj_label oss)" "read_open (label_change_sem oss)"
    using assms(1) Some by (auto simp: sys_ok_def)
  obtain oss' where p: "difc_file_permission (cur_pid S) (cur_task S) (Some oss) msk =
      Ret (if access_ok msk (label ts) (obj_label oss) then (Some oss', 0) else (Some oss, - EPERM))"
    using file_permission_spec [OF ts o] by blast
  have "access_ok msk (label ts) (obj_label oss) \<Longrightarrow>
      oss' = oss\<lparr>label_change_sem := fst (down_read (cur_pid S) (label_change_sem oss))\<rparr>"
    using p by (auto simp: difc_file_permission_def Let_def bindO_Ret_iff split: prod.splits if_splits)
  then show ?thesis
    using p Some assms(2) ts(1) put_isec_same [of "f_inode f" S]
    by (auto simp: file_permission_hook_def may_access_def locked_def get_file_def)
qed

lemma release_hook_spec:
  assumes "sys_ok S" "filps S fi = Some f"
  shows "rw_release_hook fi ((locked fi S)\<lparr>below_fop := d\<rparr>) = Ret (S\<lparr>below_fop := d\<rparr>)"
proof (cases "i_security (inodes S (f_inode f))")
  case None
  then show ?thesis using assms(2) put_isec_same [of "f_inode f" S]
    by (simp add: rw_release_hook_def get_file_def locked_def difc_file_rw_release_def put_isec_below)
next
  case (Some oss)
  then have "read_open (label_change_sem oss)" using assms(1) by (auto simp: sys_ok_def)
  then obtain s' where "down_read (cur_pid S) (label_change_sem oss) = (s', True)" "up_read_sem s' = Ret (label_change_sem oss)"
    using read_side by blast
  then have "difc_file_rw_release (Some (oss\<lparr>label_change_sem := fst (down_read (cur_pid S) (label_change_sem oss))\<rparr>)) = Ret (Some oss)"
    by (simp add: difc_file_rw_release_def)
  then show ?thesis using assms(2) Some put_isec_back [of "f_inode f" S]
    by (simp add: rw_release_hook_def get_file_def locked_def put_isec_below)
qed

end
