(* ===== verification/Vfs_Props.thy ===== *)
theory Vfs_Props
  imports Vfs
begin

text \<open>
  The guarantees of reading and writing through a descriptor: the label lock is given back on
  every path, and the file is touched only along an allowed flow.
\<close>

section \<open>Operations between permission and release\<close>

text \<open>An operation on an open file that only changes what is below the operations of the file, and
  that only along a flow it may take.\<close>

locale guarded_op =
  fixes run_op :: "nat \<Rightarrow> loff_t \<Rightarrow> 's system \<Rightarrow> (int \<times> loff_t \<times> 's system) outcome" and op_mask :: u32
  assumes frame: "sys_ok S \<Longrightarrow> run_op fi pos S = Ret (n, p, S') \<Longrightarrow> S' = S\<lparr>below_fop := below_fop S'\<rparr>"
    and flow: "sys_ok S \<Longrightarrow> run_op fi pos S = Ret (n, p, S') \<Longrightarrow> \<not> may_access op_mask fi S \<Longrightarrow> S' = S \<and> n \<le> 0"
begin

lemma keeps_files:
  assumes "sys_ok S" "run_op fi pos S = Ret (n, p, S')"
  shows "filps S' = filps S" "inodes S' = inodes S" "cur_task S' = cur_task S" "fd_table S' = fd_table S"
  by (subst frame [OF assms]; simp)+

end

lemma may_access_put_count [simp]:
  "filps S fi = Some f \<Longrightarrow> may_access msk fi (put_file fi (f\<lparr>f_count := c\<rparr>) S) = may_access msk fi S"
  by (simp add: may_access_def put_file_def split: option.split)

lemma sys_ok_put_file [simp]: "sys_ok (put_file fi f S) = sys_ok S"
  by (simp add: sys_ok_def put_file_def)

text \<open>What a descriptor look-up and its end do: the file is the one in the table, and the labels
  and the contents are not touched.\<close>

definition labels_of :: "'s system \<Rightarrow> nat \<Rightarrow> object_security_struct option" where
  "labels_of S i = i_security (inodes S i)"

lemma labels_of_put_file [simp]: "labels_of (put_file fi f S) = labels_of S"
  by (simp add: labels_of_def put_file_def fun_eq_iff)

lemma fget_light_spec:
  assumes "fget_light fd S = Ret (fl, need, S1)" "sys_ok S"
  shows "sys_ok S1 \<and> labels_of S1 = labels_of S \<and> below_fop S1 = below_fop S \<and>
    (\<forall>fi. fl = Some fi \<longrightarrow> fd_table S fd = Some fi \<and> may_access m fi S1 = may_access m fi S) \<and>
    (need \<longrightarrow> (\<exists>fi f. fl = Some fi \<and> filps S1 fi = Some f \<and> f_count f \<noteq> 1))"
  using assms
  by (auto simp: fget_light_def bindO_Ret_iff labels_of_put_file split: option.splits if_splits)
    (simp_all add: put_file_def)

lemma fput_light_spec:
  assumes "fput_light fi need S = Ret S'" "need \<longrightarrow> (\<exists>f. filps S fi = Some f \<and> f_count f \<noteq> 1)"
  shows "labels_of S' = labels_of S \<and> below_fop S' = below_fop S"
  using assms
  by (auto simp: fput_light_def fput_def bindO_Ret_iff Let_def labels_of_def put_file_def fun_eq_iff
      split: if_splits)

context guarded_op
begin

lemma at_file_pos_guarded:
  assumes "sys_ok S" "at_file_pos fd run_op S = Ret (n, S')"
  shows "labels_of S' = labels_of S \<and>
    ((\<exists>fi. fd_table S fd = Some fi \<and> may_access op_mask fi S) \<or> below_fop S' = below_fop S \<and> n \<le> 0)"
proof -
  obtain fl need S1 where g: "fget_light fd S = Ret (fl, need, S1)"
    using assms(2) by (auto simp: at_file_pos_def bindO_Ret_iff)
  note l = fget_light_spec [OF g assms(1), of op_mask]
  show ?thesis
  proof (cases fl)
    case None
    then show ?thesis using assms(2) g l by (simp add: at_file_pos_def EBADF_def)
  next
    case (Some fi)
    obtain pos p S2 S3 where o: "run_op fi pos S1 = Ret (n, p, S2)" "file_pos_write fi p S2 = Ret S3"
      "fput_light fi need S3 = Ret S'"
      using assms(2) g Some by (auto simp: at_file_pos_def bindO_Ret_iff)
    have k: "filps S2 = filps S1" "inodes S2 = inodes S1" using keeps_files [OF _ o(1)] l by auto
    have w: "labels_of S3 = labels_of S2" "below_fop S3 = below_fop S2"
      "need \<longrightarrow> (\<exists>f. filps S3 fi = Some f \<and> f_count f \<noteq> 1)"
      using o(2) l k Some
      by (auto simp: file_pos_write_def bindO_Ret_iff labels_of_def put_file_def fun_eq_iff)
    have "labels_of S2 = labels_of S1" using k by (simp add: labels_of_def fun_eq_iff)
    then have "labels_of S' = labels_of S" using fput_light_spec [OF o(3) w(3)] w(1) l by simp
    moreover have "may_access op_mask fi S \<or> below_fop S' = below_fop S \<and> n \<le> 0"
      using flow [OF _ o(1)] fput_light_spec [OF o(3) w(3)] w(2) l Some by auto
    ultimately show ?thesis using l Some by blast
  qed
qed

lemma at_given_pos_guarded:
  assumes "sys_ok S" "at_given_pos fd mode pos run_op S = Ret (n, S')"
  shows "labels_of S' = labels_of S \<and>
    ((\<exists>fi. fd_table S fd = Some fi \<and> may_access op_mask fi S) \<or> below_fop S' = below_fop S \<and> n \<le> 0)"
proof (cases "sint pos < 0")
  case True
  then show ?thesis using assms(2) by (simp add: at_given_pos_def EINVAL_def)
next
  case False
  obtain fl need S1 where g: "fget_light fd S = Ret (fl, need, S1)"
    using assms(2) False by (auto simp: at_given_pos_def bindO_Ret_iff)
  note l = fget_light_spec [OF g assms(1), of op_mask]
  show ?thesis
  proof (cases fl)
    case None
    then show ?thesis using assms(2) g l False by (simp add: at_given_pos_def EBADF_def)
  next
    case (Some fi)
    obtain f p S2 where o: "filps S1 fi = Some f"
      "(if f_mode f AND mode = 0 then Ret (- ESPIPE, pos, S1) else run_op fi pos S1) = Ret (n, p, S2)"
      "fput_light fi need S2 = Ret S'"
      using assms(2) g Some False by (auto simp: at_given_pos_def bindO_Ret_iff)
    have k: "filps S2 = filps S1" "inodes S2 = inodes S1"
      "may_access op_mask fi S1 \<or> below_fop S2 = below_fop S1 \<and> n \<le> 0"
      using keeps_files [of S1 fi pos n p S2] flow [of S1 fi pos n p S2] o(2) l
      by (auto simp: ESPIPE_def split: if_splits)
    have w: "need \<longrightarrow> (\<exists>f. filps S2 fi = Some f \<and> f_count f \<noteq> 1)" using l k Some by auto
    have "labels_of S2 = labels_of S1" using k by (simp add: labels_of_def fun_eq_iff)
    then show ?thesis using fput_light_spec [OF o(3) w] k(3) l Some by auto
  qed
qed

end

section \<open>Reading and writing\<close>

text \<open>The frame every operation shares: permission, the operation of the file, release.\<close>

lemma hooked_run:
  assumes "sys_ok S" "filps S fi = Some f"
    "bindO (file_permission_hook fi msk S) (\<lambda>(rv, S1). if rv \<noteq> 0 then Ret (rv, pos, S1)
       else bindO (act S1) (\<lambda>(n, pos', d). bindO (rw_release_hook fi (S1\<lparr>below_fop := d\<rparr>)) (\<lambda>S2. Ret (n, pos', S2))))
     = Ret (n, p, S')"
  shows "S' = S\<lparr>below_fop := below_fop S'\<rparr> \<and> (\<not> may_access msk fi S \<longrightarrow> S' = S \<and> n \<le> 0)"
  using assms(3) permission_hook_spec [OF assms(1,2), of msk] release_hook_spec [OF assms(1,2)]
  by (auto simp: EPERM_def bindO_Ret_iff split: if_splits)

lemma vfs_read_guarded:
  assumes "sys_ok S" "vfs_read env fi buf nbytes pos S = Ret (n, p, S')"
  shows "S' = S\<lparr>below_fop := below_fop S'\<rparr> \<and> (\<not> may_access MAY_READ fi S \<longrightarrow> S' = S \<and> n \<le> 0)"
proof -
  obtain f where f: "filps S fi = Some f" using assms(2) by (auto simp: vfs_read_def bindO_Ret_iff)
  show ?thesis
  proof (cases "S' = S \<and> n \<le> 0")
    case False
    then show ?thesis
      using assms(2) f
      by (auto simp: vfs_read_def get_file_def errno_defs bindO_Ret_iff [of "rw_verify_area env b fi pos nbytes S" for b]
          split: if_splits option.splits dest!: hooked_run [OF assms(1) f])
  qed auto
qed

lemma vfs_write_guarded:
  assumes "sys_ok S" "vfs_write env fi buf nbytes pos S = Ret (n, p, S')"
  shows "S' = S\<lparr>below_fop := below_fop S'\<rparr> \<and> (\<not> may_access MAY_WRITE fi S \<longrightarrow> S' = S \<and> n \<le> 0)"
proof -
  obtain f where f: "filps S fi = Some f" using assms(2) by (auto simp: vfs_write_def bindO_Ret_iff)
  show ?thesis
  proof (cases "S' = S \<and> n \<le> 0")
    case False
    then show ?thesis
      using assms(2) f
      by (auto simp: vfs_write_def get_file_def errno_defs bindO_Ret_iff [of "rw_verify_area env b fi pos nbytes S" for b]
          split: if_splits option.splits dest!: hooked_run [OF assms(1) f])
  qed auto
qed

lemma do_readv_writev_guarded:
  assumes "sys_ok S" "do_readv_writev env is_read fi vec vlen pos S = Ret (n, p, S')"
  shows "S' = S\<lparr>below_fop := below_fop S'\<rparr> \<and>
    (\<not> may_access (if is_read then MAY_READ else MAY_WRITE) fi S \<longrightarrow> S' = S \<and> n \<le> 0)"
proof -
  obtain f where f: "filps S fi = Some f" using assms(2) by (auto simp: do_readv_writev_def bindO_Ret_iff)
  show ?thesis
  proof (cases "S' = S \<and> n \<le> 0")
    case False
    then show ?thesis
      using assms(2) f unfolding do_readv_writev_def Let_def
      by (auto simp: get_file_def EINVAL_def
          bindO_Ret_iff [of "rw_verify_area env b fi pos c S" for b c]
          split: if_splits option.splits dest!: hooked_run [OF assms(1) f])
  qed auto
qed

lemma vfs_vector_guarded:
  assumes "sys_ok S"
  shows "vfs_readv env fi vec vlen pos S = Ret (n, p, S') \<Longrightarrow>
      S' = S\<lparr>below_fop := below_fop S'\<rparr> \<and> (\<not> may_access MAY_READ fi S \<longrightarrow> S' = S \<and> n \<le> 0)"
    and "vfs_writev env fi vec vlen pos S = Ret (n, p, S') \<Longrightarrow>
      S' = S\<lparr>below_fop := below_fop S'\<rparr> \<and> (\<not> may_access MAY_WRITE fi S \<longrightarrow> S' = S \<and> n \<le> 0)"
  using do_readv_writev_guarded [OF assms, of env True fi vec vlen pos n p S']
    do_readv_writev_guarded [OF assms, of env False fi vec vlen pos n p S']
  by (auto simp: vfs_readv_def vfs_writev_def bindO_Ret_iff errno_defs split: if_splits option.splits)

interpretation read_op: guarded_op "\<lambda>fi. vfs_read env fi buf nbytes" MAY_READ
  by unfold_locales (use vfs_read_guarded in blast)+

interpretation write_op: guarded_op "\<lambda>fi. vfs_write env fi buf nbytes" MAY_WRITE
  by unfold_locales (use vfs_write_guarded in blast)+

interpretation readv_op: guarded_op "\<lambda>fi. vfs_readv env fi vec vlen" MAY_READ
  by unfold_locales (use vfs_vector_guarded(1) in blast)+

interpretation writev_op: guarded_op "\<lambda>fi. vfs_writev env fi vec vlen" MAY_WRITE
  by unfold_locales (use vfs_vector_guarded(2) in blast)+

text \<open>The calls that read and write, as data.\<close>

datatype file_call =
    Read nat u32 u32
  | Write nat u32 u32
  | Pread nat u32 u32 loff_t
  | Pwrite nat u32 u32 loff_t
  | Readv nat "user_vec option" nat
  | Writev nat "user_vec option" nat

fun call_fd :: "file_call \<Rightarrow> nat" where
  "call_fd (Read fd _ _) = fd"
| "call_fd (Write fd _ _) = fd"
| "call_fd (Pread fd _ _ _) = fd"
| "call_fd (Pwrite fd _ _ _) = fd"
| "call_fd (Readv fd _ _) = fd"
| "call_fd (Writev fd _ _) = fd"

fun call_mask :: "file_call \<Rightarrow> u32" where
  "call_mask (Read _ _ _) = MAY_READ"
| "call_mask (Write _ _ _) = MAY_WRITE"
| "call_mask (Pread _ _ _ _) = MAY_READ"
| "call_mask (Pwrite _ _ _ _) = MAY_WRITE"
| "call_mask (Readv _ _ _) = MAY_READ"
| "call_mask (Writev _ _ _) = MAY_WRITE"

fun do_call :: "'s vfs_env \<Rightarrow> file_call \<Rightarrow> 's system \<Rightarrow> (int \<times> 's system) outcome" where
  "do_call env (Read fd buf nbytes) S = sys_read env fd buf nbytes S"
| "do_call env (Write fd buf nbytes) S = sys_write env fd buf nbytes S"
| "do_call env (Pread fd buf nbytes pos) S = sys_pread64 env fd buf nbytes pos S"
| "do_call env (Pwrite fd buf nbytes pos) S = sys_pwrite64 env fd buf nbytes pos S"
| "do_call env (Readv fd vec vlen) S = sys_readv env fd vec vlen S"
| "do_call env (Writev fd vec vlen) S = sys_writev env fd vec vlen S"

text \<open>C15: Reading and writing through a descriptor is guarded. Whichever of the six calls returns, on
  whatever path, every label and label semaphore is as before the call. Unless the flow between
  the task and the file is allowed in the direction of the call, nothing below the operations
  of the file has changed and the result is not positive: no byte was transferred.\<close>

theorem file_calls_guarded:
  assumes "sys_ok S" "do_call env c S = Ret (n, S')"
  shows "labels_of S' = labels_of S \<and>
    ((\<exists>fi. fd_table S (call_fd c) = Some fi \<and> may_access (call_mask c) fi S) \<or> below_fop S' = below_fop S \<and> n \<le> 0)"
  using assms
  by (cases c)
    (simp_all add: sys_read_def sys_write_def sys_pread64_def sys_pwrite64_def sys_readv_def sys_writev_def
      read_op.at_file_pos_guarded write_op.at_file_pos_guarded read_op.at_given_pos_guarded
      write_op.at_given_pos_guarded readv_op.at_file_pos_guarded writev_op.at_file_pos_guarded)

end
