(* ===== verification/Vfs_Locks.thy ===== *)
theory Vfs_Locks
  imports Vfs_Props
begin

text \<open>
  Where the label lock of a file is given back and where it is not: \<open>sendfile\<close> holds two of them
  and keeps one when it starts at the last position; listing a directory keeps it; an
  asynchronous \<open>fsync\<close> gives back one that was never taken.
\<close>

section \<open>Sending a file\<close>

definition same_inodes :: "'s system \<Rightarrow> 's system \<Rightarrow> bool" where
  "same_inodes S S' \<longleftrightarrow> (\<forall>i f'. filps S' i = Some f' \<longrightarrow> (\<exists>f. filps S i = Some f \<and> f_inode f = f_inode f'))"

lemma same_inodes_trans: "same_inodes S T \<Longrightarrow> same_inodes T U \<Longrightarrow> same_inodes S U"
  unfolding same_inodes_def by metis

lemma same_inodes_simps [simp]:
  "same_inodes S S" "same_inodes S (S\<lparr>below_fop := d\<rparr>)" "same_inodes S (locked fi S)"
  "same_inodes S (put_isec i x S)"
  by (simp_all add: same_inodes_def)

lemma same_inodes_calls:
  "fget_light fd S = Ret (fl, need, S1) \<Longrightarrow> same_inodes S S1"
  "fput_light fi need S = Ret S2 \<Longrightarrow> same_inodes S S2"
  "file_pos_write fi pos S = Ret S3 \<Longrightarrow> same_inodes S S3"
  "rw_release_hook fi S = Ret S4 \<Longrightarrow> same_inodes S S4"
  by (auto simp: fget_light_def fput_light_def fput_def last_fput_def file_pos_write_def rw_release_hook_def
      same_inodes_def put_file_def bindO_Ret_iff Let_def split: option.splits if_splits prod.splits)

lemma labels_of_below [simp]: "labels_of (S\<lparr>below_fop := d\<rparr>) = labels_of S"
  by (simp add: labels_of_def fun_eq_iff)

lemma labels_of_put_isec [simp]: "labels_of (put_isec i x S) = (labels_of S)(i := x)"
  by (simp add: labels_of_def fun_eq_iff)

lemma sys_ok_below [simp]: "sys_ok (S\<lparr>below_fop := d\<rparr>) = sys_ok S"
  by (simp add: sys_ok_def)

text \<open>Sending takes two label locks, which may be the same one.\<close>

definition room_for_two :: "'s system \<Rightarrow> bool" where
  "room_for_two S \<longleftrightarrow> (\<forall>i oss. labels_of S i = Some oss \<longrightarrow> read_room 2 (label_change_sem oss))"

lemma read_room_down_read: "read_room 2 s \<Longrightarrow> read_open (fst (down_read p s))"
  using rd_side.takes_place [of 1 s p] by (simp add: read_open_def numeral_2_eq_2)

lemma sys_ok_locked: "sys_ok S \<Longrightarrow> room_for_two S \<Longrightarrow> sys_ok (locked fi S)"
  by (auto simp: sys_ok_def locked_def room_for_two_def labels_of_def read_room_down_read split: option.split)

text \<open>Giving up a descriptor never touches a label, even if the file is closed by it.\<close>

lemma fput_light_labels: "fput_light fi need S = Ret S' \<Longrightarrow> labels_of S' = labels_of S"
  by (auto simp: fput_light_def fput_def last_fput_def bindO_Ret_iff Let_def labels_of_def put_file_def fun_eq_iff
      split: if_splits option.splits)

lemma locked_below: "d = below_fop S \<Longrightarrow> (locked fi S)\<lparr>below_fop := d\<rparr> = locked fi S"
  by (cases "filps S fi") (simp_all add: locked_def put_isec_def)

lemma release_labels:
  assumes "sys_ok S" "filps S fi = Some f" "labels_of T = labels_of (locked fi S)" "same_inodes S T"
    "rw_release_hook fi T = Ret T'"
  shows "labels_of T' = labels_of S"
proof -
  obtain g isec where g: "filps T fi = Some g" "difc_file_rw_release (labels_of T (f_inode g)) = Ret isec"
    "T' = put_isec (f_inode g) isec T"
    using assms(5) by (auto simp: rw_release_hook_def bindO_Ret_iff labels_of_def)
  have i: "f_inode g = f_inode f" using assms(2,4) g(1) unfolding same_inodes_def by fastforce
  obtain isec' where h: "difc_file_rw_release (labels_of (locked fi S) (f_inode f)) = Ret isec'"
    "put_isec (f_inode f) isec' (locked fi S) = S"
    using release_hook_spec [OF assms(1,2), of "below_fop S"] assms(2)
    by (auto simp: rw_release_hook_def bindO_Ret_iff labels_of_def get_file_def locked_below)
  then have "labels_of S = (labels_of (locked fi S))(f_inode f := isec')" by (metis labels_of_put_isec)
  then show ?thesis using g i h(1) assms(3) by simp
qed

text \<open>Only the result \<open>-EOVERFLOW\<close> skips the release of the output file.\<close>

lemma sendfile_locked_release:
  "sendfile_locked ops out pos nbytes maxb d = Ret (n, pos', rel, d') \<Longrightarrow> n \<noteq> - EOVERFLOW \<Longrightarrow> rel"
  by (auto simp: sendfile_locked_def bindO_Ret_iff Let_def split: if_splits)

lemma sendfile_checked_frame:
  assumes "sys_ok S" "filps S fo = Some g" "sendfile_checked env ops fo g ino pos nbytes maxb S = Ret (n, p, S3)"
    "n \<noteq> - EOVERFLOW"
  shows "\<exists>d. S3 = S\<lparr>below_fop := d\<rparr>"
proof (cases "S3 = S")
  case True
  then show ?thesis by (intro exI [of _ "below_fop S"]) simp
next
  case False
  have p: "file_permission_hook fo MAY_WRITE S = Ret (0, locked fo S)"
    using assms(2,3) False permission_hook_spec [OF assms(1,2), of MAY_WRITE]
    by (auto simp: sendfile_checked_def bindO_Ret_iff EPERM_def split: if_splits)
  obtain c m rel d where r: "sendfile_locked ops fo pos c m (below_fop S) = Ret (n, p, rel, d)"
    "(if rel then rw_release_hook fo ((locked fo S)\<lparr>below_fop := d\<rparr>) else Ret ((locked fo S)\<lparr>below_fop := d\<rparr>)) = Ret S3"
    using assms(3) False p unfolding sendfile_checked_def Let_def
    by (auto simp: bindO_Ret_iff split: if_split_asm)
  then show ?thesis using sendfile_locked_release [OF r(1) assms(4)] release_hook_spec [OF assms(1,2)] by auto
qed

lemma sendfile_out_labels:
  assumes "sys_ok S" "sendfile_out env ops out_fd ino pos nbytes maxb S = Ret (n, pos', S')" "n \<noteq> - EOVERFLOW"
  shows "labels_of S' = labels_of S \<and> same_inodes S S'"
proof -
  obtain fl need S1 where g: "fget_light out_fd S = Ret (fl, need, S1)"
    using assms(2) by (auto simp: sendfile_out_def bindO_Ret_iff)
  have l: "sys_ok S1" "labels_of S1 = labels_of S" "need \<longrightarrow> (\<exists>fi f. fl = Some fi \<and> filps S1 fi = Some f \<and> f_count f \<noteq> 1)"
    "same_inodes S S1"
    using fget_light_spec [OF g assms(1)] same_inodes_calls(1) [OF g] by blast+
  show ?thesis
  proof (cases fl)
    case None
    then show ?thesis using assms(2) g l by (simp add: sendfile_out_def)
  next
    case (Some fo)
    then obtain g' S3 where s: "filps S1 fo = Some g'" "sendfile_checked env ops fo g' ino pos nbytes maxb S1 = Ret (n, pos', S3)"
      "fput_light fo need S3 = Ret S'"
      using assms(2) g by (auto simp: sendfile_out_def bindO_Ret_iff)
    then obtain d where d: "S3 = S1\<lparr>below_fop := d\<rparr>" using sendfile_checked_frame [OF l(1) s(1,2) assms(3)] by blast
    then have "need \<longrightarrow> (\<exists>f. filps S3 fo = Some f \<and> f_count f \<noteq> 1)" using l(3) Some by simp
    moreover have "same_inodes S S'"
      using same_inodes_trans [OF same_inodes_trans [OF l(4)]] same_inodes_calls(2) [OF s(3)] d same_inodes_simps(2) by metis
    ultimately show ?thesis using fput_light_spec [OF s(3)] d l(2) by simp
  qed
qed

lemma sendfile_in_labels:
  assumes "sys_ok S" "filps S fi = Some f" "sendfile_in env out_fd fi f ppos nbytes maxb S = Ret (n, pp, S')" "n \<noteq> - EOVERFLOW"
    "room_for_two S"
  shows "labels_of S' = labels_of S \<and> same_inodes S S'"
proof (cases "S' = S")
  case False
  have p: "file_permission_hook fi MAY_READ S = Ret (0, locked fi S)"
    using assms(2,3) False permission_hook_spec [OF assms(1,2), of MAY_READ]
    by (auto simp: sendfile_in_def bindO_Ret_iff EPERM_def split: if_splits option.splits)
  obtain ops ino pos c pos' S3 S4 where r: "sendfile_out env ops out_fd ino pos c maxb (locked fi S) = Ret (n, pos', S3)"
    "S4 = S3 \<or> file_pos_write fi pos' S3 = Ret S4" "rw_release_hook fi S4 = Ret S'"
    using assms(3) False p unfolding sendfile_in_def
    by (cases ppos) (auto simp: bindO_Ret_iff split: if_split_asm option.split_asm intro: that)
  have o: "labels_of S3 = labels_of (locked fi S)" "same_inodes (locked fi S) S3"
    using sendfile_out_labels [OF sys_ok_locked [OF assms(1,5)] r(1) assms(4)] by auto
  have w: "labels_of S4 = labels_of S3" "same_inodes S3 S4"
    using r(2) by (auto simp: file_pos_write_def bindO_Ret_iff same_inodes_def put_file_def labels_of_def fun_eq_iff
        split: if_splits)
  have "same_inodes S S4" using o(2) w(2) same_inodes_trans same_inodes_simps(3) by metis
  then show ?thesis
    using release_labels [OF assms(1,2) _ _ r(3)] o(1) w(1) same_inodes_trans same_inodes_calls(4) [OF r(3)] by metis
qed simp

lemma do_sendfile_labels:
  assumes "sys_ok S" "do_sendfile env out_fd in_fd ppos nbytes maxb S = Ret (n, pp, S')" "n \<noteq> - EOVERFLOW" "room_for_two S"
  shows "labels_of S' = labels_of S"
proof -
  obtain fl need S1 where g: "fget_light in_fd S = Ret (fl, need, S1)"
    using assms(2) by (auto simp: do_sendfile_def bindO_Ret_iff)
  have l: "sys_ok S1" "labels_of S1 = labels_of S" "need \<longrightarrow> (\<exists>fi f. fl = Some fi \<and> filps S1 fi = Some f \<and> f_count f \<noteq> 1)"
    using fget_light_spec [OF g assms(1)] by blast+
  show ?thesis
  proof (cases fl)
    case None
    then show ?thesis using assms(2) g l by (simp add: do_sendfile_def)
  next
    case (Some fi)
    then obtain f S3 where s: "filps S1 fi = Some f" "sendfile_in env out_fd fi f ppos nbytes maxb S1 = Ret (n, pp, S3)"
      "fput_light fi need S3 = Ret S'"
      using assms(2) g by (auto simp: do_sendfile_def bindO_Ret_iff)
    have "room_for_two S1" using assms(4) l(2) by (simp add: room_for_two_def)
    then have "labels_of S3 = labels_of S1" using sendfile_in_labels [OF l(1) s(1,2) assms(3)] by simp
    then show ?thesis using l(2) s(3) by (simp add: fput_light_labels)
  qed
qed

text \<open>C16: Sending a file gives both label locks back unless it reports an overflow. If
  \<open>do_sendfile\<close> returns something else than \<open>-EOVERFLOW\<close>, every label and label semaphore is as
  before, also when both descriptors are the same file, when the table of descriptors is shared
  and when the second file is refused after the first was locked; so it is for the system calls
  \<open>sys_sendfile\<close> and \<open>sys_sendfile64\<close> as long as they do not replace the result by \<open>-EFAULT\<close>
  because the offset cannot be stored back. The counters of the label semaphores must have
  room for two more readers.\<close>

theorem sendfile_balanced:
  assumes "sys_ok S" "room_for_two S" "n \<noteq> - EOVERFLOW" "put_ok \<or> n \<noteq> - EFAULT"
    "do_sendfile env out_fd in_fd ppos nbytes maxb S = Ret (n, pp, S') \<or>
     sys_sendfile env out_fd in_fd offset get_ok put_ok nbytes S = Ret (n, off', S') \<or>
     sys_sendfile64 env out_fd in_fd offset64 get_ok put_ok nbytes S = Ret (n, off64, S')"
  shows "labels_of S' = labels_of S"
  using assms do_sendfile_labels [OF assms(1) _ assms(3,2)]
  by (auto simp: sys_sendfile_def sys_sendfile64_def bindO_Ret_iff split: option.splits if_splits)

section \<open>Locks that are not given back\<close>

text \<open>While the label semaphore is held for reading, a change of the label waits.\<close>

lemma held_blocks_relabel:
  assumes "read_open (label_change_sem oss)" "difc_copy_user_label kok w = Some ul"
  shows "difc_inode_set_label kok p w cur parents
    (Some (oss\<lparr>label_change_sem := fst (down_read q (label_change_sem oss))\<rparr>)) = Oops Sleeps"
proof -
  have "activity (label_change_sem oss) + 1 \<noteq> 0"
    using assms(1) sint_incr [of "activity (label_change_sem oss)"] sint_0_iff [of "activity (label_change_sem oss) + 1"]
    by (simp add: read_open_def read_room_def)
  then show ?thesis using assms by (simp add: difc_inode_set_label_def read_open_def read_room_def down_read_def
        down_write_def down_write_nested_def Let_def)
qed

lemma locked_label:
  assumes "filps S fi = Some f" "labels_of S (f_inode f) = Some oss"
  shows "labels_of (locked fi S) (f_inode f) = Some (oss\<lparr>label_change_sem := fst (down_read (cur_pid S) (label_change_sem oss))\<rparr>)"
  using assms by (simp add: locked_def labels_of_def)

text \<open>C27: Listing a directory leaves its label semaphore held. When the flow is allowed and
  \<open>vfs_readdir\<close> returns, with entries or an error, the directory has one reader more than
  before, and every later change of its label, by whatever task, waits.\<close>

theorem readdir_keeps_lock:
  assumes "sys_ok S" "filps S fi = Some f" "f_op f = Some ops" "op_readdir ops = Some lister"
    "labels_of S (f_inode f) = Some oss" "may_access MAY_READ fi S" "vfs_readdir fi S = Ret (n, S')"
    "difc_copy_user_label kok w = Some ul"
  shows "\<exists>oss'. labels_of S' (f_inode f) = Some oss' \<and>
    activity (label_change_sem oss') = activity (label_change_sem oss) + 1 \<and>
    difc_inode_set_label kok p w cur parents (Some oss') = Oops Sleeps"
proof -
  have o: "read_open (label_change_sem oss)" using assms(1,5) by (auto simp: sys_ok_def labels_of_def)
  have "labels_of S' = labels_of (locked fi S)"
    using assms(2-4,6,7) permission_hook_spec [OF assms(1,2), of MAY_READ]
    by (auto simp: vfs_readdir_def get_file_def bindO_Ret_iff split: if_splits)
  then show ?thesis
    using locked_label [OF assms(2,5)] held_blocks_relabel [OF o assms(8)] o
    by (auto simp: read_open_def read_room_def down_read_def)
qed

lemma locked_commute:
  assumes "filps S fi = Some f" "filps S fo = Some g"
  shows "locked fo (locked fi S) = locked fi (locked fo S)"
proof (cases "f_inode f = f_inode g")
  case True
  have "locked fo T = locked fi T" if "filps T = filps S" for T using that assms True by (simp add: locked_def)
  then show ?thesis by simp
next
  case False
  then show ?thesis using assms by (auto simp: locked_def put_isec_def fun_upd_twist)
qed

lemma small_words:
  assumes "(x :: u32) \<le> MAX_RW_COUNT"
  shows "sint x = uint x" "sint (0x7FFFFFFF + ucast x :: u64) = 0x7FFFFFFF + uint x"
proof -
  have u: "0 \<le> uint x" "uint x \<le> 0x7FFFF000" using assms by (simp_all add: MAX_RW_COUNT_def word_le_def)
  show "sint x = uint x" unfolding sint_uint by (rule signed_take_bit_int_eq_self) (use u in \<open>simp_all, linarith\<close>)
  have "uint (0x7FFFFFFF + ucast x :: u64) = 0x7FFFFFFF + uint x"
    unfolding uint_word_ariths using u by (simp add: unsigned_ucast_eq take_bit_int_eq_self)
  then show "sint (0x7FFFFFFF + ucast x :: u64) = 0x7FFFFFFF + uint x"
    unfolding sint_uint using u by (simp add: signed_take_bit_int_eq_self)
qed

text \<open>Sending from the last position a 32-bit offset can name leaves the output file locked. If the
  task may read the one file and write the other, \<open>sys_sendfile\<close> with offset \<open>0x7FFFFFFF\<close>
  answers \<open>-EOVERFLOW\<close>, has given back the label lock of the input and kept that of the output,
  whose label nobody can change any more.\<close>

lemma sendfile_overflow_keeps_lock:
  assumes "sys_ok S" "\<not> files_shared S" "fd_table S in_fd = Some fi" "fd_table S out_fd = Some fo"
    "filps S fi = Some f" "f_mode f AND FMODE_READ \<noteq> 0" "f_mode f AND FMODE_PREAD \<noteq> 0"
    "f_op f = Some ops" "op_sendfile ops \<noteq> None" "\<not> i_flock (inodes S (f_inode f))" "may_access MAY_READ fi S"
    "filps S fo = Some g" "f_mode g AND FMODE_WRITE \<noteq> 0" "f_op g = Some gops" "op_sendpage gops"
    "\<not> i_flock (inodes S (f_inode g))" "0 \<le> sint (f_pos g)" "0 \<le> sint (f_pos g + ucast nbytes)"
    "may_access MAY_WRITE fo S" "labels_of S (f_inode g) = Some oss" "0 < nbytes" "nbytes \<le> MAX_RW_COUNT"
    "difc_copy_user_label kok w = Some ul" "room_for_two S"
  shows "sys_sendfile env out_fd in_fd (Some 0x7FFFFFFF) True True nbytes S = Ret (- EOVERFLOW, Some 0x7FFFFFFF, locked fo S) \<and>
    difc_inode_set_label kok p w cur parents (labels_of (locked fo S) (f_inode g)) = Oops Sleeps"
proof
  note s = small_words [OF assms(22)]
  have n: "0 < uint nbytes" "\<not> MAX_RW_COUNT < nbytes" using assms(21,22) by (simp_all add: word_less_def word_le_def not_less)
  have ok: "sys_ok (locked fi S)" using assms(1,24) by (rule sys_ok_locked)
  have acc: "may_access MAY_WRITE fo (locked fi S)"
    using assms(5,19) by (auto simp: may_access_def locked_def split: option.splits)
  have flk: "\<not> i_flock (inodes (locked fi S) (f_inode g))" using assms(5,16) by (auto simp: locked_def put_isec_def)
  have v: "rw_verify_area env True fi 0x7FFFFFFF nbytes S = Ret (uint nbytes)"
    "rw_verify_area env False fo (f_pos g) nbytes (locked fi S) = Ret (uint nbytes)"
    using assms(5,10,12,17,18) flk n s by (auto simp: rw_verify_area_def get_file_def Let_def)
  have l: "sendfile_locked ops fo 0x7FFFFFFF nbytes 0x7FFFFFFF d = Ret (- EOVERFLOW, 0x7FFFFFFF, False, d)" for d
    using n s by (simp add: sendfile_locked_def)
  have r: "rw_release_hook fi (locked fo (locked fi S)) = Ret (locked fo S)"
    using release_hook_spec [where S = "locked fo S" and fi = fi and d = "below_fop S", OF sys_ok_locked [OF assms(1,24)]] assms(5,12)
      locked_commute [OF assms(5,12)] by (simp add: locked_below)
  have o: "sendfile_out env ops out_fd ino 0x7FFFFFFF nbytes 0x7FFFFFFF (locked fi S)
      = Ret (- EOVERFLOW, 0x7FFFFFFF, locked fo (locked fi S))" for ino
    using assms(2,4,12-15) acc v(2) l permission_hook_spec [OF ok, of fo g MAY_WRITE]
    by (simp add: sendfile_out_def sendfile_checked_def fget_light_def fput_light_def get_file_def Let_def locked_below)
  show "sys_sendfile env out_fd in_fd (Some 0x7FFFFFFF) True True nbytes S = Ret (- EOVERFLOW, Some 0x7FFFFFFF, locked fo S)"
    using assms(2,3,5-9,11) v(1) o r permission_hook_spec [OF assms(1,5), of MAY_READ]
    by (auto simp: sys_sendfile_def do_sendfile_def sendfile_in_def fget_light_def fput_light_def get_file_def
        send_pos_def MAX_NON_LFS_def)
  have "read_open (label_change_sem oss)" using assms(1,20) by (auto simp: sys_ok_def labels_of_def)
  then show "difc_inode_set_label kok p w cur parents (labels_of (locked fo S) (f_inode g)) = Oops Sleeps"
    using locked_label [OF assms(12,20)] held_blocks_relabel [OF _ assms(23)] by simp
qed

text \<open>An asynchronous \<open>fsync\<close> gives back a lock that requests to synchronise never took: on a file
  with an idle label semaphore \<open>io_submit_one\<close> succeeds and leaves the counter at -1. In this
  semaphore that is the mark of a writer, and every later permission check on the file waits;
  with the counter of \<open>Rwsem_Xadd\<close> the next reader is let in and a writer would get the lock
  beside it.\<close>

lemma aio_fsync_shuts_file:
  assumes "fd_table S (aio_fildes c) = Some fi" "filps S fi = Some f" "f_count f \<noteq> 0" "f_op f = Some ops" "op_aio_fsync ops"
    "labels_of S (f_inode f) = Some oss" "activity (label_change_sem oss) = 0" "wait_list (label_change_sem oss) = []"
    "\<not> aio_reserved c" "aio_buf c = 0" "aio_nbytes c = 0" "aio_lio_opcode c \<in> {IOCB_CMD_FSYNC, IOCB_CMD_FDSYNC}"
  shows "\<exists>S' oss'. io_submit_one env act True True uvec c S = Ret (0, S') \<and> labels_of S' (f_inode f) = Some oss' \<and>
    activity (label_change_sem oss') = - 1 \<and> difc_file_permission p cur (Some oss') msk = Oops Sleeps"
  using assms
  by (auto simp: io_submit_one_def fget_def aio_setup_iocb_def aio_setup_sync_def iocb_cmds get_file_def put_file_def
      rw_release_hook_def difc_file_rw_release_def up_read_sem_def up_read_def Let_def labels_of_def
      difc_file_permission_def down_read_def)

section \<open>Examples\<close>

text \<open>An unlabelled user and a system with two unlabelled files, open for reading and writing, whose
  operations leave the state alone; descriptors 3 and 4 name files 0 and 1.\<close>

definition plain_ops :: "unit file_operations" where
  "plain_ops = \<lparr>op_llseek = None, op_read = Some (\<lambda>buf n pos d. Ret (uint n, pos + ucast n, d)),
     op_write = Some (\<lambda>buf n pos d. Ret (uint n, pos + ucast n, d)), op_aio_read = None, op_aio_write = None,
     op_sendfile = Some (\<lambda>pos n out d. Ret (uint n, pos + ucast n, d)), op_sendpage = True,
     op_readdir = Some (\<lambda>d. Ret (2, d)), op_aio_fsync = True, op_release = None\<rparr>"

definition idle_obj :: object_security_struct where
  "idle_obj = \<lparr>obj_label = mk_label [] [], label_change_sem = init_rwsem\<rparr>"

definition open_file :: "nat \<Rightarrow> unit struct_file" where
  "open_file i = \<lparr>f_mode = FMODE_READ OR FMODE_WRITE OR FMODE_PREAD, f_pos = 0, f_count = 1, f_inode = i, f_op = Some plain_ops\<rparr>"

definition two_files :: "unit system" where
  "two_files = \<lparr>cur_pid = 1, cur_task = \<lparr>uid = 1000, security = Some (sample_task\<lparr>label := mk_label [] []\<rparr>)\<rparr>,
     fd_table = [3 \<mapsto> 0, 4 \<mapsto> 1], files_shared = False, filps = [0 \<mapsto> open_file 0, 1 \<mapsto> open_file 1],
     inodes = (\<lambda>_. \<lparr>i_mode = 0x8180, i_security = Some idle_obj, i_pipe = None, i_flock = False, i_size = 100,
       s_maxbytes = 0x7FFFFFFF, dead_dir = False\<rparr>), below_fop = ()\<rparr>"

definition plain_vfs :: "unit vfs_env" where
  "plain_vfs = \<lparr>locks_mandatory_area = (\<lambda>_ _ _ _ _. 0), wait_on_sync_kiocb = (\<lambda>d. (0, 0, d)), kmalloc_iov = True, retries = 1\<rparr>"

lemma mk_label_nil: "wf_label (mk_label [] [])" "can_flow (mk_label [] []) (mk_label [] [])"
  by (simp_all add: can_flow_def)

lemma two_files_simps [simp]:
  "fd_table two_files 3 = Some 0" "fd_table two_files 4 = Some 1" "\<not> files_shared two_files"
  "filps two_files 0 = Some (open_file 0)" "filps two_files 1 = Some (open_file 1)"
  "filps two_files (Suc 0) = Some (open_file 1)"
  "labels_of two_files i = Some idle_obj" "\<not> i_flock (inodes two_files i)" "\<not> dead_dir (inodes two_files i)"
  "i_security (inodes two_files i) = Some idle_obj"
  by (simp_all add: two_files_def labels_of_def)

lemma open_file_simps [simp]:
  "f_inode (open_file i) = i" "f_op (open_file i) = Some plain_ops" "f_pos (open_file i) = 0" "f_count (open_file i) = 1"
  "f_mode (open_file i) AND FMODE_READ \<noteq> 0" "f_mode (open_file i) AND FMODE_WRITE \<noteq> 0"
  "f_mode (open_file i) AND FMODE_PREAD \<noteq> 0"
  by (simp_all add: open_file_def FMODE_READ_def FMODE_WRITE_def FMODE_PREAD_def)

lemma two_files_ok: "sys_ok two_files"
  using mk_label_nil by (auto simp: sys_ok_def two_files_def idle_obj_def read_open_def read_room_def init_rwsem_def)

lemma two_files_room: "room_for_two two_files"
  by (simp add: room_for_two_def idle_obj_def read_room_def init_rwsem_def)

lemma two_files_access: "i < 2 \<Longrightarrow> may_access m i two_files"
  using mk_label_nil by (auto simp: may_access_def two_files_def idle_obj_def access_ok_def less_2_cases_iff)

lemma user_words_label: "difc_copy_user_label True (replicate 64 0) = Some \<lparr>secList = replicate 32 0, intList = replicate 32 0\<rparr>"
  by (simp add: difc_copy_user_label_def LIST_WORDS_def)

theorem file_calls_guarded_witness:
  "\<exists>S'. do_call plain_vfs (Write 3 0 5) two_files = Ret (5, S') \<and> labels_of S' = labels_of two_files"
proof -
  have v: "rw_verify_area plain_vfs False 0 0 5 two_files = Ret 5"
    by (simp add: rw_verify_area_def get_file_def MAX_RW_COUNT_def Let_def)
  have "\<exists>S'. do_call plain_vfs (Write 3 0 5) two_files = Ret (5, S')"
    using v permission_hook_spec [OF two_files_ok, of 0 "open_file 0" MAY_WRITE] two_files_access [of 0 MAY_WRITE]
      release_hook_spec [OF two_files_ok, of 0 "open_file 0" "()"]
    by (simp add: sys_write_def at_file_pos_def fget_light_def fput_light_def file_pos_read_def file_pos_write_def
        get_file_def vfs_write_def plain_ops_def user_range_ok_def)
  then obtain S' where "do_call plain_vfs (Write 3 0 5) two_files = Ret (5, S')" by blast
  then show ?thesis using file_calls_guarded [OF two_files_ok] by blast
qed

theorem sendfile_balanced_witness:
  "\<exists>S'. sys_sendfile plain_vfs 9 3 (Some 0) True True 5 two_files = Ret (- EBADF, Some 0, S') \<and>
     labels_of S' = labels_of two_files"
proof -
  have v: "rw_verify_area plain_vfs True 0 0 5 two_files = Ret 5"
    by (simp add: rw_verify_area_def get_file_def MAX_RW_COUNT_def Let_def)
  have o: "sendfile_out plain_vfs plain_ops 9 ino 0 5 MAX_NON_LFS (locked 0 two_files) = Ret (- EBADF, 0, locked 0 two_files)" for ino
    by (simp add: sendfile_out_def fget_light_def two_files_def)
  have "rw_release_hook 0 (locked 0 two_files) = Ret two_files"
    using release_hook_spec [OF two_files_ok, of 0 "open_file 0" "below_fop two_files"] by (simp add: locked_below)
  then have "sys_sendfile plain_vfs 9 3 (Some 0) True True 5 two_files = Ret (- EBADF, Some 0, two_files)"
    using v o permission_hook_spec [OF two_files_ok, of 0 "open_file 0" MAY_READ] two_files_access [of 0 MAY_READ]
    by (simp add: sys_sendfile_def do_sendfile_def sendfile_in_def fget_light_def fput_light_def get_file_def
        send_pos_def plain_ops_def)
  then show ?thesis
    using sendfile_balanced [OF two_files_ok two_files_room, of "- EBADF" True plain_vfs 9 3 _ 5 _ _ two_files "Some 0" True]
    by (auto simp: errno_defs)
qed

theorem readdir_keeps_lock_witness:
  "\<exists>S' oss'. vfs_readdir 0 two_files = Ret (2, S') \<and> labels_of S' 0 = Some oss' \<and> activity (label_change_sem oss') = 1 \<and>
     difc_inode_set_label True 7 (replicate 64 0) sample_user [] (Some oss') = Oops Sleeps"
proof -
  have "vfs_readdir 0 two_files = Ret (2, (locked 0 two_files)\<lparr>below_fop := ()\<rparr>)"
    using permission_hook_spec [OF two_files_ok, of 0 "open_file 0" MAY_READ] two_files_access [of 0 MAY_READ]
    by (simp add: vfs_readdir_def get_file_def plain_ops_def) (simp add: locked_def put_isec_def)
  then show ?thesis
    using readdir_keeps_lock [OF two_files_ok, of 0 "open_file 0" plain_ops "\<lambda>d. Ret (2, d)" idle_obj 2
        "(locked 0 two_files)\<lparr>below_fop := ()\<rparr>" True "replicate 64 0" _ 7 sample_user "[]"]
      user_words_label two_files_access [of 0 MAY_READ]
    by (auto simp: plain_ops_def idle_obj_def init_rwsem_def)
qed

lemma sendfile_overflow_keeps_lock_example:
  "sys_sendfile plain_vfs 4 3 (Some 0x7FFFFFFF) True True 1 two_files =
     Ret (- EOVERFLOW, Some 0x7FFFFFFF, locked 1 two_files)"
  using sendfile_overflow_keeps_lock [OF two_files_ok, of 3 0 4 1 "open_file 0" plain_ops "open_file 1" plain_ops 1 idle_obj
      True "replicate 64 0"] user_words_label two_files_room two_files_access [of 0 MAY_READ] two_files_access [of 1 MAY_WRITE]
  by (simp add: plain_ops_def MAX_RW_COUNT_def)

lemma aio_fsync_shuts_file_example:
  "\<exists>S' oss'. io_submit_one plain_vfs (\<lambda>_ d. d) True True None
       \<lparr>aio_reserved = False, aio_buf = 0, aio_nbytes = 0, aio_fildes = 3, aio_offset = 0, aio_lio_opcode = IOCB_CMD_FSYNC\<rparr> two_files
     = Ret (0, S') \<and> labels_of S' 0 = Some oss' \<and> difc_file_permission 7 sample_user (Some oss') MAY_READ = Oops Sleeps"
  using aio_fsync_shuts_file [of two_files
      "\<lparr>aio_reserved = False, aio_buf = 0, aio_nbytes = 0, aio_fildes = 3, aio_offset = 0, aio_lio_opcode = IOCB_CMD_FSYNC\<rparr>"
      0 "open_file 0" plain_ops idle_obj plain_vfs "\<lambda>_ d. d" None 7 sample_user MAY_READ]
  by (auto simp: plain_ops_def idle_obj_def init_rwsem_def)

end
