(* ===== verification/Label_Sets.thy ===== *)
theory Label_Sets
  imports Main
begin

text \<open>
  The label sets of the virtual machine, \<^verbatim>\<open>scheduler/LabelSet.java\<close>: immutable sorted arrays
  of labels with a used length. The class compares sets by reference before it looks at
  their elements, so an object is its identity together with its array; the identity 0 is
  the object \<open>EMPTY\<close>. Operations that may create an object take its fresh identity as the
  argument \<open>nid\<close>. Labels are Java \<open>long\<close> values; they are only compared.

  Each loop is shown equal to a recursion on sorted lists, and each operation to be the set
  operation it is named after.
\<close>

record LabelSet =
  ident :: nat
  arr :: "int list"
  len :: nat

definition EMPTY :: LabelSet where
  "EMPTY = \<lparr>ident = 0, arr = [], len = 0\<rparr>"

definition new_LabelSet :: "nat \<Rightarrow> int list \<Rightarrow> nat \<Rightarrow> LabelSet" where
  "new_LabelSet nid labels n = \<lparr>ident = nid, arr = labels, len = n\<rparr>"

text \<open>Comparison of references.\<close>

definition is_EMPTY :: "LabelSet \<Rightarrow> bool" where
  "is_EMPTY l \<longleftrightarrow> ident l = ident EMPTY"

definition same :: "LabelSet \<Rightarrow> LabelSet \<Rightarrow> bool" where
  "same l1 l2 \<longleftrightarrow> ident l1 = ident l2"

section \<open>The operations\<close>

text \<open>In the loops below a position never passes the length it is compared with, so the test
  of equality with the length is written as \<open>\<le>\<close>.\<close>

function subset_walk :: "LabelSet \<Rightarrow> LabelSet \<Rightarrow> nat \<Rightarrow> nat \<Rightarrow> bool" where
  "subset_walk l1 l2 pos1 pos2 =
     (if pos1 < len l1 then
        if len l2 \<le> pos2 then False
        else if arr l2 ! pos2 < arr l1 ! pos1 then subset_walk l1 l2 pos1 (Suc pos2)
        else if arr l2 ! pos2 > arr l1 ! pos1 then False
        else subset_walk l1 l2 (Suc pos1) (Suc pos2)
      else True)"
  by pat_completeness auto
termination
  by (relation "measure (\<lambda>(l1, l2, p1, p2). (len l1 - p1) + (len l2 - p2))") auto

definition isSubsetOfSlowPath :: "LabelSet \<Rightarrow> LabelSet \<Rightarrow> bool" where
  "isSubsetOfSlowPath this other = subset_walk this other 0 0"

definition isSubsetOf :: "LabelSet \<Rightarrow> LabelSet \<Rightarrow> bool" where
  "isSubsetOf this other =
     (if is_EMPTY this then True
      else if same this other then True
      else isSubsetOfSlowPath this other)"

function union_walk ::
  "int list \<Rightarrow> nat \<Rightarrow> int list \<Rightarrow> nat \<Rightarrow> int list \<Rightarrow> nat \<Rightarrow> nat \<Rightarrow> nat \<Rightarrow> int list \<times> nat" where
  "union_walk labels1 len1 labels2 len2 newLabels newPos pos1 pos2 =
     (if pos1 < len1 \<or> pos2 < len2 then
        if len1 \<le> pos1 then
          union_walk labels1 len1 labels2 len2 (newLabels[newPos := labels2 ! pos2]) (Suc newPos) pos1 (Suc pos2)
        else if len2 \<le> pos2 then
          union_walk labels1 len1 labels2 len2 (newLabels[newPos := labels1 ! pos1]) (Suc newPos) (Suc pos1) pos2
        else if labels1 ! pos1 < labels2 ! pos2 then
          union_walk labels1 len1 labels2 len2 (newLabels[newPos := labels1 ! pos1]) (Suc newPos) (Suc pos1) pos2
        else if labels1 ! pos1 > labels2 ! pos2 then
          union_walk labels1 len1 labels2 len2 (newLabels[newPos := labels2 ! pos2]) (Suc newPos) pos1 (Suc pos2)
        else
          union_walk labels1 len1 labels2 len2 (newLabels[newPos := labels1 ! pos1]) (Suc newPos) (Suc pos1) (Suc pos2)
      else (newLabels, newPos))"
  by pat_completeness auto
termination
  by (relation "measure (\<lambda>(xs, n1, ys, n2, new, np, p1, p2). (n1 - p1) + (n2 - p2))") auto

definition unionSlowPath :: "nat \<Rightarrow> LabelSet \<Rightarrow> LabelSet \<Rightarrow> LabelSet" where
  "unionSlowPath nid l1 l2 =
     (case union_walk (arr l1) (len l1) (arr l2) (len l2) (replicate (len l1 + len l2) 0) 0 0 0 of
        (newLabels, newPos) \<Rightarrow>
          if newPos = len l1 then l1
          else if newPos = len l2 then l2
          else new_LabelSet nid newLabels newPos)"

definition union_set :: "nat \<Rightarrow> LabelSet \<Rightarrow> LabelSet \<Rightarrow> LabelSet" where
  "union_set nid l1 l2 =
     (if is_EMPTY l2 then l1
      else if is_EMPTY l1 then l2
      else if same l1 l2 then l1
      else unionSlowPath nid l1 l2)"

definition union_label :: "nat \<Rightarrow> LabelSet \<Rightarrow> int \<Rightarrow> LabelSet" where
  "union_label nid l1 l2 =
     (case union_walk (arr l1) (len l1) [l2] 1 (replicate (len l1 + 1) 0) 0 0 0 of
        (newLabels, newPos) \<Rightarrow>
          if newPos = len l1 then l1 else new_LabelSet nid newLabels newPos)"

definition getLabelSet :: "nat \<Rightarrow> int \<Rightarrow> LabelSet" where
  "getLabelSet nid label = new_LabelSet nid [label] 1"

definition getLabelSet2 :: "nat \<Rightarrow> int \<Rightarrow> int \<Rightarrow> LabelSet" where
  "getLabelSet2 nid label1 label2 = union_label (nid + 1) (getLabelSet nid label1) label2"

definition getLabelSet3 :: "nat \<Rightarrow> int \<Rightarrow> int \<Rightarrow> int \<Rightarrow> LabelSet" where
  "getLabelSet3 nid label1 label2 label3 = union_label (nid + 2) (getLabelSet2 nid label1 label2) label3"

function minus_walk ::
  "LabelSet \<Rightarrow> LabelSet \<Rightarrow> int list \<Rightarrow> nat \<Rightarrow> nat \<Rightarrow> nat \<Rightarrow> int list \<times> nat" where
  "minus_walk l1 l2 newLabels newPos pos1 pos2 =
     (if pos1 < len l1 then
        if len l2 \<le> pos2 \<or> arr l1 ! pos1 < arr l2 ! pos2 then
          minus_walk l1 l2 (newLabels[newPos := arr l1 ! pos1]) (Suc newPos) (Suc pos1) pos2
        else if arr l1 ! pos1 > arr l2 ! pos2 then minus_walk l1 l2 newLabels newPos pos1 (Suc pos2)
        else minus_walk l1 l2 newLabels newPos (Suc pos1) (Suc pos2)
      else (newLabels, newPos))"
  by pat_completeness auto
termination
  by (relation "measure (\<lambda>(l1, l2, new, np, p1, p2). (len l1 - p1) + (len l2 - p2))") auto

definition minusSlowPath :: "nat \<Rightarrow> LabelSet \<Rightarrow> LabelSet \<Rightarrow> LabelSet" where
  "minusSlowPath nid l1 l2 =
     (case minus_walk l1 l2 (replicate (len l1) 0) 0 0 0 of
        (newLabels, newPos) \<Rightarrow> if newPos = 0 then EMPTY else new_LabelSet nid newLabels newPos)"

definition minus_set :: "nat \<Rightarrow> LabelSet \<Rightarrow> LabelSet \<Rightarrow> LabelSet" where
  "minus_set nid l1 l2 =
     (if is_EMPTY l1 \<or> is_EMPTY l2 then l1
      else if same l1 l2 then EMPTY
      else minusSlowPath nid l1 l2)"

function in_union_walk :: "LabelSet \<Rightarrow> LabelSet \<Rightarrow> LabelSet \<Rightarrow> nat \<Rightarrow> nat \<Rightarrow> nat \<Rightarrow> bool" where
  "in_union_walk l f s pos pos1 pos2 =
     (if pos < len l then
        let x = arr l ! pos;
            incr1 = (pos1 < len f \<and> x = arr f ! pos1);
            step1 = (pos1 < len f \<and> arr f ! pos1 \<le> x);
            incr2 = (pos2 < len s \<and> x = arr s ! pos2);
            step2 = (pos2 < len s \<and> arr s ! pos2 \<le> x)
        in if \<not> (step1 \<or> step2) then False
           else in_union_walk l f s (if incr1 \<or> incr2 then Suc pos else pos)
                  (if step1 then Suc pos1 else pos1) (if step2 then Suc pos2 else pos2)
      else True)"
  by pat_completeness auto
termination
  by (relation "measure (\<lambda>(l, f, s, p, p1, p2). (len f - p1) + (len s - p2))") (auto simp: Let_def)

definition checkInUnionSlowPath :: "LabelSet \<Rightarrow> LabelSet \<Rightarrow> LabelSet \<Rightarrow> bool" where
  "checkInUnionSlowPath this firstSet secondSet = in_union_walk this firstSet secondSet 0 0 0"

definition checkInUnion :: "LabelSet \<Rightarrow> LabelSet \<Rightarrow> LabelSet \<Rightarrow> bool" where
  "checkInUnion this firstSet secondSet =
     (if is_EMPTY this then True
      else if is_EMPTY firstSet then isSubsetOf this secondSet
      else if is_EMPTY secondSet then isSubsetOf this firstSet
      else checkInUnionSlowPath this firstSet secondSet)"

declare subset_walk.simps [simp del] union_walk.simps [simp del] minus_walk.simps [simp del]
  in_union_walk.simps [simp del]

section \<open>Well-formed sets\<close>

definition elems :: "LabelSet \<Rightarrow> int list" where
  "elems l = take (len l) (arr l)"

definition wf_set :: "LabelSet \<Rightarrow> bool" where
  "wf_set l \<longleftrightarrow> len l \<le> length (arr l) \<and> sorted_wrt (<) (elems l) \<and> (len l = 0 \<longleftrightarrow> ident l = 0)"

text \<open>Two references with the same identity are the same object.\<close>

definition coherent :: "LabelSet set \<Rightarrow> bool" where
  "coherent S \<longleftrightarrow> (\<forall>a \<in> S. \<forall>b \<in> S. ident a = ident b \<longrightarrow> a = b)"

lemma wf_EMPTY [simp]: "wf_set EMPTY" and elems_EMPTY [simp]: "elems EMPTY = []"
  and is_EMPTY_EMPTY [simp]: "is_EMPTY EMPTY"
  by (simp_all add: wf_set_def EMPTY_def elems_def is_EMPTY_def)

lemma length_elems: "wf_set l \<Longrightarrow> length (elems l) = len l"
  by (simp add: wf_set_def elems_def)

lemma arr_elems: "p < len l \<Longrightarrow> arr l ! p = elems l ! p"
  by (simp add: elems_def)

lemma is_EMPTY_iff: "wf_set l \<Longrightarrow> is_EMPTY l \<longleftrightarrow> elems l = []"
  by (auto simp: is_EMPTY_def wf_set_def EMPTY_def elems_def)

lemma drop_elems:
  "wf_set l \<Longrightarrow> p < len l \<Longrightarrow> drop p (elems l) = arr l ! p # drop (Suc p) (elems l)"
  by (simp add: Cons_nth_drop_Suc length_elems arr_elems)

lemma drop_elems_end: "wf_set l \<Longrightarrow> len l \<le> p \<Longrightarrow> drop p (elems l) = []"
  by (simp add: length_elems)

lemma sorted_drop_elems: "wf_set l \<Longrightarrow> sorted_wrt (<) (drop p (elems l))"
  by (simp add: wf_set_def sorted_wrt_drop)

section \<open>The loops\<close>

lemma subset_walk_spec:
  assumes "wf_set l1" and "wf_set l2"
  shows "subset_walk l1 l2 p1 p2 \<longleftrightarrow> set (drop p1 (elems l1)) \<subseteq> set (drop p2 (elems l2))"
  using assms
proof (induction l1 l2 p1 p2 rule: subset_walk.induct)
  case (1 l1 l2 p1 p2)
  show ?case
  proof (cases "p1 < len l1 \<and> p2 < len l2")
    case False
    then show ?thesis
      using 1(3,4) drop_elems [OF 1(3), of p1] drop_elems_end [OF 1(3), of p1] drop_elems_end [OF 1(4), of p2]
      by (subst subset_walk.simps) auto
  next
    case True
    then have d: "drop p1 (elems l1) = arr l1 ! p1 # drop (Suc p1) (elems l1)"
      "drop p2 (elems l2) = arr l2 ! p2 # drop (Suc p2) (elems l2)"
      using drop_elems 1(3,4) by auto
    have s: "sorted_wrt (<) (arr l1 ! p1 # drop (Suc p1) (elems l1))"
      "sorted_wrt (<) (arr l2 ! p2 # drop (Suc p2) (elems l2))"
      using sorted_drop_elems [OF 1(3), of p1] sorted_drop_elems [OF 1(4), of p2] d by auto
    consider "arr l2 ! p2 < arr l1 ! p1" | "arr l2 ! p2 > arr l1 ! p1" | "arr l2 ! p2 = arr l1 ! p1"
      by linarith
    then show ?thesis
    proof cases
      case 1
      then show ?thesis
        using "1.IH"(1) "1.prems" True d s by (subst subset_walk.simps) fastforce
    next
      case 2
      then show ?thesis using True d s by (subst subset_walk.simps) fastforce
    next
      case 3
      then show ?thesis
        using "1.IH"(2) "1.prems" True d s by (subst subset_walk.simps) fastforce
    qed
  qed
qed

text \<open>The union of two sorted lists, and their difference, as recursions.\<close>

fun merge :: "int list \<Rightarrow> int list \<Rightarrow> int list" where
  "merge [] ys = ys"
| "merge xs [] = xs"
| "merge (x # xs) (y # ys) =
     (if x < y then x # merge xs (y # ys) else if x > y then y # merge (x # xs) ys else x # merge xs ys)"

fun diff :: "int list \<Rightarrow> int list \<Rightarrow> int list" where
  "diff [] ys = []"
| "diff xs [] = xs"
| "diff (x # xs) (y # ys) =
     (if x < y then x # diff xs (y # ys) else if x > y then diff (x # xs) ys else diff xs ys)"

lemma merge_Nil2 [simp]: "merge xs [] = xs" and diff_Nil2 [simp]: "diff xs [] = xs"
  by (cases xs; simp)+

lemma set_merge [simp]: "set (merge xs ys) = set xs \<union> set ys"
  by (induction xs ys rule: merge.induct) auto

lemma sorted_merge:
  "sorted_wrt (<) xs \<Longrightarrow> sorted_wrt (<) ys \<Longrightarrow> sorted_wrt (<) (merge xs ys)"
  by (induction xs ys rule: merge.induct) auto

lemma length_merge:
  "length xs \<le> length (merge xs ys)" "length ys \<le> length (merge xs ys)"
  by (induction xs ys rule: merge.induct) auto

lemma length_merge_le: "length (merge xs ys) \<le> length xs + length ys"
  by (induction xs ys rule: merge.induct) auto

lemma sorted_set_eq:
  assumes "sorted_wrt (<) xs" "sorted_wrt (<) (zs :: int list)" "set xs \<subseteq> set zs" "length zs = length xs"
  shows "zs = xs"
proof -
  have "distinct xs" "distinct zs" using assms(1,2) by (simp_all add: strict_sorted_iff)
  then have "card (set xs) = card (set zs)" using assms(4) by (simp add: distinct_card)
  then have "set xs = set zs" using assms(3) by (simp add: card_subset_eq)
  then show ?thesis using assms(1,2) strict_sorted_equal by metis
qed

lemma set_diff [simp]:
  "sorted_wrt (<) xs \<Longrightarrow> sorted_wrt (<) ys \<Longrightarrow> set (diff xs ys) = set xs - set ys"
proof (induction xs ys rule: diff.induct)
  case (3 x xs y ys)
  consider "x < y" | "x > y" | "x = y" by linarith
  then show ?case
  proof cases
    case 1
    then show ?thesis using 3 by auto
  next
    case 2
    then show ?thesis using 3 by auto
  next
    case c: 3
    then show ?thesis using 3 by auto
  qed
qed simp_all

lemma sorted_diff:
  "sorted_wrt (<) xs \<Longrightarrow> sorted_wrt (<) ys \<Longrightarrow> sorted_wrt (<) (diff xs ys)"
  by (induction xs ys rule: diff.induct) auto

lemma length_diff: "length (diff xs ys) \<le> length xs"
  by (induction xs ys rule: diff.induct) auto

lemma take_Suc_update: "n < length xs \<Longrightarrow> take (Suc n) (xs[n := v]) = take n xs @ [v]"
  by (simp add: take_Suc_conv_app_nth)

lemma drop_take_Cons:
  "p < n \<Longrightarrow> n \<le> length xs \<Longrightarrow> drop p (take n xs) = xs ! p # drop (Suc p) (take n xs)"
  by (metis Cons_nth_drop_Suc length_take min.absorb2 nth_take)

lemma union_walk_spec:
  assumes "union_walk xs n1 ys n2 new np p1 p2 = (new', np')"
    and "n1 \<le> length xs" "n2 \<le> length ys" "np + (n1 - p1) + (n2 - p2) \<le> length new"
  shows "take np' new' = take np new @ merge (drop p1 (take n1 xs)) (drop p2 (take n2 ys)) \<and>
    length new' = length new \<and> np' = np + length (merge (drop p1 (take n1 xs)) (drop p2 (take n2 ys)))"
  using assms
proof (induction xs n1 ys n2 new np p1 p2 arbitrary: new' np' rule: union_walk.induct)
  case (1 xs n1 ys n2 new np p1 p2)
  note d = drop_take_Cons [of p1 n1 xs] drop_take_Cons [of p2 n2 ys]
  show ?case
  proof (cases "p1 < n1 \<or> p2 < n2")
    case False
    then have "drop p1 (take n1 xs) = []" "drop p2 (take n2 ys) = []" by auto
    then show ?thesis
      using "1.prems"(1) False by (simp add: union_walk.simps [of xs n1 ys n2 new np p1 p2])
  next
    case True
    then have np: "np < length new" using "1.prems"(4) by linarith
    note step = "1.prems"(1) [unfolded union_walk.simps [of xs n1 ys n2 new np p1 p2]]
    consider "n1 \<le> p1" | "p1 < n1" "n2 \<le> p2" | "p1 < n1" "p2 < n2" "xs ! p1 < ys ! p2"
      | "p1 < n1" "p2 < n2" "xs ! p1 > ys ! p2" | "p1 < n1" "p2 < n2" "xs ! p1 = ys ! p2"
      by linarith
    then show ?thesis
    proof cases
      case 1
      then have p2: "p2 < n2" using True by simp
      have "union_walk xs n1 ys n2 (new[np := ys ! p2]) (Suc np) p1 (Suc p2) = (new', np')"
        using step True 1 by simp
      moreover have "Suc np + (n1 - p1) + (n2 - Suc p2) \<le> length (new[np := ys ! p2])"
        using "1.prems"(4) p2 by simp
      ultimately show ?thesis
        using "1.IH"(1) [OF True 1] "1.prems"(2,3) 1 p2 np d by (auto simp: take_Suc_update)
    next
      case 2
      have r: "union_walk xs n1 ys n2 (new[np := xs ! p1]) (Suc np) (Suc p1) p2 = (new', np')"
        using step 2 by simp
      have b: "Suc np + (n1 - Suc p1) + (n2 - p2) \<le> length (new[np := xs ! p1])"
        using "1.prems"(4) 2 by simp
      show ?thesis
        using "1.IH"(2) [OF True _ 2(2) r "1.prems"(2,3) b] 2 "1.prems"(2,3) np d by (auto simp: take_Suc_update)
    next
      case 3
      have r: "union_walk xs n1 ys n2 (new[np := xs ! p1]) (Suc np) (Suc p1) p2 = (new', np')"
        using step 3 by simp
      have b: "Suc np + (n1 - Suc p1) + (n2 - p2) \<le> length (new[np := xs ! p1])"
        using "1.prems"(4) 3 by simp
      show ?thesis
        using "1.IH"(3) [OF True _ _ 3(3) r "1.prems"(2,3) b] 3 "1.prems"(2,3) np d by (auto simp: take_Suc_update)
    next
      case 4
      have r: "union_walk xs n1 ys n2 (new[np := ys ! p2]) (Suc np) p1 (Suc p2) = (new', np')"
        using step 4 by simp
      have b: "Suc np + (n1 - p1) + (n2 - Suc p2) \<le> length (new[np := ys ! p2])"
        using "1.prems"(4) 4 by simp
      show ?thesis
        using "1.IH"(4) [OF True _ _ _ 4(3) r "1.prems"(2,3) b] 4 "1.prems"(2,3) np d by (auto simp: take_Suc_update)
    next
      case 5
      have r: "union_walk xs n1 ys n2 (new[np := xs ! p1]) (Suc np) (Suc p1) (Suc p2) = (new', np')"
        using step 5 by simp
      have b: "Suc np + (n1 - Suc p1) + (n2 - Suc p2) \<le> length (new[np := xs ! p1])"
        using "1.prems"(4) 5 by simp
      show ?thesis
        using "1.IH"(5) [OF True _ _ _ _ r "1.prems"(2,3) b] 5 "1.prems"(2,3) np d by (auto simp: take_Suc_update)
    qed
  qed
qed

lemma minus_walk_spec:
  assumes "minus_walk l1 l2 new np p1 p2 = (new', np')"
    and "wf_set l1" "wf_set l2" "np + (len l1 - p1) \<le> length new"
  shows "take np' new' = take np new @ diff (drop p1 (elems l1)) (drop p2 (elems l2)) \<and>
    length new' = length new \<and> np' = np + length (diff (drop p1 (elems l1)) (drop p2 (elems l2)))"
  using assms
proof (induction l1 l2 new np p1 p2 arbitrary: new' np' rule: minus_walk.induct)
  case (1 l1 l2 new np p1 p2)
  note d = drop_elems [OF "1.prems"(2), of p1] drop_elems [OF "1.prems"(3), of p2]
    drop_elems_end [OF "1.prems"(2), of p1] drop_elems_end [OF "1.prems"(3), of p2]
  note step = "1.prems"(1) [unfolded minus_walk.simps [of l1 l2 new np p1 p2]]
  show ?case
  proof (cases "p1 < len l1")
    case False
    then show ?thesis using step d by simp
  next
    case True
    then have np: "np < length new" using "1.prems"(4) by linarith
    consider "len l2 \<le> p2 \<or> arr l1 ! p1 < arr l2 ! p2" | "p2 < len l2" "arr l1 ! p1 > arr l2 ! p2"
      | "p2 < len l2" "arr l1 ! p1 = arr l2 ! p2"
      by linarith
    then show ?thesis
    proof cases
      case 1
      have "minus_walk l1 l2 (new[np := arr l1 ! p1]) (Suc np) (Suc p1) p2 = (new', np')"
        using step True 1 by simp
      moreover have "Suc np + (len l1 - Suc p1) \<le> length (new[np := arr l1 ! p1])"
        using "1.prems"(4) True by simp
      ultimately show ?thesis
        using "1.IH"(1) [OF True 1] "1.prems"(2,3) 1 True np d
        by (cases "len l2 \<le> p2") (auto simp: take_Suc_update)
    next
      case 2
      have r: "minus_walk l1 l2 new np p1 (Suc p2) = (new', np')" using step True 2 by simp
      show ?thesis using "1.IH"(2) [OF True _ 2(2) r "1.prems"(2-4)] 2 True d by auto
    next
      case 3
      have r: "minus_walk l1 l2 new np (Suc p1) (Suc p2) = (new', np')" using step True 3 by simp
      have b: "np + (len l1 - Suc p1) \<le> length new" using "1.prems"(4) by simp
      show ?thesis using "1.IH"(3) [OF True _ _ r "1.prems"(2,3) b] 3 True d by auto
    qed
  qed
qed

text \<open>The walk over three arrays advances past elements that are too small to matter.\<close>

lemma drop_head:
  assumes "wf_set l"
  shows "y \<in> set (drop p (elems l)) \<longleftrightarrow> p < len l \<and> (y = arr l ! p \<or> y \<in> set (drop (Suc p) (elems l)))"
  using drop_elems [OF assms, of p] drop_elems_end [OF assms, of p] by (cases "p < len l") auto

lemma drop_head_less:
  "wf_set l \<Longrightarrow> p < len l \<Longrightarrow> y \<in> set (drop (Suc p) (elems l)) \<Longrightarrow> arr l ! p < y"
  using sorted_drop_elems [of l p] drop_elems [of l p] by simp

text \<open>Advancing in one of the two sets keeps what matters for elements from \<open>x\<close> on.\<close>

lemma advance_keeps:
  assumes "wf_set l" and "x < y \<or> x = y \<and> \<not> (p < len l \<and> x = arr l ! p)"
  shows "y \<in> set (drop (if p < len l \<and> arr l ! p \<le> x then Suc p else p) (elems l)) \<longleftrightarrow>
         y \<in> set (drop p (elems l))"
  using drop_head [OF assms(1), of y p] assms(2) by auto

lemma not_reached:
  assumes "wf_set l" and "\<not> (p < len l \<and> arr l ! p \<le> x)"
  shows "x \<notin> set (drop p (elems l))"
  using drop_head [OF assms(1), of x p] drop_head_less [OF assms(1), of p x] assms(2) by auto

lemma in_union_walk_spec:
  assumes "wf_set l" "wf_set f" "wf_set s"
  shows "in_union_walk l f s p p1 p2 \<longleftrightarrow>
    set (drop p (elems l)) \<subseteq> set (drop p1 (elems f)) \<union> set (drop p2 (elems s))"
  using assms
proof (induction l f s p p1 p2 rule: in_union_walk.induct)
  case (1 l f s p p1 p2)
  show ?case
  proof (cases "p < len l")
    case False
    then show ?thesis using drop_elems_end [OF "1.prems"(1), of p]
      by (simp add: in_union_walk.simps [of l f s p p1 p2])
  next
    case True
    define x where "x = arr l ! p"
    define s1 where "s1 \<longleftrightarrow> p1 < len f \<and> arr f ! p1 \<le> x"
    define s2 where "s2 \<longleftrightarrow> p2 < len s \<and> arr s ! p2 \<le> x"
    define hit where "hit \<longleftrightarrow> p1 < len f \<and> x = arr f ! p1 \<or> p2 < len s \<and> x = arr s ! p2"
    let ?F = "set (drop p1 (elems f))" and ?F' = "set (drop (if s1 then Suc p1 else p1) (elems f))"
    let ?S = "set (drop p2 (elems s))" and ?S' = "set (drop (if s2 then Suc p2 else p2) (elems s))"
    have dl: "drop p (elems l) = x # drop (Suc p) (elems l)"
      using drop_elems [OF "1.prems"(1) True] by (simp add: x_def)
    have gt: "x < y" if "y \<in> set (drop (Suc p) (elems l))" for y
      using drop_head_less [OF "1.prems"(1) True that] by (simp add: x_def)
    have run: "in_union_walk l f s p p1 p2 \<longleftrightarrow> (s1 \<or> s2) \<and>
        in_union_walk l f s (if hit then Suc p else p) (if s1 then Suc p1 else p1) (if s2 then Suc p2 else p2)"
      using True
      by (subst in_union_walk.simps) (auto simp: Let_def x_def s1_def s2_def hit_def)
    show ?thesis
    proof (cases "s1 \<or> s2")
      case False
      then have "x \<notin> ?F" "x \<notin> ?S"
        using not_reached [OF "1.prems"(2), of p1 x] not_reached [OF "1.prems"(3), of p2 x]
        by (simp_all add: s1_def s2_def)
      then show ?thesis using run dl False by auto
    next
      case some: True
      have IH: "in_union_walk l f s (if hit then Suc p else p) (if s1 then Suc p1 else p1) (if s2 then Suc p2 else p2)
          \<longleftrightarrow> set (drop (if hit then Suc p else p) (elems l)) \<subseteq> ?F' \<union> ?S'"
        using "1.IH" [OF True x_def _ s1_def _ s2_def] some "1.prems" by (simp add: hit_def)
      have later: "(y \<in> ?F' \<union> ?S') = (y \<in> ?F \<union> ?S)" if "x < y" for y
        using advance_keeps [OF "1.prems"(2), of x y p1] advance_keeps [OF "1.prems"(3), of x y p2] that
        by (simp add: s1_def s2_def)
      show ?thesis
      proof (cases hit)
        case True
        then have "x \<in> ?F \<union> ?S" using drop_head [OF "1.prems"(2), of x p1] drop_head [OF "1.prems"(3), of x p2] by (auto simp: hit_def)
        then show ?thesis using run some IH True dl later gt by auto
      next
        case False
        then have "(x \<in> ?F' \<union> ?S') = (x \<in> ?F \<union> ?S)"
          using advance_keeps [OF "1.prems"(2), of x x p1] advance_keeps [OF "1.prems"(3), of x x p2]
          by (auto simp: s1_def s2_def hit_def)
        then show ?thesis using run some IH False dl later gt by auto
      qed
    qed
  qed
qed

section \<open>The operations as set operations\<close>

abbreviation lset :: "LabelSet \<Rightarrow> int set" where
  "lset l \<equiv> set (elems l)"

lemma coherent_same: "coherent S \<Longrightarrow> a \<in> S \<Longrightarrow> b \<in> S \<Longrightarrow> same a b \<Longrightarrow> a = b"
  by (simp add: coherent_def same_def)

lemma coherent_subset: "coherent S \<Longrightarrow> T \<subseteq> S \<Longrightarrow> coherent T"
  by (auto simp: coherent_def)

lemma coherent_insert:
  "coherent S \<Longrightarrow> x \<in> S \<or> ident x \<notin> ident ` S \<Longrightarrow> coherent (insert x S)"
  unfolding coherent_def by (metis image_eqI insert_iff)

lemma isSubsetOf_iff:
  assumes "wf_set a" "wf_set b" "coherent {a, b}"
  shows "isSubsetOf a b \<longleftrightarrow> lset a \<subseteq> lset b"
proof -
  have "same a b \<Longrightarrow> a = b" using coherent_same [OF assms(3), of a b] by blast
  then show ?thesis
    using is_EMPTY_iff [OF assms(1)] subset_walk_spec [OF assms(1,2), of 0 0]
    by (auto simp: isSubsetOf_def isSubsetOfSlowPath_def)
qed

lemma checkInUnion_iff:
  assumes "wf_set a" "wf_set b" "wf_set c" "coherent {a, b, c}"
  shows "checkInUnion a b c \<longleftrightarrow> lset a \<subseteq> lset b \<union> lset c"
proof -
  have "coherent {a, b}" "coherent {a, c}" using assms(4) by (auto simp: coherent_def)
  then have "isSubsetOf a b \<longleftrightarrow> lset a \<subseteq> lset b" "isSubsetOf a c \<longleftrightarrow> lset a \<subseteq> lset c"
    using isSubsetOf_iff assms by auto
  then show ?thesis
    using is_EMPTY_iff assms(1-3) in_union_walk_spec [OF assms(1-3), of 0 0 0]
    by (simp add: checkInUnion_def checkInUnionSlowPath_def)
qed

text \<open>What the constructor is called with at the end of the loops.\<close>

lemma new_LabelSet_wf:
  "0 < n \<Longrightarrow> n \<le> length xs \<Longrightarrow> sorted_wrt (<) (take n xs) \<Longrightarrow> nid \<noteq> 0 \<Longrightarrow>
   wf_set (new_LabelSet nid xs n) \<and> elems (new_LabelSet nid xs n) = take n xs"
  by (simp add: wf_set_def new_LabelSet_def elems_def)

lemma union_walk_start:
  assumes "n1 \<le> length xs" "n2 \<le> length ys"
    and "union_walk xs n1 ys n2 (replicate (n1 + n2) 0) 0 0 0 = (new', np')"
  shows "take np' new' = merge (take n1 xs) (take n2 ys)" and "np' = length (merge (take n1 xs) (take n2 ys))"
    and "np' \<le> length new'"
  using union_walk_spec [OF assms(3,1,2)] length_merge_le [of "take n1 xs" "take n2 ys"] assms(1,2) by auto

lemma union_slow_spec:
  assumes "wf_set a" "wf_set b" "nid \<noteq> 0" "elems a \<noteq> []"
  shows "wf_set (unionSlowPath nid a b) \<and> lset (unionSlowPath nid a b) = lset a \<union> lset b \<and>
    (unionSlowPath nid a b \<in> {a, b} \<or> ident (unionSlowPath nid a b) = nid)"
proof -
  obtain new' np' where w:
    "union_walk (arr a) (len a) (arr b) (len b) (replicate (len a + len b) 0) 0 0 0 = (new', np')"
    by fastforce
  have l: "len a \<le> length (arr a)" "len b \<le> length (arr b)" using assms by (auto simp: wf_set_def)
  note u = union_walk_start [OF l w, folded elems_def]
  have s: "sorted_wrt (<) (elems a)" "sorted_wrt (<) (elems b)" using assms by (auto simp: wf_set_def)
  note m = sorted_merge [OF s]
  have 1: "merge (elems a) (elems b) = elems a" if "np' = len a"
    using sorted_set_eq [OF s(1) m] that u(2) length_elems [OF assms(1)] by simp
  have 2: "merge (elems a) (elems b) = elems b" if "np' = len b"
    using sorted_set_eq [OF s(2) m] that u(2) length_elems [OF assms(2)] by simp
  have "0 < np'" using u(2) assms(4) length_merge(1) [of "elems a" "elems b"] by (cases "elems a") auto
  then have 3: "wf_set (new_LabelSet nid new' np')" "elems (new_LabelSet nid new' np') = merge (elems a) (elems b)"
    using new_LabelSet_wf [of np' new' nid] u m assms(3) by auto
  have "lset b \<subseteq> lset a" if "np' = len a" using 1 [OF that] set_merge [of "elems a" "elems b"] by auto
  moreover have "lset a \<subseteq> lset b" if "np' = len b" using 2 [OF that] set_merge [of "elems a" "elems b"] by auto
  ultimately show ?thesis
    using w 3 assms by (auto simp: unionSlowPath_def new_LabelSet_def)
qed

lemma union_set_spec:
  assumes "wf_set a" "wf_set b" "coherent {a, b}" "nid \<noteq> 0"
  shows "wf_set (union_set nid a b) \<and> lset (union_set nid a b) = lset a \<union> lset b \<and>
    (union_set nid a b \<in> {a, b} \<or> ident (union_set nid a b) = nid)"
proof -
  have "same a b \<Longrightarrow> a = b" using coherent_same [OF assms(3), of a b] by blast
  then show ?thesis
    using is_EMPTY_iff assms(1,2) union_slow_spec [OF assms(1,2,4)] assms by (auto simp: union_set_def)
qed

lemma union_label_spec:
  assumes "wf_set a" "nid \<noteq> 0"
  shows "wf_set (union_label nid a x) \<and> lset (union_label nid a x) = insert x (lset a) \<and>
    (union_label nid a x = a \<or> ident (union_label nid a x) = nid)"
proof -
  obtain new' np' where w: "union_walk (arr a) (len a) [x] 1 (replicate (len a + 1) 0) 0 0 0 = (new', np')"
    by fastforce
  have l: "len a \<le> length (arr a)" "1 \<le> length [x]" using assms by (auto simp: wf_set_def)
  note u = union_walk_start [OF l w, folded elems_def, simplified]
  have s: "sorted_wrt (<) (elems a)" "sorted_wrt (<) [x]" using assms by (auto simp: wf_set_def)
  note m = sorted_merge [OF s]
  have 1: "merge (elems a) [x] = elems a" if "np' = len a"
    using sorted_set_eq [OF s(1) m] that u(2) length_elems [OF assms(1)] by auto
  have "0 < np'" using u(2) length_merge(2) [of "[x]" "elems a"] by (auto simp: Suc_le_eq)
  then have 3: "wf_set (new_LabelSet nid new' np')" "elems (new_LabelSet nid new' np') = merge (elems a) [x]"
    using new_LabelSet_wf [of np' new' nid] u m assms(2) by auto
  have "x \<in> lset a" if "np' = len a" using 1 [OF that] set_merge [of "elems a" "[x]"] by auto
  then show ?thesis using w 3 assms by (auto simp: union_label_def new_LabelSet_def)
qed

lemma minus_set_spec:
  assumes "wf_set a" "wf_set b" "coherent {a, b}" "nid \<noteq> 0"
  shows "wf_set (minus_set nid a b) \<and> lset (minus_set nid a b) = lset a - lset b \<and>
    (minus_set nid a b \<in> {a, EMPTY} \<or> ident (minus_set nid a b) = nid)"
proof -
  obtain new' np' where w: "minus_walk a b (replicate (len a) 0) 0 0 0 = (new', np')" by fastforce
  have u: "take np' new' = diff (elems a) (elems b)" "length new' = len a" "np' = length (diff (elems a) (elems b))"
    using minus_walk_spec [OF w assms(1,2)] by auto
  have s: "sorted_wrt (<) (elems a)" "sorted_wrt (<) (elems b)" using assms by (auto simp: wf_set_def)
  have n: "np' \<le> length new'" using u length_diff [of "elems a" "elems b"] length_elems [OF assms(1)] by simp
  have 3: "wf_set (new_LabelSet nid new' np')" "elems (new_LabelSet nid new' np') = diff (elems a) (elems b)" if "0 < np'"
    using new_LabelSet_wf [OF that n] u(1) sorted_diff [OF s] assms(4) by auto
  have 0: "lset a - lset b = {}" if "np' = 0" using that u(3) set_diff [OF s] by simp
  have "same a b \<Longrightarrow> a = b" using coherent_same [OF assms(3), of a b] by blast
  then show ?thesis
    using is_EMPTY_iff assms w 3 0 set_diff [OF s] by (auto simp: minus_set_def minusSlowPath_def new_LabelSet_def)
qed

lemma getLabelSet_spec:
  "nid \<noteq> 0 \<Longrightarrow> wf_set (getLabelSet nid x) \<and> lset (getLabelSet nid x) = {x}"
  by (simp add: getLabelSet_def new_LabelSet_def wf_set_def elems_def)

text \<open>C21: The label sets of the virtual machine are sets. On well-formed sets whose references are
  told apart correctly, \<open>isSubsetOf\<close>, \<open>checkInUnion\<close>, both forms of \<open>union\<close> and \<open>minus\<close>
  compute inclusion, inclusion in a union, union, insertion and difference of the sets of
  labels, whichever short cut is taken; every result is again sorted without duplicates, and
  is either one of the objects involved or the new one, so \<open>EMPTY\<close> stays the only empty set.
\<close>

theorem label_set_algebra:
  assumes "wf_set a" "wf_set b" "wf_set c" "coherent {a, b, c}" "nid \<noteq> 0"
  shows "(isSubsetOf a b \<longleftrightarrow> lset a \<subseteq> lset b) \<and>
    (checkInUnion a b c \<longleftrightarrow> lset a \<subseteq> lset b \<union> lset c) \<and>
    wf_set (union_set nid a b) \<and> lset (union_set nid a b) = lset a \<union> lset b \<and>
    wf_set (union_label nid a x) \<and> lset (union_label nid a x) = insert x (lset a) \<and>
    wf_set (minus_set nid a b) \<and> lset (minus_set nid a b) = lset a - lset b \<and>
    {union_set nid a b, union_label nid a x, minus_set nid a b} \<subseteq> {a, b, EMPTY} \<union> {l. ident l = nid}"
proof -
  have "coherent {a, b}" using assms(4) by (auto intro: coherent_subset)
  then show ?thesis
    using isSubsetOf_iff [of a b] checkInUnion_iff [of a b c] union_set_spec [of a b nid]
      union_label_spec [of a nid x] minus_set_spec [of a b nid] assms by auto
qed

theorem label_set_algebra_witness:
  "lset (union_set 9 (getLabelSet2 1 5 3) (getLabelSet 4 7)) = {3, 5, 7} \<and>
   isSubsetOf (getLabelSet 4 7) (getLabelSet2 1 5 3) = False"
proof -
  have s: "getLabelSet2 1 5 3 = \<lparr>ident = 2, arr = [3, 5], len = 2\<rparr>"
    by (simp add: getLabelSet2_def getLabelSet_def new_LabelSet_def union_label_def union_walk.simps)
  have g: "getLabelSet 4 7 = \<lparr>ident = 4, arr = [7], len = 1\<rparr>"
    by (simp add: getLabelSet_def new_LabelSet_def)
  have w: "wf_set (getLabelSet2 1 5 3)" "wf_set (getLabelSet 4 7)"
    "lset (getLabelSet2 1 5 3) = {3, 5}" "lset (getLabelSet 4 7) = {7}"
    unfolding s g by (auto simp: wf_set_def elems_def)
  have c: "coherent {getLabelSet2 1 5 3, getLabelSet 4 7, getLabelSet 4 7}"
    "coherent {getLabelSet 4 7, getLabelSet2 1 5 3, getLabelSet 4 7}"
    unfolding s g by (auto simp: coherent_def)
  show ?thesis
    using label_set_algebra [OF w(1,2,2) c(1), of 9] label_set_algebra [OF w(2,1,2) c(2), of 9] w by auto
qed

end
