(* ===== verification/Regions.thy ===== *)
theory Regions
  imports Label_Sets "HOL-Library.Word"
begin

text \<open>
  Secure regions of the virtual machine: \<^verbatim>\<open>scheduler/SRState.java\<close>, the label and capability
  fields of \<^verbatim>\<open>GreenThread.java\<close>, and the operations of \<^verbatim>\<open>scheduler/DIFC.java\<close> that read or
  change them. The states of a thread form a doubly linked list that only the start of a
  region extends, at its end; it is the list \<open>chain\<close> with the position \<open>cur\<close> of the current
  state, so that the parent of the state at position \<open>n + 1\<close> is the one at \<open>n\<close> and a state has
  a child when a position follows its own. The label sets created so far are the list
  \<open>objects\<close>, and the identity of a set is its position there. An operation returns the
  exception it throws or its value, together with the state it leaves. Calls into the
  operating system are the record \<open>sysCall\<close> over a state of the system that is left open.
  The cycle counter of \<open>startSecureRegion\<close> is written and never read, and is left out, as are
  debugging messages.
\<close>

datatype exn = DIFCException string | NullPointer | AssertionError

section \<open>State\<close>

record SRState =
  secrecySet :: LabelSet
  integritySet :: LabelSet
  plusCapabilitySet :: LabelSet
  minusCapabilitySet :: LabelSet
  secrecyAllocLabels :: "LabelSet option"
  integrityAllocLabels :: "LabelSet option"
  RESTORE_LABELS :: bool

definition setState ::
  "LabelSet \<Rightarrow> LabelSet \<Rightarrow> LabelSet \<Rightarrow> LabelSet \<Rightarrow> bool \<Rightarrow> LabelSet option \<Rightarrow> LabelSet option \<Rightarrow> SRState" where
  "setState plusC minusC sec integ restore secAlloc intAlloc =
     \<lparr>secrecySet = sec, integritySet = integ, plusCapabilitySet = plusC, minusCapabilitySet = minusC,
      secrecyAllocLabels = secAlloc, integrityAllocLabels = intAlloc, RESTORE_LABELS = restore\<rparr>"

definition clearState :: SRState where
  "clearState = setState EMPTY EMPTY EMPTY EMPTY False None None"

definition new_SRState :: "LabelSet option \<Rightarrow> LabelSet option \<Rightarrow> SRState" where
  "new_SRState secAlloc intAlloc =
     clearState\<lparr>secrecyAllocLabels := secAlloc, integrityAllocLabels := intAlloc\<rparr>"

record GreenThread =
  chain :: "SRState list"
  cur :: nat
  inSecureRegion :: bool

definition new_GreenThread :: GreenThread where
  "new_GreenThread = \<lparr>chain = [new_SRState (Some EMPTY) (Some EMPTY)], cur = 0, inSecureRegion = False\<rparr>"

record 'os vm =
  thread :: GreenThread
  commonPlusCapabilitySet :: LabelSet
  commonMinusCapabilitySet :: LabelSet
  secureRegionCount :: "32 word"
  BOOT_COMPLETE :: bool
  objects :: "LabelSet list"
  os :: 'os

record 'os sysCall =
  sysPassLabels :: "int list option \<Rightarrow> nat \<Rightarrow> int list option \<Rightarrow> nat \<Rightarrow> 'os \<Rightarrow> int \<times> 'os"
  sysCreateAndAddLabel :: "int \<Rightarrow> int \<Rightarrow> 'os \<Rightarrow> int \<times> 'os"
  sysDropCapability :: "int list \<Rightarrow> nat \<Rightarrow> int \<Rightarrow> int \<Rightarrow> 'os \<Rightarrow> int \<times> 'os"
  sysCreateLabeledDirectory :: "string \<Rightarrow> int \<Rightarrow> int list \<Rightarrow> nat \<Rightarrow> int list \<Rightarrow> nat \<Rightarrow> 'os \<Rightarrow> int \<times> 'os"
  sysCreateLabeledFile :: "string \<Rightarrow> int \<Rightarrow> int list \<Rightarrow> nat \<Rightarrow> int list \<Rightarrow> nat \<Rightarrow> 'os \<Rightarrow> int \<times> 'os"

definition init :: "'os vm \<Rightarrow> 'os vm" where
  "init v = v\<lparr>commonPlusCapabilitySet := EMPTY, commonMinusCapabilitySet := EMPTY, BOOT_COMPLETE := True\<rparr>"

text \<open>The main thread when the virtual machine has booted.\<close>

definition boot_vm :: "'os \<Rightarrow> 'os vm" where
  "boot_vm s = init \<lparr>thread = new_GreenThread, commonPlusCapabilitySet = EMPTY, commonMinusCapabilitySet = EMPTY,
     secureRegionCount = 0, BOOT_COMPLETE = False, objects = [EMPTY], os = s\<rparr>"

definition curState :: "'os vm \<Rightarrow> SRState" where
  "curState v = chain (thread v) ! cur (thread v)"

definition in_SR :: "'os vm \<Rightarrow> bool" where
  "in_SR v = inSecureRegion (thread v)"

text \<open>An assignment to a field of the state at position \<open>n\<close>, and the entry of a new set among
  the objects.\<close>

definition upd_state :: "nat \<Rightarrow> (SRState \<Rightarrow> SRState) \<Rightarrow> 'os vm \<Rightarrow> 'os vm" where
  "upd_state n f v =
     v\<lparr>thread := (thread v)\<lparr>chain := (chain (thread v))[n := f (chain (thread v) ! n)]\<rparr>\<rparr>"

definition upd_cur :: "(SRState \<Rightarrow> SRState) \<Rightarrow> 'os vm \<Rightarrow> 'os vm" where
  "upd_cur f v = upd_state (cur (thread v)) f v"

definition keep :: "LabelSet \<Rightarrow> 'os vm \<Rightarrow> 'os vm" where
  "keep l v = (if ident l = length (objects v) then v\<lparr>objects := objects v @ [l]\<rparr> else v)"

definition union_in :: "LabelSet \<Rightarrow> LabelSet \<Rightarrow> 'os vm \<Rightarrow> LabelSet \<times> 'os vm" where
  "union_in l1 l2 v = (let l = union_set (length (objects v)) l1 l2 in (l, keep l v))"

definition insert_in :: "LabelSet \<Rightarrow> int \<Rightarrow> 'os vm \<Rightarrow> LabelSet \<times> 'os vm" where
  "insert_in l1 x v = (let l = union_label (length (objects v)) l1 x in (l, keep l v))"

definition minus_in :: "LabelSet \<Rightarrow> LabelSet \<Rightarrow> 'os vm \<Rightarrow> LabelSet \<times> 'os vm" where
  "minus_in l1 l2 v = (let l = minus_set (length (objects v)) l1 l2 in (l, keep l v))"

section \<open>Starting and ending a region\<close>

text \<open>The child of the current state is overwritten if there is one and created otherwise; it
  becomes the current state.\<close>

definition push_state :: "SRState \<Rightarrow> 'os vm \<Rightarrow> 'os vm" where
  "push_state child v =
     (let t = thread v in
      if Suc (cur t) < length (chain t)
      then v\<lparr>thread := t\<lparr>chain := (chain t)[Suc (cur t) := child], cur := Suc (cur t)\<rparr>\<rparr>
      else v\<lparr>thread := t\<lparr>chain := chain t @ [child], cur := Suc (cur t)\<rparr>\<rparr>)"

definition throwStartError :: "string \<Rightarrow> 'os vm \<Rightarrow> (exn + unit) \<times> 'os vm" where
  "throwStartError error v = (Inl (DIFCException error), push_state clearState v)"

definition startSecureRegionHelper ::
  "LabelSet \<Rightarrow> LabelSet \<Rightarrow> LabelSet \<Rightarrow> LabelSet \<Rightarrow> 'os vm \<Rightarrow> (exn + unit) \<times> 'os vm" where
  "startSecureRegionHelper plusC minusC sec integ v0 =
     (let st = curState v0;
          (plusCap, v1) = (if \<not> in_SR v0 then union_in (plusCapabilitySet st) (commonPlusCapabilitySet v0) v0
                           else (plusCapabilitySet st, v0));
          (minusCap, v) = (if \<not> in_SR v0 then union_in (minusCapabilitySet st) (commonMinusCapabilitySet v0) v1
                           else (minusCapabilitySet st, v1))
      in if \<not> checkInUnion sec plusCap (secrecySet st) then
           throwStartError ''Parent does not have the capability or label to add the secrecy label'' v
         else if \<not> checkInUnion (secrecySet st) minusCap sec then
           throwStartError ''Parent does not have the capability to remove the secrecy label'' v
         else if \<not> checkInUnion integ plusCap (integritySet st) then
           throwStartError ''Parent does not have the capability or label to add the integrity label'' v
         else if \<not> checkInUnion (integritySet st) minusCap integ then
           throwStartError ''Parent does not have the capability to remove the integrity label'' v
         else if \<not> isSubsetOf plusC plusCap then
           throwStartError ''Parent does not have the capability to add the plus capability'' v
         else if \<not> isSubsetOf minusC minusCap then
           throwStartError ''Parent does not have the capability to add the minus capability'' v
         else
           let v2 = push_state (setState plusC minusC sec integ False None None) v
           in (Inr (), v2\<lparr>thread := (thread v2)\<lparr>inSecureRegion := True\<rparr>,
                         secureRegionCount := secureRegionCount v2 + 1\<rparr>))"

definition or_EMPTY :: "LabelSet option \<Rightarrow> LabelSet" where
  "or_EMPTY l = (case l of None \<Rightarrow> EMPTY | Some s \<Rightarrow> s)"

definition startSecureRegion ::
  "LabelSet option \<Rightarrow> LabelSet option \<Rightarrow> 'os vm \<Rightarrow> (exn + unit) \<times> 'os vm" where
  "startSecureRegion sec integ v =
     startSecureRegionHelper EMPTY EMPTY (or_EMPTY sec) (or_EMPTY integ) v"

definition startSecureRegionDecEnd ::
  "LabelSet option \<Rightarrow> LabelSet option \<Rightarrow> LabelSet option \<Rightarrow> LabelSet option \<Rightarrow> 'os vm
   \<Rightarrow> (exn + unit) \<times> 'os vm" where
  "startSecureRegionDecEnd sec integ plusC minusC v =
     startSecureRegionHelper (or_EMPTY plusC) (or_EMPTY minusC) (or_EMPTY sec) (or_EMPTY integ) v"

text \<open>The first state has no parent; its end would dereference the null pointer.\<close>

definition endSecureRegion :: "'os sysCall \<Rightarrow> 'os vm \<Rightarrow> (exn + unit) \<times> 'os vm" where
  "endSecureRegion S v =
     (if \<not> in_SR v then (Inr (), v)
      else
        let v1 = (if RESTORE_LABELS (curState v)
                  then v\<lparr>os := snd (sysPassLabels S None 0 None 0 (os v))\<rparr> else v);
            t = thread v1
        in case cur t of
             0 \<Rightarrow> (Inl NullPointer, v1)
           | Suc parent \<Rightarrow>
               (Inr (), v1\<lparr>thread := t\<lparr>cur := parent,
                          inSecureRegion := (if parent = 0 then False else inSecureRegion t)\<rparr>\<rparr>))"

section \<open>Labels and capabilities of the current region\<close>

definition PLUS_CAPABILITY :: int where "PLUS_CAPABILITY = 0"
definition MINUS_CAPABILITY :: int where "MINUS_CAPABILITY = 1"
definition BOTH_CAPABILITY :: int where "BOTH_CAPABILITY = 2"
definition SR_REGION_SELF :: int where "SR_REGION_SELF = 3"
definition SR_REGION_GROUP :: int where "SR_REGION_GROUP = 4"
definition SR_REGION_NONE :: int where "SR_REGION_NONE = 5"
definition SECRECY :: int where "SECRECY = 0"
definition INTEGRITY :: int where "INTEGRITY = 1"
definition LABELS :: int where "LABELS = 0"
definition CAPABILITY :: int where "CAPABILITY = 1"

lemmas capability_types = PLUS_CAPABILITY_def MINUS_CAPABILITY_def BOTH_CAPABILITY_def

definition addSecrecyLabel :: "LabelSet option \<Rightarrow> 'os vm \<Rightarrow> (exn + unit) \<times> 'os vm" where
  "addSecrecyLabel label v =
     (case label of
        None \<Rightarrow> (Inr (), v)
      | Some l \<Rightarrow>
          if in_SR v then
            if \<not> isSubsetOf l (plusCapabilitySet (curState v))
            then (Inl (DIFCException ''Lacks capability to add secrecy label''), v)
            else let (u, v1) = union_in (secrecySet (curState v)) l v
                 in (Inr (), upd_cur (secrecySet_update (\<lambda>_. u)) v1)
          else (Inl (DIFCException ''Cannot add secrecy label outside SR''), v))"

definition addIntegrityLabel :: "LabelSet option \<Rightarrow> 'os vm \<Rightarrow> (exn + unit) \<times> 'os vm" where
  "addIntegrityLabel label v =
     (case label of
        None \<Rightarrow> (Inr (), v)
      | Some l \<Rightarrow>
          if in_SR v then
            if \<not> isSubsetOf l (plusCapabilitySet (curState v))
            then (Inl (DIFCException ''Lacks capability to add integrity label''), v)
            else let (u, v1) = union_in (integritySet (curState v)) l v
                 in (Inr (), upd_cur (integritySet_update (\<lambda>_. u)) v1)
          else (Inl (DIFCException ''Cannot add integrity label outside SR''), v))"

text \<open>From here on a set the code does not test for null is passed as a set.\<close>

definition removeSecrecyLabel :: "LabelSet \<Rightarrow> 'os vm \<Rightarrow> (exn + unit) \<times> 'os vm" where
  "removeSecrecyLabel label v =
     (if in_SR v \<and> isSubsetOf label (minusCapabilitySet (curState v)) then
        let (u, v1) = minus_in (secrecySet (curState v)) label v
        in (Inr (), upd_cur (secrecySet_update (\<lambda>_. u)) v1)
      else (Inl (DIFCException ''Cannot remove secrecy label''), v))"

definition removeIntegrityLabel :: "LabelSet \<Rightarrow> 'os vm \<Rightarrow> (exn + unit) \<times> 'os vm" where
  "removeIntegrityLabel label v =
     (if in_SR v \<and> isSubsetOf label (minusCapabilitySet (curState v)) then
        let (u, v1) = minus_in (integritySet (curState v)) label v
        in (Inr (), upd_cur (integritySet_update (\<lambda>_. u)) v1)
      else (Inl (DIFCException ''Cannot remove integrity label''), v))"

text \<open>The two halves of a drop at the state of a given position.\<close>

definition drop_plus :: "LabelSet \<Rightarrow> nat \<Rightarrow> 'os vm \<Rightarrow> 'os vm" where
  "drop_plus label n v =
     (let (u, v1) = minus_in (plusCapabilitySet (chain (thread v) ! n)) label v
      in upd_state n (plusCapabilitySet_update (\<lambda>_. u)) v1)"

definition drop_minus :: "LabelSet \<Rightarrow> nat \<Rightarrow> 'os vm \<Rightarrow> 'os vm" where
  "drop_minus label n v =
     (let (u, v1) = minus_in (minusCapabilitySet (chain (thread v) ! n)) label v
      in upd_state n (minusCapabilitySet_update (\<lambda>_. u)) v1)"

definition drop_at :: "LabelSet \<Rightarrow> int \<Rightarrow> nat \<Rightarrow> 'os vm \<Rightarrow> 'os vm" where
  "drop_at label type n v =
     (let v1 = (if type = PLUS_CAPABILITY \<or> type = BOTH_CAPABILITY then drop_plus label n v else v)
      in if type = MINUS_CAPABILITY \<or> type = BOTH_CAPABILITY then drop_minus label n v1 else v1)"

definition dropCapability :: "LabelSet \<Rightarrow> int \<Rightarrow> 'os vm \<Rightarrow> (exn + unit) \<times> 'os vm" where
  "dropCapability label type v =
     (if \<not> (type = PLUS_CAPABILITY \<or> type = MINUS_CAPABILITY \<or> type = BOTH_CAPABILITY)
      then (Inl (DIFCException ''Wrong type of capability''), v)
      else (Inr (), drop_at label type (cur (thread v)) v))"

definition dropThreadCapability :: "LabelSet \<Rightarrow> int \<Rightarrow> 'os vm \<Rightarrow> (exn + unit) \<times> 'os vm" where
  "dropThreadCapability label type v =
     (if \<not> is_EMPTY (secrecySet (curState v))
      then (Inl (DIFCException ''Attempt to write capability set in secret SR.''), v)
      else case dropCapability label type v of
        (Inl e, v1) \<Rightarrow> (Inl e, v1)
      | (Inr _, v1) \<Rightarrow>
          if in_SR v1 then
            case cur (thread v1) of
              0 \<Rightarrow> (Inl NullPointer, v1)
            | Suc parent \<Rightarrow> (Inr (), drop_at label type parent v1)
          else (Inr (), v1))"

definition add_plus :: "int \<Rightarrow> nat \<Rightarrow> 'os vm \<Rightarrow> 'os vm" where
  "add_plus label n v =
     (let (u, v1) = insert_in (plusCapabilitySet (chain (thread v) ! n)) label v
      in upd_state n (plusCapabilitySet_update (\<lambda>_. u)) v1)"

definition add_minus :: "int \<Rightarrow> nat \<Rightarrow> 'os vm \<Rightarrow> 'os vm" where
  "add_minus label n v =
     (let (u, v1) = insert_in (minusCapabilitySet (chain (thread v) ! n)) label v
      in upd_state n (minusCapabilitySet_update (\<lambda>_. u)) v1)"

definition add_at :: "int \<Rightarrow> int \<Rightarrow> nat \<Rightarrow> 'os vm \<Rightarrow> 'os vm" where
  "add_at type label n v =
     (let v1 = (if type = PLUS_CAPABILITY \<or> type = BOTH_CAPABILITY then add_plus label n v else v)
      in if type = MINUS_CAPABILITY \<or> type = BOTH_CAPABILITY then add_minus label n v1 else v1)"

definition addThreadCapability :: "int \<Rightarrow> int \<Rightarrow> bool \<Rightarrow> 'os vm \<Rightarrow> (exn + unit) \<times> 'os vm" where
  "addThreadCapability type label current v =
     (if current then (Inr (), add_at type label (cur (thread v)) v)
      else case cur (thread v) of
        0 \<Rightarrow> (Inl NullPointer, v)
      | Suc parent \<Rightarrow> (Inr (), add_at type label parent v))"

definition OScreateLabel :: "'os sysCall \<Rightarrow> int \<Rightarrow> int \<Rightarrow> 'os \<Rightarrow> int \<times> 'os" where
  "OScreateLabel S type region s =
     (if region = SR_REGION_SELF then sysCreateAndAddLabel S type 1 s
      else if region = SR_REGION_GROUP then sysCreateAndAddLabel S type 2 s
      else sysCreateAndAddLabel S type 0 s)"

definition add_common :: "int \<Rightarrow> int \<Rightarrow> 'os vm \<Rightarrow> 'os vm" where
  "add_common type label v =
     (let v1 = (if type = PLUS_CAPABILITY \<or> type = BOTH_CAPABILITY
                then let (u, w) = insert_in (commonPlusCapabilitySet v) label v
                     in w\<lparr>commonPlusCapabilitySet := u\<rparr> else v)
      in if type = MINUS_CAPABILITY \<or> type = BOTH_CAPABILITY
         then let (u, w) = insert_in (commonMinusCapabilitySet v1) label v1
              in w\<lparr>commonMinusCapabilitySet := u\<rparr> else v1)"

definition createCapability :: "'os sysCall \<Rightarrow> int \<Rightarrow> int \<Rightarrow> 'os vm \<Rightarrow> (exn + int) \<times> 'os vm" where
  "createCapability S type region v =
     (if \<not> is_EMPTY (secrecySet (curState v))
      then (Inl (DIFCException ''Attempt to write capability set in secret SR.''), v)
      else if \<not> (type = PLUS_CAPABILITY \<or> type = MINUS_CAPABILITY \<or> type = BOTH_CAPABILITY)
      then (Inl (DIFCException ''Wrong type of capability''), v)
      else
        let (label, s) = OScreateLabel S type region (os v);
            v = v\<lparr>os := s\<rparr>
        in if label \<le> 0 then (Inl (DIFCException ''OS capability creation failed''), v)
           else
             case addThreadCapability type label True v of
               (Inl e, v1) \<Rightarrow> (Inl e, v1)
             | (Inr _, v1) \<Rightarrow>
                 (case if in_SR v \<and> region = SR_REGION_SELF then addThreadCapability type label False v1
                       else (Inr (), v1) of
                    (Inl e, v2) \<Rightarrow> (Inl e, v2)
                  | (Inr _, v2) \<Rightarrow>
                      (Inr label, if region = SR_REGION_GROUP then add_common type label v2 else v2)))"

definition getProperty :: "int \<Rightarrow> int \<Rightarrow> 'os vm \<Rightarrow> LabelSet option" where
  "getProperty which type v =
     (if which = LABELS then
        if \<not> in_SR v then None
        else if type = SECRECY then Some (secrecySet (curState v))
        else if type = INTEGRITY then Some (integritySet (curState v))
        else None
      else if which = CAPABILITY then
        if type = PLUS_CAPABILITY then Some (plusCapabilitySet (curState v))
        else if type = MINUS_CAPABILITY then Some (minusCapabilitySet (curState v))
        else None
      else if which = SR_REGION_GROUP then
        if type = PLUS_CAPABILITY then Some (commonPlusCapabilitySet v)
        else if type = MINUS_CAPABILITY then Some (commonMinusCapabilitySet v)
        else None
      else None)"

definition initializeThreadCapability :: "LabelSet \<Rightarrow> int \<Rightarrow> 'os vm \<Rightarrow> (exn + unit) \<times> 'os vm" where
  "initializeThreadCapability capability type v =
     (if \<not> in_SR v then
        let v1 = (if type = PLUS_CAPABILITY \<or> type = BOTH_CAPABILITY
                  then upd_cur (plusCapabilitySet_update (\<lambda>_. capability)) v else v)
        in (Inr (), if type = MINUS_CAPABILITY \<or> type = BOTH_CAPABILITY
                    then upd_cur (minusCapabilitySet_update (\<lambda>_. capability)) v1 else v1)
      else (Inl (DIFCException ''Capabilities to the thread should be given only once, at initialization and outside a secure-region''), v))"

definition setAllocationLabelsInternal :: "LabelSet option \<Rightarrow> LabelSet option \<Rightarrow> 'os vm \<Rightarrow> 'os vm" where
  "setAllocationLabelsInternal sSet iSet v =
     upd_cur (\<lambda>st. st\<lparr>secrecyAllocLabels := sSet, integrityAllocLabels := iSet\<rparr>) v"

definition is_EMPTY_ref :: "LabelSet option \<Rightarrow> bool" where
  "is_EMPTY_ref l = (case l of None \<Rightarrow> False | Some s \<Rightarrow> is_EMPTY s)"

definition setAllocationLabels ::
  "bool \<Rightarrow> LabelSet option \<Rightarrow> LabelSet option \<Rightarrow> 'os vm \<Rightarrow> (exn + unit) \<times> 'os vm" where
  "setAllocationLabels VerifyAssertions sSet iSet v =
     (if VerifyAssertions \<and> \<not> (sSet \<noteq> None \<and> \<not> is_EMPTY_ref sSet \<and> iSet \<noteq> None \<and> \<not> is_EMPTY_ref iSet)
      then (Inl AssertionError, v)
      else (Inr (), setAllocationLabelsInternal sSet iSet v))"

definition resetAllocationLabels :: "'os vm \<Rightarrow> 'os vm" where
  "resetAllocationLabels v = setAllocationLabelsInternal None None v"

section \<open>Calls into the operating system\<close>

definition OSdropCapability :: "'os sysCall \<Rightarrow> int list \<Rightarrow> int \<Rightarrow> int \<Rightarrow> 'os vm \<Rightarrow> (exn + unit) \<times> 'os vm" where
  "OSdropCapability S label type permanent v =
     (let (err, s) = sysDropCapability S label (length label) type permanent (os v);
          v1 = v\<lparr>os := s\<rparr>
      in if err < 0 then (Inl (DIFCException ''The OS could not drop the capability''), v1)
         else (Inr (), v1))"

definition OSpassCurrentLabels :: "'os sysCall \<Rightarrow> 'os vm \<Rightarrow> int \<times> 'os vm" where
  "OSpassCurrentLabels S v =
     (if \<not> BOOT_COMPLETE v then (0, v)
      else if in_SR v then
        let st = curState v;
            (err, s) = sysPassLabels S (Some (arr (secrecySet st))) (len (secrecySet st))
                         (Some (arr (integritySet st))) (len (integritySet st)) (os v);
            v1 = v\<lparr>os := s\<rparr>
        in (err, if 0 \<le> err then upd_cur (RESTORE_LABELS_update (\<lambda>_. True)) v1 else v1)
      else (0, v))"

definition OScreateLabeledDirectory ::
  "'os sysCall \<Rightarrow> string \<Rightarrow> int \<Rightarrow> LabelSet option \<Rightarrow> LabelSet option \<Rightarrow> 'os vm \<Rightarrow> (exn + unit) \<times> 'os vm" where
  "OScreateLabeledDirectory S pathName mode secSet intSet v =
     (case OSpassCurrentLabels S v of (err, v1) \<Rightarrow>
        if err < 0 then (Inl (DIFCException ''The OS could not pass labels''), v1)
        else
          let sec = or_EMPTY secSet; integ = or_EMPTY intSet;
              (err2, s) = sysCreateLabeledDirectory S pathName mode (arr sec) (len sec) (arr integ) (len integ) (os v1);
              v2 = v1\<lparr>os := s\<rparr>
          in if err2 < 0 then (Inl (DIFCException ''The OS could not create directory''), v2) else (Inr (), v2))"

definition OScreateLabeledFile ::
  "'os sysCall \<Rightarrow> string \<Rightarrow> int \<Rightarrow> LabelSet option \<Rightarrow> LabelSet option \<Rightarrow> 'os vm \<Rightarrow> (exn + unit) \<times> 'os vm" where
  "OScreateLabeledFile S pathName mode secSet intSet v =
     (case OSpassCurrentLabels S v of (err, v1) \<Rightarrow>
        if err < 0 then (Inl (DIFCException ''The OS could not pass labels''), v1)
        else
          let sec = or_EMPTY secSet; integ = or_EMPTY intSet;
              (err2, s) = sysCreateLabeledFile S pathName mode (arr sec) (len sec) (arr integ) (len integ) (os v1);
              v2 = v1\<lparr>os := s\<rparr>
          in if err2 < 0 then (Inl (DIFCException ''The OS could not create file''), v2) else (Inr (), v2))"

end
