(* ===== verification/File_System.thy ===== *)
theory File_System
  imports Regions
begin

text \<open>
  File access by the virtual machine, \<^verbatim>\<open>scheduler/greenthreads/FileSystem.java\<close>: the calls that
  hand the labels of the current region to the operating system and then read or write. The
  system calls and the wait for a descriptor are the record \<open>fileCall\<close>. A loop that has tried
  \<open>patience\<close> times without an end is \<open>Waiting\<close>. The variant of \<open>readBytes\<close> with a time limit is
  not modelled, nor is the tracing.
\<close>

datatype io_result = Done int | Waiting | IndexOutOfBounds

record 'os fileCall =
  sysStat :: "string \<Rightarrow> int \<Rightarrow> 'os \<Rightarrow> int \<times> 'os"
  sysAccess :: "string \<Rightarrow> int \<Rightarrow> 'os \<Rightarrow> int \<times> 'os"
  sysReadByte :: "nat \<Rightarrow> 'os \<Rightarrow> int \<times> 'os"
  sysWriteByte :: "nat \<Rightarrow> int \<Rightarrow> 'os \<Rightarrow> int \<times> 'os"
  sysReadBytes :: "nat \<Rightarrow> 32 word \<Rightarrow> 32 word \<Rightarrow> 'os \<Rightarrow> int \<times> 'os"
  sysWriteBytes :: "nat \<Rightarrow> 32 word \<Rightarrow> 32 word \<Rightarrow> 'os \<Rightarrow> int \<times> 'os"
  sysSyncFile :: "nat \<Rightarrow> 'os \<Rightarrow> int \<times> 'os"
  sysBytesAvailable :: "nat \<Rightarrow> 'os \<Rightarrow> int \<times> 'os"
  sysNetSocketNoBlock :: "nat \<Rightarrow> int \<Rightarrow> 'os \<Rightarrow> int \<times> 'os"
  sysSetFdCloseOnExec :: "nat \<Rightarrow> 'os \<Rightarrow> int \<times> 'os"
  ioWaitRead :: "nat \<Rightarrow> 'os \<Rightarrow> bool \<times> 'os"
  ioWaitWrite :: "nat \<Rightarrow> 'os \<Rightarrow> bool \<times> 'os"
  patience :: nat

definition on_os :: "('os \<Rightarrow> 'r \<times> 'os) \<Rightarrow> 'os vm \<Rightarrow> 'r \<times> 'os vm" where
  "on_os f v = (let (r, s) = f (os v) in (r, v\<lparr>os := s\<rparr>))"

text \<open>\<open>DIFC.OSpassCurrentLabels()\<close> as the file operations use it, without its result.\<close>

definition pass_labels :: "'os sysCall \<Rightarrow> 'os vm \<Rightarrow> 'os vm" where
  "pass_labels S v = snd (OSpassCurrentLabels S v)"

definition stat :: "'os sysCall \<Rightarrow> 'os fileCall \<Rightarrow> string \<Rightarrow> int \<Rightarrow> 'os vm \<Rightarrow> int \<times> 'os vm" where
  "stat S F fileName kind v = on_os (sysStat F fileName kind) (pass_labels S v)"

definition access :: "'os sysCall \<Rightarrow> 'os fileCall \<Rightarrow> string \<Rightarrow> int \<Rightarrow> 'os vm \<Rightarrow> int \<times> 'os vm" where
  "access S F fileName kind v = on_os (sysAccess F fileName kind) (pass_labels S v)"

text \<open>\<open>nonblocking\<close> is the array \<open>standardFdIsNonblocking\<close>.\<close>

definition blockingReadHack :: "'os fileCall \<Rightarrow> bool list \<Rightarrow> nat \<Rightarrow> 'os vm \<Rightarrow> bool \<times> 'os vm" where
  "blockingReadHack F nonblocking fd v =
     (if 3 \<le> fd \<or> nonblocking ! fd then (True, v) else on_os (ioWaitRead F fd) v)"

definition blockingWriteHack :: "'os fileCall \<Rightarrow> bool list \<Rightarrow> nat \<Rightarrow> 'os vm \<Rightarrow> bool \<times> 'os vm" where
  "blockingWriteHack F nonblocking fd v =
     (if 3 \<le> fd \<or> nonblocking ! fd then (True, v) else on_os (ioWaitWrite F fd) v)"

primrec readByte_loop :: "'os fileCall \<Rightarrow> nat \<Rightarrow> nat \<Rightarrow> 'os vm \<Rightarrow> io_result \<times> 'os vm" where
  "readByte_loop F fd 0 v = (Waiting, v)"
| "readByte_loop F fd (Suc n) v =
     (case on_os (sysReadByte F fd) v of (b, v1) \<Rightarrow>
        if b \<ge> -1 then (Done b, v1)
        else if b = -2 then
          (case on_os (ioWaitRead F fd) v1 of (ready, v2) \<Rightarrow>
             if \<not> ready then (Done (-2), v2) else readByte_loop F fd n v2)
        else (Done (-2), v1))"

definition readByte :: "'os sysCall \<Rightarrow> 'os fileCall \<Rightarrow> bool list \<Rightarrow> nat \<Rightarrow> 'os vm \<Rightarrow> io_result \<times> 'os vm" where
  "readByte S F nonblocking fd v =
     (case blockingReadHack F nonblocking fd v of (ok, v1) \<Rightarrow>
        if \<not> ok then (Done (-2), v1) else readByte_loop F fd (patience F) (pass_labels S v1))"

primrec writeByte_loop :: "'os fileCall \<Rightarrow> nat \<Rightarrow> int \<Rightarrow> nat \<Rightarrow> 'os vm \<Rightarrow> io_result \<times> 'os vm" where
  "writeByte_loop F fd b 0 v = (Waiting, v)"
| "writeByte_loop F fd b (Suc n) v =
     (case on_os (sysWriteByte F fd b) v of (rc, v1) \<Rightarrow>
        if rc = 0 then (Done 0, v1)
        else if rc = -2 then
          (case on_os (ioWaitWrite F fd) v1 of (ready, v2) \<Rightarrow>
             if \<not> ready then (Done (-1), v2) else writeByte_loop F fd b n v2)
        else (Done (-1), v1))"

definition writeByte ::
  "'os sysCall \<Rightarrow> 'os fileCall \<Rightarrow> bool list \<Rightarrow> nat \<Rightarrow> int \<Rightarrow> 'os vm \<Rightarrow> io_result \<times> 'os vm" where
  "writeByte S F nonblocking fd b v =
     (case blockingWriteHack F nonblocking fd v of (ok, v1) \<Rightarrow>
        if \<not> ok then (Done (-1), v1) else writeByte_loop F fd b (patience F) (pass_labels S v1))"

text \<open>The request trimmed to the buffer; the sum is a Java \<open>int\<close> and may wrap.\<close>

definition trim :: "nat \<Rightarrow> 32 word \<Rightarrow> 32 word \<Rightarrow> 32 word" where
  "trim buf_length off cnt = (if sint (off + cnt) > int buf_length then of_nat buf_length - off else cnt)"

primrec readBytes_loop ::
  "'os fileCall \<Rightarrow> nat \<Rightarrow> 32 word \<Rightarrow> nat \<Rightarrow> 32 word \<Rightarrow> 32 word \<Rightarrow> int \<Rightarrow> 'os vm \<Rightarrow> io_result \<times> 'os vm" where
  "readBytes_loop F fd buf 0 off cnt read v = (Waiting, v)"
| "readBytes_loop F fd buf (Suc n) off cnt read v =
     (case on_os (sysReadBytes F fd (buf + off) cnt) v of (rc, v1) \<Rightarrow>
        if rc = 0 then (Done read, v1)
        else if rc > 0 then
          if cnt - word_of_int rc = 0 then (Done (read + rc), v1)
          else readBytes_loop F fd buf n (off + word_of_int rc) (cnt - word_of_int rc) (read + rc) v1
        else if rc = -1 then
          if read \<noteq> 0 then (Done read, v1)
          else (case on_os (ioWaitRead F fd) v1 of (ready, v2) \<Rightarrow>
                  if \<not> ready then (Done (-2), v2) else readBytes_loop F fd buf n off cnt read v2)
        else (Done (-2), v1))"

definition readBytes ::
  "'os sysCall \<Rightarrow> 'os fileCall \<Rightarrow> bool list \<Rightarrow> nat \<Rightarrow> 32 word \<Rightarrow> nat \<Rightarrow> 32 word \<Rightarrow> 32 word \<Rightarrow> 'os vm \<Rightarrow>
   io_result \<times> 'os vm" where
  "readBytes S F nonblocking fd buf buf_length off cnt v =
     (if sint off < 0 then (IndexOutOfBounds, v)
      else
        let v1 = pass_labels S v; cnt' = trim buf_length off cnt in
        (case blockingReadHack F nonblocking fd v1 of (ok, v2) \<Rightarrow>
           if \<not> ok then (Done (-2), v2) else readBytes_loop F fd buf (patience F) off cnt' 0 v2))"

primrec writeBytes_loop ::
  "'os fileCall \<Rightarrow> nat \<Rightarrow> 32 word \<Rightarrow> nat \<Rightarrow> 32 word \<Rightarrow> 32 word \<Rightarrow> int \<Rightarrow> 'os vm \<Rightarrow> io_result \<times> 'os vm" where
  "writeBytes_loop F fd buf 0 off cnt written v = (Waiting, v)"
| "writeBytes_loop F fd buf (Suc n) off cnt written v =
     (case on_os (sysWriteBytes F fd (buf + off) cnt) v of (rc, v1) \<Rightarrow>
        if rc \<ge> 0 then
          if cnt - word_of_int rc = 0 then (Done (written + rc), v1)
          else writeBytes_loop F fd buf n (off + word_of_int rc) (cnt - word_of_int rc) (written + rc) v1
        else if rc = -1 then
          (case on_os (ioWaitWrite F fd) v1 of (ready, v2) \<Rightarrow>
             if \<not> ready then (Done (-2), v2) else writeBytes_loop F fd buf n off cnt written v2)
        else (Done (-2), v1))"

definition writeBytes ::
  "'os sysCall \<Rightarrow> 'os fileCall \<Rightarrow> bool list \<Rightarrow> nat \<Rightarrow> 32 word \<Rightarrow> nat \<Rightarrow> 32 word \<Rightarrow> 32 word \<Rightarrow> 'os vm \<Rightarrow>
   io_result \<times> 'os vm" where
  "writeBytes S F nonblocking fd buf buf_length off cnt v =
     (if cnt = 0 then (Done 0, v)
      else if sint off < 0 then (IndexOutOfBounds, v)
      else
        let v1 = pass_labels S v; cnt' = trim buf_length off cnt in
        (case blockingWriteHack F nonblocking fd v1 of (ok, v2) \<Rightarrow>
           if \<not> ok then (Done (-2), v2) else writeBytes_loop F fd buf (patience F) off cnt' 0 v2))"

text \<open>These two do not pass the labels.\<close>

definition sync :: "'os fileCall \<Rightarrow> nat \<Rightarrow> 'os vm \<Rightarrow> bool \<times> 'os vm" where
  "sync F fd v = (case on_os (sysSyncFile F fd) v of (rc, v1) \<Rightarrow> (rc = 0, v1))"

definition bytesAvailable :: "'os fileCall \<Rightarrow> nat \<Rightarrow> 'os vm \<Rightarrow> int \<times> 'os vm" where
  "bytesAvailable F fd v = on_os (sysBytesAvailable F fd) v"

definition onCreateFileDescriptor ::
  "'os sysCall \<Rightarrow> 'os fileCall \<Rightarrow> nat \<Rightarrow> bool \<Rightarrow> bool list \<Rightarrow> 'os vm \<Rightarrow> bool list \<times> 'os vm" where
  "onCreateFileDescriptor S F fd shared nonblocking v =
     (case on_os (sysNetSocketNoBlock F fd 1) (pass_labels S v) of (rc, v1) \<Rightarrow>
        let nonblocking' = (if fd < 3 then nonblocking[fd := (rc = 0)] else nonblocking)
        in (nonblocking', if shared then v1 else snd (on_os (sysSetFdCloseOnExec F fd) v1)))"

section \<open>Writing a buffer\<close>

text \<open>What \<open>write(2)\<close> promises, for an operating system with a log of the addresses whose bytes it has
  taken from a descriptor: a call takes the first bytes of the request and returns their number,
  or takes none and returns a negative number; waiting takes none.\<close>

definition addrs_from :: "32 word \<Rightarrow> nat \<Rightarrow> 32 word list" where
  "addrs_from a n = map (\<lambda>i. a + of_nat i) [0..<n]"

definition takes_prefix :: "'os fileCall \<Rightarrow> nat \<Rightarrow> ('os \<Rightarrow> 32 word list) \<Rightarrow> bool" where
  "takes_prefix F fd log \<longleftrightarrow>
     (\<forall>a n s. fst (sysWriteBytes F fd a n s) \<le> uint n \<and>
        log (snd (sysWriteBytes F fd a n s)) = log s @ addrs_from a (nat (fst (sysWriteBytes F fd a n s)))) \<and>
     (\<forall>s. log (snd (ioWaitWrite F fd s)) = log s)"

lemma takes_prefixD:
  assumes "takes_prefix F fd log"
  shows "sysWriteBytes F fd a n s = (r, s') \<Longrightarrow> r \<le> uint n \<and> log s' = log s @ addrs_from a (nat r)"
    and "ioWaitWrite F fd s = (rdy, s') \<Longrightarrow> log s' = log s"
proof -
  assume "sysWriteBytes F fd a n s = (r, s')"
  moreover have "fst (sysWriteBytes F fd a n s) \<le> uint n \<and>
      log (snd (sysWriteBytes F fd a n s)) = log s @ addrs_from a (nat (fst (sysWriteBytes F fd a n s)))"
    using assms unfolding takes_prefix_def by blast
  ultimately show "r \<le> uint n \<and> log s' = log s @ addrs_from a (nat r)" by simp
next
  assume "ioWaitWrite F fd s = (rdy, s')"
  moreover have "log (snd (ioWaitWrite F fd s)) = log s" using assms unfolding takes_prefix_def by blast
  ultimately show "log s' = log s" by simp
qed

lemma addrs_append: "addrs_from a m @ addrs_from (a + of_nat m) n = addrs_from a (m + n)"
  by (induction n) (simp_all add: addrs_from_def add.assoc)

lemma addrs_0 [simp]: "addrs_from a 0 = []"
  by (simp add: addrs_from_def)

lemma cnt_left:
  assumes "0 \<le> r" "r \<le> uint (n :: 32 word)"
  shows "uint (n - word_of_int r) = uint n - r"
proof -
  have b: "uint n < 2 ^ 32" using uint_lt2p [of n] by simp
  have "uint (word_of_int r :: 32 word) = r" using assms b by (simp add: uint_word_of_int)
  moreover have "uint (n - word_of_int r) = (uint n - uint (word_of_int r :: 32 word)) mod 2 ^ 32"
    by (simp only: uint_word_ariths(2)) simp
  ultimately show ?thesis using assms b by (simp only:) (rule mod_pos_pos_trivial; linarith)
qed

lemma writeBytes_loop_in_order:
  assumes "takes_prefix F fd log" "writeBytes_loop F fd buf p off n w v = (res, v')"
  shows "\<exists>k \<le> unat n. log (os v') = log (os v) @ addrs_from (buf + off) k \<and>
    (\<forall>r \<ge> 0. res = Done r \<longrightarrow> r = w + uint n \<and> k = unat n)"
  using assms(2)
proof (induction p arbitrary: off n w v)
  case 0
  then show ?case by auto
next
  case (Suc p)
  obtain r s where rs: "sysWriteBytes F fd (buf + off) n (os v) = (r, s)" by fastforce
  have log: "r \<le> uint n" "log s = log (os v) @ addrs_from (buf + off) (nat r)"
    using takes_prefixD(1) [OF assms(1) rs] by simp_all
  consider "0 \<le> r" "n - word_of_int r = 0" | "0 \<le> r" "n - word_of_int r \<noteq> 0" | "r = -1" | "r < -1" by linarith
  then show ?case
  proof cases
    case 1
    then have "uint n = r" using cnt_left [OF _ log(1)] by simp
    then have "nat r = unat n" by (simp add: unat_eq_nat_uint)
    moreover have "res = Done (w + r)" "v' = v\<lparr>os := s\<rparr>" using 1 Suc.prems rs by (simp_all add: on_os_def)
    ultimately show ?thesis using \<open>uint n = r\<close> log(2) by (intro exI [of _ "unat n"]) simp
  next
    case 2
    let ?n = "n - word_of_int r"
    have n: "uint ?n = uint n - r" "nat r \<le> unat n" "unat ?n = unat n - nat r"
      using cnt_left [OF 2(1) log(1)] nat_mono [OF log(1)] nat_diff_distrib [OF 2(1) log(1)]
      unfolding unat_eq_nat_uint by simp_all
    have "writeBytes_loop F fd buf p (off + word_of_int r) ?n (w + r) (v\<lparr>os := s\<rparr>) = (res, v')"
      using Suc.prems rs 2 by (simp add: on_os_def)
    from Suc.IH [OF this] obtain k where k: "k \<le> unat ?n"
      "log (os v') = log s @ addrs_from (buf + (off + word_of_int r)) k"
      "\<forall>q \<ge> 0. res = Done q \<longrightarrow> q = w + r + uint ?n \<and> k = unat ?n" by auto
    have "word_of_int r = (of_nat (nat r) :: 32 word)" using 2(1) by simp
    then have "log (os v') = log (os v) @ addrs_from (buf + off) (nat r + k)"
      using k(2) log(2) addrs_append [of "buf + off" "nat r" k] by (simp add: add.assoc)
    with k(1,3) n show ?thesis by (intro exI [of _ "nat r + k"]) auto
  next
    case 3
    obtain rdy s2 where w: "ioWaitWrite F fd s = (rdy, s2)" by fastforce
    have "log s2 = log (os v)" using takes_prefixD(2) [OF assms(1) w] log(2) 3 by simp
    moreover have "if rdy then writeBytes_loop F fd buf p off n w (v\<lparr>os := s2\<rparr>) = (res, v') else res = Done (-2) \<and> v' = v\<lparr>os := s2\<rparr>"
      using Suc.prems rs w 3 by (cases rdy) (simp_all add: on_os_def)
    ultimately show ?thesis
      using Suc.IH [of off n w "v\<lparr>os := s2\<rparr>"] by (cases rdy) (simp, intro exI [of _ 0], simp)
  next
    case 4
    then have "res = Done (-2)" "v' = v\<lparr>os := s\<rparr>" using Suc.prems rs by (simp_all add: on_os_def)
    with 4 log(2) show ?thesis by (intro exI [of _ 0]) simp
  qed
qed

lemma writeBytes_loop_ends:
  assumes "\<forall>a n s. 0 < n \<longrightarrow> 0 < fst (sysWriteBytes F fd a n s) \<and> fst (sysWriteBytes F fd a n s) \<le> uint n"
    "0 < n" "unat n \<le> p"
  shows "\<exists>v'. writeBytes_loop F fd buf p off n w v = (Done (w + uint n), v')"
  using assms(2,3)
proof (induction p arbitrary: off n w v)
  case 0
  then show ?case by (simp add: word_less_nat_alt)
next
  case (Suc p)
  obtain r s where rs: "sysWriteBytes F fd (buf + off) n (os v) = (r, s)" by fastforce
  have "0 < fst (sysWriteBytes F fd (buf + off) n (os v)) \<and> fst (sysWriteBytes F fd (buf + off) n (os v)) \<le> uint n"
    using assms(1) Suc.prems(1) by blast
  then have r: "0 < r" "r \<le> uint n" using rs by simp_all
  let ?n = "n - word_of_int r"
  have n: "uint ?n = uint n - r" using r by (simp add: cnt_left)
  show ?case
  proof (cases "?n = 0")
    case True
    then have "uint n = r" using n by simp
    then show ?thesis using True r rs by (simp add: on_os_def)
  next
    case False
    have le: "unat ?n \<le> p" using n r(1) Suc.prems(2) unfolding unat_eq_nat_uint by linarith
    have pos: "0 < ?n" using False by (simp only: word_gt_0)
    obtain v' where "writeBytes_loop F fd buf p (off + word_of_int r) ?n (w + r) (v\<lparr>os := s\<rparr>) = (Done (w + r + uint ?n), v')"
      using Suc.IH [OF pos le] by blast
    moreover have "w + r + uint ?n = w + uint n" using n by linarith
    ultimately show ?thesis using False r rs by (simp add: on_os_def)
  qed
qed

lemma sint_small:
  assumes "unat (x :: 32 word) < 2 ^ 31"
  shows "sint x = int (unat x)"
proof -
  have "int (unat x) < int (2 ^ 31)" using assms by (simp only: of_nat_less_iff)
  then have b: "uint x < 2 ^ 31" by simp
  have "- (2 ^ 31) \<le> uint x" by (rule order_trans [OF _ uint_ge_0]) simp
  with b have "sint x = uint x" unfolding sint_uint by (intro signed_take_bit_int_eq_self) simp_all
  then show ?thesis by (simp only: uint_nat)
qed

lemma trim_spec:
  assumes "unat off \<le> blen" "unat off + unat n < 2 ^ 31" "blen < 2 ^ 31"
  shows "trim blen off n = (of_nat (min (unat n) (blen - unat off)) :: 32 word)"
proof -
  have "unat (off + n) = unat off + unat n" using assms(2) by (simp add: unat_word_ariths)
  then have "sint (off + n) = int (unat off + unat n)"
    using assms(2) by (simp add: sint_small)
  then have c: "int blen < sint (off + n) \<longleftrightarrow> blen < unat off + unat n" by (simp only: of_nat_less_iff)
  show ?thesis
  proof (cases "blen < unat off + unat n")
    case True
    then have "min (unat n) (blen - unat off) = blen - unat off" by linarith
    with True c assms(1) show ?thesis by (simp add: trim_def of_nat_diff)
  next
    case False
    then have "min (unat n) (blen - unat off) = unat n" by linarith
    with False c show ?thesis by (simp add: trim_def)
  qed
qed

text \<open>C18: Writing a buffer skips no byte and repeats none. The descriptor is 3 or more, the offset lies inside
  the buffer and \<open>off + cnt\<close> is below \<open>2^31\<close>. On an operating system that keeps the contract of
  \<open>write(2)\<close>, partial writes and waits included, the bytes \<open>writeBytes\<close> has handed over are
  the first bytes after the offset, in order. If it returns a count, that count is the request
  trimmed to the buffer and all of these bytes were taken; and it does return it when every
  call takes at least one byte.\<close>

theorem writeBytes_in_order:
  fixes S :: "'os sysCall"
  assumes "takes_prefix F fd log" "writeBytes S F nonblocking fd buf blen off n v = (res, v')" "3 \<le> fd" "0 < n"
    "unat off < blen" "unat off + unat n < 2 ^ 31" "blen < 2 ^ 31" "m = min (unat n) (blen - unat off)"
  shows "(\<exists>k \<le> m. log (os v') = log (os (pass_labels S v)) @ addrs_from (buf + off) k \<and>
      (\<forall>r \<ge> 0. res = Done r \<longrightarrow> r = int m \<and> k = m)) \<and>
    ((\<forall>a n s. 0 < n \<longrightarrow> 0 < fst (sysWriteBytes F fd a n s)) \<longrightarrow> m \<le> patience F \<longrightarrow> res = Done (int m))"
proof -
  have m: "m < 2 ^ 32" "0 < m" using assms(4-8) by (simp_all add: word_less_nat_alt min_def)
  have u: "uint (of_nat m :: 32 word) = int m" "unat (of_nat m :: 32 word) = m"
    using m(1) by (simp_all add: unsigned_of_nat take_bit_nat_eq_self)
  have "0 \<le> sint off"
    using assms(6) by (simp add: sint_small)
  then have l: "writeBytes_loop F fd buf (patience F) off (of_nat m) 0 (pass_labels S v) = (res, v')"
    using assms(2-4) trim_spec [OF _ assms(6,7)] assms(5,8) by (simp add: writeBytes_def blockingWriteHack_def word_gt_0)
  have pos: "0 < (of_nat m :: 32 word)" using m(2) u(2) by (simp only: word_less_nat_alt unat_0)
  have "res = Done (int m)" if g: "\<forall>a n s. 0 < n \<longrightarrow> 0 < fst (sysWriteBytes F fd a n s)" and p: "m \<le> patience F"
  proof -
    have "\<forall>a n s. 0 < n \<longrightarrow> 0 < fst (sysWriteBytes F fd a n s) \<and> fst (sysWriteBytes F fd a n s) \<le> uint n"
      using g assms(1) unfolding takes_prefix_def by blast
    from writeBytes_loop_ends [OF this pos, of "patience F" buf off 0 "pass_labels S v"] show ?thesis using p l u by simp
  qed
  moreover obtain k where "k \<le> m" "log (os v') = log (os (pass_labels S v)) @ addrs_from (buf + off) k"
      "\<forall>r \<ge> 0. res = Done r \<longrightarrow> r = int m \<and> k = m"
    using writeBytes_loop_in_order [OF assms(1) l] unfolding u add_0 by blast
  ultimately show ?thesis by blast
qed

text \<open>An operating system that takes at most two bytes at a time.\<close>

definition slow_files :: "32 word list fileCall" where
  "slow_files = \<lparr>sysStat = (\<lambda>_ _ s. (0, s)), sysAccess = (\<lambda>_ _ s. (0, s)), sysReadByte = (\<lambda>_ s. (0, s)),
     sysWriteByte = (\<lambda>_ _ s. (0, s)), sysReadBytes = (\<lambda>_ _ _ s. (0, s)),
     sysWriteBytes = (\<lambda>_ a n s. (min 2 (uint n), s @ addrs_from a (nat (min 2 (uint n))))),
     sysSyncFile = (\<lambda>_ s. (0, s)), sysBytesAvailable = (\<lambda>_ s. (0, s)), sysNetSocketNoBlock = (\<lambda>_ _ s. (0, s)),
     sysSetFdCloseOnExec = (\<lambda>_ s. (0, s)), ioWaitRead = (\<lambda>_ s. (True, s)), ioWaitWrite = (\<lambda>_ s. (True, s)), patience = 10\<rparr>"

definition slow_sys :: "32 word list sysCall" where
  "slow_sys = \<lparr>sysPassLabels = (\<lambda>_ _ _ _ s. (0, s)), sysCreateAndAddLabel = (\<lambda>_ _ s. (7, s)),
     sysDropCapability = (\<lambda>_ _ _ _ s. (0, s)), sysCreateLabeledDirectory = (\<lambda>_ _ _ _ _ _ s. (0, s)),
     sysCreateLabeledFile = (\<lambda>_ _ _ _ _ _ s. (0, s))\<rparr>"

theorem writeBytes_in_order_witness:
  "\<exists>v'. writeBytes slow_sys slow_files [] 3 100 8 3 9 (boot_vm []) = (Done 5, v') \<and> os v' = [103, 104, 105, 106, 107]"
proof -
  obtain res v' where r: "writeBytes slow_sys slow_files [] 3 100 8 3 9 (boot_vm []) = (res, v')" by fastforce
  have t: "takes_prefix slow_files 3 (\<lambda>s. s)" by (simp add: takes_prefix_def slow_files_def)
  have g: "\<forall>a n s. 0 < n \<longrightarrow> 0 < fst (sysWriteBytes slow_files 3 a n s)" "5 \<le> patience slow_files"
    by (auto simp: slow_files_def word_less_def)
  have p: "os (pass_labels slow_sys (boot_vm [])) = []"
    by (simp add: pass_labels_def OSpassCurrentLabels_def slow_sys_def boot_vm_def init_def in_SR_def new_GreenThread_def)
  have c: "(\<exists>k \<le> 5. os v' = os (pass_labels slow_sys (boot_vm [])) @ addrs_from (100 + 3) k \<and>
      (\<forall>r \<ge> 0. res = Done r \<longrightarrow> r = int 5 \<and> k = 5)) \<and>
    ((\<forall>a n s. 0 < n \<longrightarrow> 0 < fst (sysWriteBytes slow_files 3 a n s)) \<longrightarrow> 5 \<le> patience slow_files \<longrightarrow> res = Done (int 5))"
    by (rule writeBytes_in_order [OF t r]) simp_all
  then have d: "res = Done (int 5)" using g by blast
  with c have "os v' = addrs_from 103 5" using p by force
  moreover have "addrs_from 103 5 = [103, 104, 105, 106, 107]" by (simp add: addrs_from_def upt_rec [of _ 5])
  ultimately show ?thesis using r d by simp
qed

text \<open>An offset and a count whose sum is beyond the range of a Java \<open>int\<close> are not trimmed.\<close>

lemma trim_overflow: "trim 10 1 0x7FFFFFFF = 0x7FFFFFFF"
  by (simp add: trim_def)

end
