(* ===== verification/Sys_Bridge.thy ===== *)
theory Sys_Bridge
  imports Vfs_Locks File_System
begin

text \<open>
  Between the virtual machine and the kernel: the C functions of
  \<^verbatim>\<open>tools/bootImageRunner/sys.C\<close> behind the system calls of the virtual machine and the wrappers
  of \<^verbatim>\<open>tools/bootImageRunner/difc.h\<close>, on the kernel model. A C \<open>long\<close> has 32 bits on this
  machine and a Java \<open>long\<close> has 64. The system calls on labels, \<open>read\<close> and \<open>write\<close> go to the kernel
  model with DIFC as the active module; creating labelled files is left to an argument. A
  fault stops the process and is recorded in \<open>k_fault\<close>.
\<close>

section \<open>The machine below the virtual machine\<close>

definition EINTR :: errno where "EINTR = 4"

text \<open>The kernel with the current task, the other threads, the label counter, what its allocations
  answer and its file environment; and the C side: the words on the stack where a label
  structure is built, \<open>errno\<close>, the local byte of the single-byte calls with its address, and how
  often an interrupted call is repeated.\<close>

record 's machine =
  k_sys :: "'s system"
  k_group :: "task_struct list"
  k_max :: u32
  k_alloc :: bool
  k_seg :: "nat \<Rightarrow> bool"
  k_env :: "'s vfs_env"
  k_stack :: "u64 list"
  k_errno :: int
  k_char :: u32
  k_store :: "u8 \<Rightarrow> 's \<Rightarrow> 's"
  k_load :: "'s \<Rightarrow> u8"
  k_again :: nat
  k_fault :: "fault option"

abbreviation k_task :: "'s machine \<Rightarrow> task_struct" where
  "k_task k \<equiv> cur_task (k_sys k)"

definition set_task :: "task_struct \<Rightarrow> 's machine \<Rightarrow> 's machine" where
  "set_task t k = k\<lparr>k_sys := (k_sys k)\<lparr>cur_task := t\<rparr>\<rparr>"

text \<open>The return of a system call through the C library: an error is -1 with \<open>errno\<close> set.\<close>

definition k_return :: "int \<Rightarrow> 's machine \<Rightarrow> int \<times> 's machine" where
  "k_return rv k = (if - 4096 < rv \<and> rv < 0 then (-1, k\<lparr>k_errno := - rv\<rparr>) else (rv, k))"

definition k_run :: "'r outcome \<Rightarrow> ('r \<Rightarrow> int \<times> 's machine) \<Rightarrow> 's machine \<Rightarrow> int \<times> 's machine" where
  "k_run r f k = (case r of Ret x \<Rightarrow> f x | Oops e \<Rightarrow> (-1, k\<lparr>k_fault := Some e\<rparr>))"

section \<open>The wrappers of the system calls on labels\<close>

text \<open>\<open>return rv ? -errno : 0\<close>\<close>

definition neg_errno :: "int \<times> 's machine \<Rightarrow> int \<times> 's machine" where
  "neg_errno r = (case r of (rv, k) \<Rightarrow> (if rv \<noteq> 0 then - k_errno k else 0, k))"

definition h_alloc_label :: "u32 \<Rightarrow> int \<Rightarrow> 's machine \<Rightarrow> int \<times> 's machine" where
  "h_alloc_label type region k =
     (case k_run (difc_alloc_label (k_seg k) type region (k_max k) (k_task k) (k_group k))
             (\<lambda>(m, t, ts, l). k_return (sint (ucast l :: u32)) ((set_task t k)\<lparr>k_max := m, k_group := ts\<rparr>)) k of
        (rv, k1) \<Rightarrow> (if rv \<noteq> 0 then rv else - k_errno k1, k1))"

definition h_set_task_label :: "label_t \<Rightarrow> int \<Rightarrow> int \<Rightarrow> u64 list \<Rightarrow> 's machine \<Rightarrow> int \<times> 's machine" where
  "h_set_task_label l op label_type ulabel k =
     neg_errno (k_run (difc_set_task_label (k_alloc k) (uid (k_task k)) l op label_type ulabel (k_task k))
       (\<lambda>(t, rv). k_return rv (set_task t k)) k)"

definition h_drop_capabilities :: "u64 list \<Rightarrow> u32 \<Rightarrow> u32 \<Rightarrow> int \<Rightarrow> 's machine \<Rightarrow> int \<times> 's machine" where
  "h_drop_capabilities caps n type flag k =
     neg_errno (k_run (difc_drop_capabilities (k_alloc k) (k_seg k) caps n type flag (security (k_task k)))
       (\<lambda>(sec, rv). k_return rv (set_task ((k_task k)\<lparr>security := sec\<rparr>) k)) k)"

definition h_replace_label_tcb :: "u64 list \<Rightarrow> 's machine \<Rightarrow> int \<times> 's machine" where
  "h_replace_label_tcb ulabel k =
     neg_errno (k_run (difc_replace_label_tcb (k_alloc k) ulabel (k_task k))
       (\<lambda>(t, rv). k_return rv (set_task t k)) k)"

section \<open>The calls of the virtual machine\<close>

text \<open>Element \<open>i\<close> of a Java \<open>long[]\<close> read as a C \<open>long[]\<close>: the low or the high half of label
  \<open>i div 2\<close>.\<close>

definition half :: "int list \<Rightarrow> nat \<Rightarrow> 32 word" where
  "half xs i = word_of_int (xs ! (i div 2) div (if even i then 1 else 2 ^ 32))"

definition long_at :: "int list option \<Rightarrow> nat \<Rightarrow> 32 word outcome" where
  "long_at a i = bindO (deref a) (\<lambda>xs. if i < 2 * length xs then Ret (half xs i) else Oops OutOfBounds)"

text \<open>The loop \<open>for (i = 0; i < len; i++) list[i+1] = (label_t) set[i]\<close>, where \<open>list\<close> starts at word
  \<open>base\<close> of the structure and \<open>k\<close> rounds are left.\<close>

primrec label_loop :: "nat \<Rightarrow> int list option \<Rightarrow> nat \<Rightarrow> nat \<Rightarrow> u64 list \<Rightarrow> u64 list outcome" where
  "label_loop base a i 0 f = Ret f"
| "label_loop base a i (Suc k) f =
     bindO (long_at a i) (\<lambda>w. bindO (wr f (base + i + 1) (scast w)) (label_loop base a (Suc i) k))"

text \<open>The structure of two arrays of 32 words; no length is checked, so a long secrecy list runs into
  the integrity list and beyond.\<close>

definition fill_label :: "u64 list \<Rightarrow> int list option \<Rightarrow> nat \<Rightarrow> int list option \<Rightarrow> nat \<Rightarrow> u64 list outcome" where
  "fill_label stk sec sec_len integ int_len =
     bindO (wr stk 0 (of_nat sec_len)) (\<lambda>f1.
     bindO (label_loop 0 sec 0 sec_len f1) (\<lambda>f2.
     bindO (wr f2 LIST_WORDS (of_nat int_len)) (label_loop LIST_WORDS integ 0 int_len)))"

definition with_label ::
  "(u64 list \<Rightarrow> 's machine \<Rightarrow> int \<times> 's machine) \<Rightarrow> int list option \<Rightarrow> nat \<Rightarrow> int list option \<Rightarrow> nat \<Rightarrow>
   's machine \<Rightarrow> int \<times> 's machine" where
  "with_label call sec sec_len integ int_len k =
     k_run (fill_label (k_stack k) sec sec_len integ int_len) (\<lambda>f. call f (k\<lparr>k_errno := 0\<rparr>)) (k\<lparr>k_errno := 0\<rparr>)"

definition c_sysPassLabels :: "int list option \<Rightarrow> nat \<Rightarrow> int list option \<Rightarrow> nat \<Rightarrow> 's machine \<Rightarrow> int \<times> 's machine" where
  "c_sysPassLabels = with_label (h_set_task_label 0 LABEL_OP_REPLACE 0)"

definition c_sysReplaceLabelsTCB :: "int list option \<Rightarrow> nat \<Rightarrow> int list option \<Rightarrow> nat \<Rightarrow> 's machine \<Rightarrow> int \<times> 's machine" where
  "c_sysReplaceLabelsTCB = with_label h_replace_label_tcb"

text \<open>Here the array is used as what it is, an array of 64-bit words.\<close>

definition c_sysDropCapability :: "int list \<Rightarrow> nat \<Rightarrow> int \<Rightarrow> int \<Rightarrow> 's machine \<Rightarrow> int \<times> 's machine" where
  "c_sysDropCapability labels n type flag k =
     h_drop_capabilities (map word_of_int labels) (of_nat n)
       (if type = 0 then TYPE_PLUS else if type = 1 then TYPE_MINUS else TYPE_PLUS OR TYPE_MINUS) flag (k\<lparr>k_errno := 0\<rparr>)"

definition c_sysCreateAndAddLabel :: "int \<Rightarrow> int \<Rightarrow> 's machine \<Rightarrow> int \<times> 's machine" where
  "c_sysCreateAndAddLabel type region k =
     h_alloc_label (if type = 0 then TYPE_PLUS else if type = 1 then TYPE_MINUS else TYPE_PLUS OR TYPE_MINUS)
       region (k\<lparr>k_errno := 0\<rparr>)"

definition c_sysCreateLabeled ::
  "(string \<Rightarrow> int \<Rightarrow> u64 list \<Rightarrow> 's machine \<Rightarrow> int \<times> 's machine) \<Rightarrow>
   string \<Rightarrow> int \<Rightarrow> int list \<Rightarrow> nat \<Rightarrow> int list \<Rightarrow> nat \<Rightarrow> 's machine \<Rightarrow> int \<times> 's machine" where
  "c_sysCreateLabeled create pname mode sec sec_len integ int_len k =
     with_label (\<lambda>f k. neg_errno (create pname mode f k)) (Some sec) sec_len (Some integ) int_len k"

definition kernel_sys ::
  "(string \<Rightarrow> int \<Rightarrow> u64 list \<Rightarrow> 's machine \<Rightarrow> int \<times> 's machine) \<Rightarrow>
   (string \<Rightarrow> int \<Rightarrow> u64 list \<Rightarrow> 's machine \<Rightarrow> int \<times> 's machine) \<Rightarrow> 's machine sysCall" where
  "kernel_sys mkdir_labeled create_labeled =
     \<lparr>sysPassLabels = c_sysPassLabels, sysCreateAndAddLabel = c_sysCreateAndAddLabel, sysDropCapability = c_sysDropCapability,
      sysCreateLabeledDirectory = c_sysCreateLabeled mkdir_labeled, sysCreateLabeledFile = c_sysCreateLabeled create_labeled\<rparr>"

section \<open>Reading and writing\<close>

definition c_read :: "nat \<Rightarrow> u32 \<Rightarrow> u32 \<Rightarrow> 's machine \<Rightarrow> int \<times> 's machine" where
  "c_read fd buf n k = k_run (sys_read (k_env k) fd buf n (k_sys k)) (\<lambda>(rv, S). k_return rv (k\<lparr>k_sys := S\<rparr>)) k"

definition c_write :: "nat \<Rightarrow> u32 \<Rightarrow> u32 \<Rightarrow> 's machine \<Rightarrow> int \<times> 's machine" where
  "c_write fd buf n k = k_run (sys_write (k_env k) fd buf n (k_sys k)) (\<lambda>(rv, S). k_return rv (k\<lparr>k_sys := S\<rparr>)) k"

primrec readByte_again :: "nat \<Rightarrow> nat \<Rightarrow> 's machine \<Rightarrow> int \<times> 's machine" where
  "readByte_again fd 0 k = (-3, k\<lparr>k_fault := Some Sleeps\<rparr>)"
| "readByte_again fd (Suc n) k =
     (case c_read fd (k_char k) 1 k of (rc, k1) \<Rightarrow>
        if rc = 1 then (int (unat (k_load k1 (below_fop (k_sys k1)))), k1)
        else if rc = 0 then (-1, k1)
        else if k_errno k1 = EAGAIN then (-2, k1)
        else if k_errno k1 = EINTR then readByte_again fd n k1
        else (-3, k1))"

definition c_sysReadByte :: "nat \<Rightarrow> 's machine \<Rightarrow> int \<times> 's machine" where
  "c_sysReadByte fd k = readByte_again fd (k_again k) k"

primrec writeByte_again :: "nat \<Rightarrow> nat \<Rightarrow> 's machine \<Rightarrow> int \<times> 's machine" where
  "writeByte_again fd 0 k = (-1, k\<lparr>k_fault := Some Sleeps\<rparr>)"
| "writeByte_again fd (Suc n) k =
     (case c_write fd (k_char k) 1 k of (rc, k1) \<Rightarrow>
        if rc = 1 then (0, k1)
        else if k_errno k1 = EAGAIN then (-2, k1)
        else if k_errno k1 = EINTR then writeByte_again fd n k1
        else (-1, k1))"

definition store_byte :: "int \<Rightarrow> 's machine \<Rightarrow> 's machine" where
  "store_byte b k = k\<lparr>k_sys := (k_sys k)\<lparr>below_fop := k_store k (word_of_int b) (below_fop (k_sys k))\<rparr>\<rparr>"

definition c_sysWriteByte :: "nat \<Rightarrow> int \<Rightarrow> 's machine \<Rightarrow> int \<times> 's machine" where
  "c_sysWriteByte fd b k = writeByte_again fd (k_again k) (store_byte b k)"

primrec readBytes_again :: "nat \<Rightarrow> u32 \<Rightarrow> u32 \<Rightarrow> nat \<Rightarrow> 's machine \<Rightarrow> int \<times> 's machine" where
  "readBytes_again fd buf nb 0 k = (-2, k\<lparr>k_fault := Some Sleeps\<rparr>)"
| "readBytes_again fd buf nb (Suc n) k =
     (case c_read fd buf nb k of (rc, k1) \<Rightarrow>
        if rc \<ge> 0 then (rc, k1)
        else if k_errno k1 = EAGAIN then (-1, k1)
        else if k_errno k1 = EINTR then readBytes_again fd buf nb n k1
        else (-2, k1))"

definition c_sysReadBytes :: "nat \<Rightarrow> u32 \<Rightarrow> u32 \<Rightarrow> 's machine \<Rightarrow> int \<times> 's machine" where
  "c_sysReadBytes fd buf nb k = readBytes_again fd buf nb (k_again k) k"

primrec writeBytes_again :: "nat \<Rightarrow> u32 \<Rightarrow> u32 \<Rightarrow> nat \<Rightarrow> 's machine \<Rightarrow> int \<times> 's machine" where
  "writeBytes_again fd buf nb 0 k = (-2, k\<lparr>k_fault := Some Sleeps\<rparr>)"
| "writeBytes_again fd buf nb (Suc n) k =
     (case c_write fd buf nb k of (rc, k1) \<Rightarrow>
        if rc \<ge> 0 then (rc, k1)
        else if k_errno k1 = EAGAIN then (-1, k1)
        else if k_errno k1 = EINTR then writeBytes_again fd buf nb n k1
        else if k_errno k1 = EPIPE then (-3, k1)
        else (-2, k1))"

definition c_sysWriteBytes :: "nat \<Rightarrow> u32 \<Rightarrow> u32 \<Rightarrow> 's machine \<Rightarrow> int \<times> 's machine" where
  "c_sysWriteBytes fd buf nb k = writeBytes_again fd buf nb (k_again k) k"

text \<open>The file calls of the virtual machine on this machine; \<open>rest\<close> has the calls that are not
  modelled.\<close>

definition kernel_files :: "'s machine fileCall \<Rightarrow> 's machine fileCall" where
  "kernel_files rest = rest\<lparr>sysReadByte := c_sysReadByte, sysWriteByte := c_sysWriteByte,
     sysReadBytes := c_sysReadBytes, sysWriteBytes := c_sysWriteBytes\<rparr>"

section \<open>The label that arrives in the kernel\<close>

lemma label_loop_spec:
  "length f = 64 \<Longrightarrow> base + i + k < 64 \<Longrightarrow> i + k \<le> 2 * length xs \<Longrightarrow>
   label_loop base (Some xs) i k f =
     Ret (map (\<lambda>j. if base + i < j \<and> j \<le> base + i + k then scast (half xs (j - base - 1)) else f ! j) [0..<64])"
proof (induction k arbitrary: i f)
  case 0
  then have "map (\<lambda>j. if base + i < j \<and> j \<le> base + i + 0 then scast (half xs (j - base - 1)) else f ! j) [0..<64] = f"
    by (intro nth_equalityI) auto
  then show ?case by simp
next
  case (Suc k)
  let ?f = "f[base + i + 1 := scast (half xs i)]"
  have "label_loop base (Some xs) (Suc i) k ?f = Ret (map (\<lambda>j. if base + Suc i < j \<and> j \<le> base + Suc i + k
      then scast (half xs (j - base - 1)) else ?f ! j) [0..<64])"
    using Suc.prems by (intro Suc.IH) auto
  moreover have "(if base + Suc i < j \<and> j \<le> base + Suc i + k then scast (half xs (j - base - 1)) else ?f ! j)
      = (if base + i < j \<and> j \<le> base + i + Suc k then scast (half xs (j - base - 1)) else f ! j)" if "j < 64" for j
    using that Suc.prems by (auto simp: nth_list_update)
  ultimately show ?case using Suc.prems by (simp add: long_at_def wr_def del: upt_Suc)
qed

text \<open>A set of labels as the virtual machine hands it over: the array has at least as many elements as
  the length says, and the length fits the list of the kernel.\<close>

definition fits :: "int list option \<Rightarrow> nat \<Rightarrow> bool" where
  "fits a n \<longleftrightarrow> n \<le> LIST_MAX_ENTRIES \<and> (n = 0 \<or> (\<exists>xs. a = Some xs \<and> n \<le> length xs))"

definition passed :: "int list option \<Rightarrow> nat \<Rightarrow> label_t list" where
  "passed a n = (case a of None \<Rightarrow> [] | Some xs \<Rightarrow> map (\<lambda>i. scast (half xs i)) [0..<n])"

lemma label_loop_fits:
  assumes "length f = 64" "base \<in> {0, 32}" "fits a n"
  shows "\<exists>f'. label_loop base a 0 n f = Ret f' \<and> length f' = 64 \<and>
    (\<forall>j < 64. f' ! j = (if base < j \<and> j \<le> base + n then passed a n ! (j - base - 1) else f ! j))"
proof (cases "n = 0")
  case False
  then obtain xs where xs: "a = Some xs" "n \<le> length xs" "n \<le> 31"
    using assms(3) by (auto simp: fits_def arr_consts)
  show ?thesis
    using label_loop_spec [of f base 0 n xs] assms(1,2) xs by (auto simp: passed_def)
qed (use assms(1) in auto)

lemma fill_label_fits:
  assumes "length stk = 64" "fits sec n" "fits integ m"
  shows "\<exists>f. fill_label stk sec n integ m = Ret f \<and> length f = 64 \<and> f ! 0 = of_nat n \<and> f ! 32 = of_nat m \<and>
    (\<forall>j < n. f ! Suc j = passed sec n ! j) \<and> (\<forall>j < m. f ! (33 + j) = passed integ m ! j)"
proof -
  have nm: "n \<le> 31" "m \<le> 31" using assms(2,3) by (simp_all add: fits_def arr_consts)
  obtain f2 where f2: "label_loop 0 sec 0 n (stk[0 := of_nat n]) = Ret f2" "length f2 = 64"
    "\<forall>j < 64. f2 ! j = (if 0 < j \<and> j \<le> 0 + n then passed sec n ! (j - 0 - 1) else stk[0 := of_nat n] ! j)"
    using label_loop_fits [of "stk[0 := of_nat n]" 0 sec n] assms(1,2) by auto
  obtain f4 where f4: "label_loop 32 integ 0 m (f2[32 := of_nat m]) = Ret f4" "length f4 = 64"
    "\<forall>j < 64. f4 ! j = (if 32 < j \<and> j \<le> 32 + m then passed integ m ! (j - 32 - 1) else f2[32 := of_nat m] ! j)"
    using label_loop_fits [of "f2[32 := of_nat m]" 32 integ m] f2(2) assms(3) by auto
  have "fill_label stk sec n integ m = Ret f4"
    using f2(1,2) f4(1) assms(1) by (simp add: fill_label_def wr_def LIST_WORDS_def)
  then show ?thesis using f2 f4 nm assms(1) by (auto simp: nth_list_update)
qed

lemma entries_taken:
  assumes "length a = 32" "n \<le> 31" "a ! 0 = of_nat n" "length xs = n" "\<forall>j < n. a ! Suc j = xs ! j"
  shows "wf_arr a \<and> entries a = xs"
proof -
  have "cnt a = n" using assms(1-3) by (cases a) (auto simp: cnt_def unat_of_nat take_bit_nat_eq_self)
  moreover have "take n (drop 1 a) = xs" using assms by (intro nth_equalityI) auto
  ultimately show ?thesis using assms(1,2) by (simp add: wf_arr_def sized_def entries_def arr_consts)
qed

lemma passed_label_fits:
  assumes "length stk = 64" "fits sec n" "fits integ m"
  shows "\<exists>f ul. fill_label stk sec n integ m = Ret f \<and> difc_copy_user_label True f = Some ul \<and> wf_label ul \<and>
    entries (secList ul) = (if n = 0 then [] else passed sec n) \<and> entries (intList ul) = (if m = 0 then [] else passed integ m)"
proof -
  obtain f where f: "fill_label stk sec n integ m = Ret f" "length f = 64" "f ! 0 = of_nat n" "f ! 32 = of_nat m"
    "\<forall>j < n. f ! Suc j = passed sec n ! j" "\<forall>j < m. f ! (33 + j) = passed integ m ! j"
    using fill_label_fits [OF assms] by blast
  have len: "length (if k = 0 then [] else passed a k) = k" if "fits a k" for a k
    using that by (auto simp: fits_def passed_def)
  have nm: "n \<le> 31" "m \<le> 31" using assms(2,3) by (simp_all add: fits_def arr_consts)
  have "wf_arr (take 32 f) \<and> entries (take 32 f) = (if n = 0 then [] else passed sec n)"
    by (rule entries_taken [where n = n]) (use f nm len [OF assms(2)] in auto)
  moreover have "wf_arr (take 32 (drop 32 f)) \<and> entries (take 32 (drop 32 f)) = (if m = 0 then [] else passed integ m)"
    by (rule entries_taken [where n = m]) (use f nm len [OF assms(3)] in auto)
  ultimately show ?thesis
    using f(1,2) by (auto simp: difc_copy_user_label_def LIST_WORDS_def wf_label_def)
qed

text \<open>C19: What the virtual machine passes is a well-formed label of the kernel. For sets of at most 31
  labels the structure is built within its bounds, the kernel copies it, both its lists have a
  count within their array, and their entries are the halves of the labels: the low half of the
  first label, its high half, the low half of the second, and so on, as many halves as there
  are labels.\<close>

theorem passed_label_wellformed:
  assumes "length stk = 64" "fits sec n" "fits integ m"
  shows "\<exists>f ul. fill_label stk sec n integ m = Ret f \<and> difc_copy_user_label True f = Some ul \<and> wf_label ul \<and>
    entries (secList ul) = (if n = 0 then [] else passed sec n) \<and> entries (intList ul) = (if m = 0 then [] else passed integ m)"
  by (rule passed_label_fits [OF assms])

section \<open>Passing the labels of a region\<close>

lemma set_task_same [simp]: "set_task (k_task k) k = k"
  by (simp add: set_task_def)

lemma pass_spec:
  assumes "security (k_task k) = Some ts" "wf_task ts" "k_alloc k" "length (k_stack k) = 64" "fits sec n" "fits integ m"
  shows "\<exists>ul. wf_label ul \<and> entries (secList ul) = (if n = 0 then [] else passed sec n) \<and>
    entries (intList ul) = (if m = 0 then [] else passed integ m) \<and>
    c_sysPassLabels sec n integ m k =
      (if may_replace (uid (k_task k)) ts (label ts) ul
       then (0, set_task ((k_task k)\<lparr>security := Some (ts\<lparr>label := ul\<rparr>)\<rparr>) (k\<lparr>k_errno := 0\<rparr>))
       else (- EPERM, k\<lparr>k_errno := EPERM\<rparr>))"
proof -
  obtain f ul where f: "fill_label (k_stack k) sec n integ m = Ret f" "difc_copy_user_label True f = Some ul" "wf_label ul"
    "entries (secList ul) = (if n = 0 then [] else passed sec n)" "entries (intList ul) = (if m = 0 then [] else passed integ m)"
    using fill_label_fits [OF assms(4-6)] passed_label_fits [OF assms(4-6)] by blast
  have "difc_set_task_label True (uid (k_task k)) 0 LABEL_OP_REPLACE 0 f (k_task k) =
      Ret (if may_replace (uid (k_task k)) ts (label ts) ul then ((k_task k)\<lparr>security := Some (ts\<lparr>label := ul\<rparr>)\<rparr>, 0)
           else (k_task k, - EPERM))"
    using f(2) assms(1) check_label_replace_spec [OF assms(2) wf_taskD(1) [OF assms(2)] f(3)]
    by (simp add: difc_set_task_label_def EPERM_def)
  then show ?thesis
    using f assms(3) set_task_same [of "k\<lparr>k_errno := 0\<rparr>"]
    by (intro exI [of _ ul])
      (simp add: c_sysPassLabels_def with_label_def k_run_def h_set_task_label_def neg_errno_def k_return_def EPERM_def)
qed

lemma pass_in_region:
  assumes "BOOT_COMPLETE v" "in_SR v"
  shows "OSpassCurrentLabels (kernel_sys mk cr) v =
    (case c_sysPassLabels (Some (arr (secrecySet (curState v)))) (len (secrecySet (curState v)))
            (Some (arr (integritySet (curState v)))) (len (integritySet (curState v))) (os v) of
       (err, k) \<Rightarrow> (err, if 0 \<le> err then upd_cur (RESTORE_LABELS_update (\<lambda>_. True)) (v\<lparr>os := k\<rparr>) else v\<lparr>os := k\<rparr>))"
  using assms by (simp add: OSpassCurrentLabels_def kernel_sys_def Let_def split: prod.split)

text \<open>A label below \<open>2^32\<close> has an empty high half, the name of the TCB label.\<close>

lemma high_half: "0 \<le> xs ! 0 \<Longrightarrow> xs ! 0 < 2 ^ 32 \<Longrightarrow> half xs 1 = 0"
  by (simp add: half_def)

lemma low_half: "0 \<le> xs ! 0 \<Longrightarrow> xs ! 0 < 2 ^ 31 \<Longrightarrow> (scast (half xs 0) :: u64) = word_of_int (xs ! 0)"
  by (simp add: half_def scast_eq sint_sbintrunc' signed_take_bit_int_eq_self)

text \<open>C20: A region with two secrecy labels is unknown to the kernel. When a thread that is not root
  runs in a region with two or more secrecy labels, passing the labels fails with \<open>-EPERM\<close>
  whatever its capabilities, because the second label to arrive is the high half of the first,
  the label of the TCB. The file operations do not look at the result: a write is carried out
  with the label the task had before.\<close>

theorem two_labels_never_arrive:
  fixes v :: "'s machine vm"
  assumes "BOOT_COMPLETE v" "in_SR v" "2 \<le> len (secrecySet (curState v))"
    "fits (Some (arr (secrecySet (curState v)))) (len (secrecySet (curState v)))"
    "fits (Some (arr (integritySet (curState v)))) (len (integritySet (curState v)))"
    "0 \<le> arr (secrecySet (curState v)) ! 0" "arr (secrecySet (curState v)) ! 0 < 2 ^ 32"
    "security (k_task (os v)) = Some ts" "wf_task ts" "uid (k_task (os v)) \<noteq> 0" "k_alloc (os v)"
    "length (k_stack (os v)) = 64" "3 \<le> fd"
  shows "OSpassCurrentLabels (kernel_sys mk cr) v = (- EPERM, v\<lparr>os := (os v)\<lparr>k_errno := EPERM\<rparr>\<rparr>) \<and>
    writeByte (kernel_sys mk cr) F nonblocking fd b v =
      writeByte_loop F fd b (patience F) (v\<lparr>os := (os v)\<lparr>k_errno := EPERM\<rparr>\<rparr>)"
proof -
  let ?sec = "secrecySet (curState v)"
  obtain ul where ul: "entries (secList ul) = passed (Some (arr ?sec)) (len ?sec)"
    "c_sysPassLabels (Some (arr ?sec)) (len ?sec) (Some (arr (integritySet (curState v)))) (len (integritySet (curState v))) (os v) =
      (if may_replace (uid (k_task (os v))) ts (label ts) ul
       then (0, set_task ((k_task (os v))\<lparr>security := Some (ts\<lparr>label := ul\<rparr>)\<rparr>) ((os v)\<lparr>k_errno := 0\<rparr>))
       else (- EPERM, (os v)\<lparr>k_errno := EPERM\<rparr>))"
    using pass_spec [OF assms(8,9,11,12,4,5)] assms(3) by auto
  have "(scast (half (arr ?sec) 1) :: u64) \<in> set (passed (Some (arr ?sec)) (len ?sec))"
    using assms(3) by (auto simp: passed_def intro!: image_eqI [of _ _ 1])
  then have "LABEL_TCB \<in> secs ul" using high_half [OF assms(6,7)] ul(1) by (simp add: secs_def LABEL_TCB_def)
  then have "\<not> may_replace (uid (k_task (os v))) ts (label ts) ul" using assms(10) by (auto simp: may_replace_def)
  then have p: "OSpassCurrentLabels (kernel_sys mk cr) v = (- EPERM, v\<lparr>os := (os v)\<lparr>k_errno := EPERM\<rparr>\<rparr>)"
    using pass_in_region [OF assms(1,2), of mk cr] ul(2) by (simp add: EPERM_def)
  then show ?thesis using assms(13) by (simp add: writeByte_def blockingWriteHack_def pass_labels_def)
qed

section \<open>Writing from a region\<close>

lemma vfs_write_refused:
  assumes "sys_ok S" "filps S fi = Some f" "\<not> i_flock (inodes S (f_inode f))" "\<not> may_access MAY_WRITE fi S"
  shows "\<exists>rv \<in> {- EBADF, - EINVAL, - EFAULT, - EPERM}. vfs_write env fi buf n pos S = Ret (rv, pos, S)"
proof (cases "f_op f")
  case (Some ops)
  have "rw_verify_area env False fi pos n S = Ret (- EINVAL) \<or> (\<exists>r \<ge> 0. rw_verify_area env False fi pos n S = Ret r)"
    using assms(2,3) by (auto simp: rw_verify_area_def get_file_def Let_def)
  then show ?thesis
    using assms(2,4) Some permission_hook_spec [OF assms(1,2), of MAY_WRITE]
    by (auto simp: vfs_write_def get_file_def errno_defs)
qed (use assms(2) in \<open>auto simp: vfs_write_def get_file_def\<close>)

lemma sys_write_refused:
  assumes "sys_ok S" "fd_table S fd = Some fi" "\<not> files_shared S" "filps S fi = Some f" "\<not> i_flock (inodes S (f_inode f))"
    "\<not> may_access MAY_WRITE fi S"
  shows "\<exists>rv \<in> {- EBADF, - EINVAL, - EFAULT, - EPERM}. sys_write env fd buf n S = Ret (rv, S)"
proof -
  have "put_file fi (f\<lparr>f_pos := f_pos f\<rparr>) S = S" using assms(4) by (simp add: put_file_def fun_upd_idem)
  then show ?thesis
    using vfs_write_refused [OF assms(1,4-6), of env buf n "f_pos f"] assms(2-4)
    by (auto simp: sys_write_def at_file_pos_def fget_light_def file_pos_read_def file_pos_write_def fput_light_def get_file_def)
qed

lemma sys_write_byte_refused:
  assumes "sys_ok (k_sys k)" "fd_table (k_sys k) fd = Some fi" "\<not> files_shared (k_sys k)" "filps (k_sys k) fi = Some f"
    "\<not> i_flock (inodes (k_sys k) (f_inode f))" "\<not> may_access MAY_WRITE fi (k_sys k)" "0 < k_again k"
  shows "\<exists>e. c_sysWriteByte fd b k = (-1, (store_byte b k)\<lparr>k_errno := e\<rparr>)"
proof -
  let ?k = "store_byte b k"
  have "\<exists>rv \<in> {- EBADF, - EINVAL, - EFAULT, - EPERM}. sys_write (k_env ?k) fd (k_char ?k) 1 (k_sys ?k) = Ret (rv, k_sys ?k)"
    by (rule sys_write_refused [where fi = fi and f = f])
      (use assms in \<open>auto simp: store_byte_def sys_ok_def may_access_def\<close>)
  then obtain e where "c_write fd (k_char ?k) 1 ?k = (-1, ?k\<lparr>k_errno := e\<rparr>)" "e \<noteq> EAGAIN" "e \<noteq> EINTR"
    by (fastforce simp: c_write_def k_run_def k_return_def errno_defs EINTR_def)
  moreover obtain n where "k_again k = Suc n" using assms(7) by (cases "k_again k") auto
  ultimately show ?thesis by (auto simp: c_sysWriteByte_def)
qed

text \<open>C17: A secret of a region does not leave through an open file. When the kernel accepts the labels
  of a region with one secrecy label, its task carries that label from then on, and writing a
  byte from the region to a file without the label fails: the call returns -1, and below the
  file operations nothing has changed but the local byte of the call.\<close>

theorem region_secret_stays:
  fixes v :: "'s machine vm"
  assumes "BOOT_COMPLETE v" "in_SR v" "arr (secrecySet (curState v)) = l # ls" "0 \<le> l" "l < 2 ^ 31"
    "fits (Some (arr (integritySet (curState v)))) (len (integritySet (curState v)))"
    "security (k_task (os v)) = Some ts" "wf_task ts" "k_alloc (os v)" "length (k_stack (os v)) = 64" "0 < k_again (os v)"
    "fst (OSpassCurrentLabels (kernel_sys mk cr) v) = 0"
    "sys_ok (k_sys (os v))" "\<not> files_shared (k_sys (os v))" "fd_table (k_sys (os v)) fd = Some fi" "3 \<le> fd"
    "filps (k_sys (os v)) fi = Some f" "\<not> i_flock (inodes (k_sys (os v)) (f_inode f))"
    "labels_of (k_sys (os v)) (f_inode f) = Some oss" "word_of_int l \<notin> secs (obj_label oss)" "0 < patience rest"
    "len (secrecySet (curState v)) = 1"
  shows "\<exists>ul v'. writeByte (kernel_sys mk cr) (kernel_files rest) nonblocking fd b v = (Done (-1), v') \<and>
    security (k_task (os v')) = Some (ts\<lparr>label := ul\<rparr>) \<and> secs ul = {word_of_int l} \<and>
    below_fop (k_sys (os v')) = k_store (os v) (word_of_int b) (below_fop (k_sys (os v))) \<and>
    labels_of (k_sys (os v')) = labels_of (k_sys (os v))"
proof -
  let ?k = "os v"
  let ?v = "\<lambda>k. upd_cur (RESTORE_LABELS_update (\<lambda>_. True)) (v\<lparr>os := k\<rparr>)"
  have n: "fits (Some (l # ls)) 1" by (simp add: fits_def arr_consts)
  obtain ul where ul: "wf_label ul" "entries (secList ul) = [scast (half (l # ls) 0)]"
    "c_sysPassLabels (Some (l # ls)) 1 (Some (arr (integritySet (curState v)))) (len (integritySet (curState v))) ?k =
      (if may_replace (uid (k_task ?k)) ts (label ts) ul
       then (0, set_task ((k_task ?k)\<lparr>security := Some (ts\<lparr>label := ul\<rparr>)\<rparr>) (?k\<lparr>k_errno := 0\<rparr>))
       else (- EPERM, ?k\<lparr>k_errno := EPERM\<rparr>))"
    using pass_spec [OF assms(7-10) n assms(6)] by (auto simp: passed_def)
  define k1 where "k1 = set_task ((k_task ?k)\<lparr>security := Some (ts\<lparr>label := ul\<rparr>)\<rparr>) (?k\<lparr>k_errno := 0\<rparr>)"
  have pass: "pass_labels (kernel_sys mk cr) v = ?v k1"
    using assms(3,12,22) ul(3) pass_in_region [OF assms(1,2), of mk cr]
    by (auto simp: pass_labels_def k1_def EPERM_def split: if_splits)
  have secs: "secs ul = {word_of_int l}" using ul(2) low_half [of "l # ls"] assms(4,5) by (simp add: secs_def)
  have "\<exists>e. c_sysWriteByte fd b k1 = (-1, (store_byte b k1)\<lparr>k_errno := e\<rparr>)"
    by (rule sys_write_byte_refused [where fi = fi and f = f])
      (use assms ul(1) secs in \<open>auto simp: k1_def set_task_def sys_ok_def may_access_def labels_of_def access_ok_def can_flow_def\<close>)
  then obtain e where e: "c_sysWriteByte fd b k1 = (-1, (store_byte b k1)\<lparr>k_errno := e\<rparr>)" ..
  obtain p where "patience rest = Suc p" using assms(21) by (cases "patience rest") auto
  then have "writeByte (kernel_sys mk cr) (kernel_files rest) nonblocking fd b v =
      (Done (-1), (?v k1)\<lparr>os := (store_byte b k1)\<lparr>k_errno := e\<rparr>\<rparr>)"
    using assms(16) e pass by (simp add: writeByte_def blockingWriteHack_def kernel_files_def on_os_def upd_cur_def upd_state_def)
  then show ?thesis using secs by (auto simp: k1_def set_task_def store_byte_def labels_of_def fun_eq_iff)
qed

section \<open>Examples\<close>

text \<open>A thread in a region over the system with two unlabelled files. The thread has both
  capabilities for label 5.\<close>

definition region_machine :: "unit machine" where
  "region_machine = \<lparr>k_sys = two_files, k_group = [], k_max = 6, k_alloc = True, k_seg = (\<lambda>_. True), k_env = plain_vfs,
     k_stack = replicate 64 0, k_errno = 0, k_char = 0, k_store = (\<lambda>_ s. s), k_load = (\<lambda>_. 0), k_again = 1, k_fault = None\<rparr>"

definition region_vm :: "int list \<Rightarrow> unit machine vm" where
  "region_vm labels = (boot_vm region_machine)\<lparr>thread := \<lparr>chain = [setState EMPTY EMPTY
     \<lparr>ident = 1, arr = labels, len = length labels\<rparr> EMPTY False None None], cur = 0, inSecureRegion = True\<rparr>\<rparr>"

definition quiet_files :: "unit machine fileCall" where
  "quiet_files = \<lparr>sysStat = (\<lambda>_ _ k. (0, k)), sysAccess = (\<lambda>_ _ k. (0, k)), sysReadByte = (\<lambda>_ k. (0, k)),
     sysWriteByte = (\<lambda>_ _ k. (0, k)), sysReadBytes = (\<lambda>_ _ _ k. (0, k)), sysWriteBytes = (\<lambda>_ _ _ k. (0, k)),
     sysSyncFile = (\<lambda>_ k. (0, k)), sysBytesAvailable = (\<lambda>_ k. (0, k)), sysNetSocketNoBlock = (\<lambda>_ _ k. (0, k)),
     sysSetFdCloseOnExec = (\<lambda>_ k. (0, k)), ioWaitRead = (\<lambda>_ k. (True, k)), ioWaitWrite = (\<lambda>_ k. (True, k)), patience = 1\<rparr>"

abbreviation quiet_sys :: "unit machine sysCall" where
  "quiet_sys \<equiv> kernel_sys (\<lambda>_ _ _ k. (0, k)) (\<lambda>_ _ _ k. (0, k))"

lemma region_machine_simps [simp]:
  "k_sys region_machine = two_files" "k_alloc region_machine" "length (k_stack region_machine) = 64"
  "k_again region_machine = 1" "k_env region_machine = plain_vfs" "k_char region_machine = 0"
  "k_store region_machine = (\<lambda>_ s. s)"
  by (simp_all add: region_machine_def)

lemma two_files_task: "security (cur_task two_files) = Some sample_task" "uid (cur_task two_files) = 1000"
  by (simp_all add: two_files_def sample_task_def)

lemma two_files_below [simp]: "two_files\<lparr>below_fop := d\<rparr> = two_files"
  by (simp add: two_files_def)

lemma region_vm_simps [simp]:
  "BOOT_COMPLETE (region_vm xs)" "in_SR (region_vm xs)" "os (region_vm xs) = region_machine"
  "arr (secrecySet (curState (region_vm xs))) = xs" "len (secrecySet (curState (region_vm xs))) = length xs"
  "arr (integritySet (curState (region_vm xs))) = []" "len (integritySet (curState (region_vm xs))) = 0"
  by (simp_all add: region_vm_def boot_vm_def init_def in_SR_def curState_def setState_def EMPTY_def)

theorem passed_label_wellformed_witness:
  "\<exists>f ul. fill_label (replicate 64 0) (Some [5, 6]) 2 (Some []) 0 = Ret f \<and> difc_copy_user_label True f = Some ul \<and>
     wf_label ul \<and> entries (secList ul) = [5, 0] \<and> entries (intList ul) = []"
  using passed_label_wellformed [of "replicate 64 0" "Some [5, 6]" 2 "Some []" 0]
  by (simp add: fits_def arr_consts passed_def half_def upt_rec numeral_2_eq_2)

text \<open>In a region with labels 5 and 6 a byte goes to an unlabelled file.\<close>

theorem two_labels_never_arrive_witness:
  "fst (OSpassCurrentLabels quiet_sys (region_vm [5, 6])) = - EPERM \<and>
   fst (writeByte quiet_sys (kernel_files quiet_files) [] 3 65 (region_vm [5, 6])) = Done 0"
proof -
  let ?v = "(region_vm [5, 6])\<lparr>os := region_machine\<lparr>k_errno := EPERM\<rparr>\<rparr>"
  have v: "rw_verify_area plain_vfs False 0 0 1 two_files = Ret 1"
    by (simp add: rw_verify_area_def get_file_def MAX_RW_COUNT_def Let_def)
  have "\<exists>S. sys_write plain_vfs 3 0 1 two_files = Ret (1, S)"
    using v permission_hook_spec [OF two_files_ok, of 0 "open_file 0" MAY_WRITE] two_files_access [of 0 MAY_WRITE]
      release_hook_spec [OF two_files_ok, of 0 "open_file 0" "()"]
    by (simp add: sys_write_def at_file_pos_def fget_light_def fput_light_def file_pos_read_def file_pos_write_def
        get_file_def vfs_write_def plain_ops_def user_range_ok_def)
  then have "fst (c_sysWriteByte 3 65 (region_machine\<lparr>k_errno := EPERM\<rparr>)) = 0"
    by (auto simp: c_sysWriteByte_def store_byte_def c_write_def k_run_def k_return_def)
  then have "fst (writeByte_loop (kernel_files quiet_files) 3 65 (patience (kernel_files quiet_files)) ?v) = Done 0"
    by (auto simp: kernel_files_def quiet_files_def on_os_def split: prod.split)
  then show ?thesis
    using two_labels_never_arrive [of "region_vm [5, 6]" sample_task 3 "\<lambda>_ _ _ k. (0, k)" "\<lambda>_ _ _ k. (0, k)"
        "kernel_files quiet_files" "[]" 65]
    by (simp add: fits_def arr_consts two_files_task)
qed

theorem region_secret_stays_witness:
  "\<exists>ul v'. writeByte quiet_sys (kernel_files quiet_files) [] 3 65 (region_vm [5]) = (Done (-1), v') \<and>
     security (k_task (os v')) = Some (sample_task\<lparr>label := ul\<rparr>) \<and> secs ul = {5} \<and>
     labels_of (k_sys (os v')) = labels_of two_files"
proof -
  obtain ul where ul: "entries (secList ul) = [5]" "entries (intList ul) = []"
    "c_sysPassLabels (Some [5]) 1 (Some []) 0 region_machine =
      (if may_replace 1000 sample_task (mk_label [] []) ul
       then (0, set_task ((cur_task two_files)\<lparr>security := Some (sample_task\<lparr>label := ul\<rparr>)\<rparr>) (region_machine\<lparr>k_errno := 0\<rparr>))
       else (- EPERM, region_machine\<lparr>k_errno := EPERM\<rparr>))"
    using pass_spec [of region_machine sample_task "Some [5]" 1 "Some []" 0]
    by (auto simp: two_files_task fits_def arr_consts passed_def half_def)
  have "has_cap sample_task 5 Plus" by (simp add: has_cap_def)
  then have "may_replace 1000 sample_task (mk_label [] []) ul"
    using ul(1,2) by (simp add: may_replace_def secs_def ints_def LABEL_TCB_def)
  then have p: "fst (OSpassCurrentLabels quiet_sys (region_vm [5])) = 0"
    using ul(3) pass_in_region [of "region_vm [5]" "\<lambda>_ _ _ k. (0, k)" "\<lambda>_ _ _ k. (0, k)"] by simp
  have q: "0 < patience quiet_files" by (simp add: quiet_files_def)
  show ?thesis
    using p q region_secret_stays [of "region_vm [5]" 5 "[]" sample_task "\<lambda>_ _ _ k. (0, k)" "\<lambda>_ _ _ k. (0, k)" 3 0
        "open_file 0" idle_obj quiet_files "[]" 65] two_files_ok
    by (simp add: fits_def arr_consts two_files_task idle_obj_def secs_def)
qed

end
