(* ===== verification/Pipe.thy ===== *)
theory Pipe
  imports Kernel_Prelude
begin

text \<open>
  Pipes, \<^verbatim>\<open>fs/pipe.c\<close> and \<^verbatim>\<open>include/linux/pipe_fs_i.h\<close>, with the changes Laminar made to
  them. A pipe is a ring of 16 page buffers. \<open>pipe_read\<close> and \<open>pipe_write\<close> run under the
  inode's mutex until they return or reach \<open>pipe_wait\<close>; the result says which, and a
  task that waits resumes the same loop later. The answers of the security hooks
  (\<open>security_pipe_full\<close>, \<open>security_inode_permission\<close>), pending signals and allocation
  results are arguments. Only the buffers \<open>pipe_write\<close> itself makes (\<open>anon_pipe_buf_ops\<close>)
  are in the ring: pages spliced in from files are not modelled, nor are wake-ups and
  file times.
\<close>

definition PIPE_BUFFERS :: nat where "PIPE_BUFFERS = 16"
definition PAGE_SIZE :: nat where "PAGE_SIZE = 4096"

lemmas pipe_consts = PIPE_BUFFERS_def PAGE_SIZE_def

section \<open>User memory\<close>

text \<open>
  A segment of a user buffer: its length and the bytes that can be accessed from its base
  on. A copy of \<open>n\<close> bytes from or to it faults when fewer are accessible.
\<close>

record iovec =
  iov_mem :: "u8 list"
  iov_len :: nat

definition iov_length :: "iovec list \<Rightarrow> nat" where
  "iov_length iov = sum_list (map iov_len iov)"

definition advance :: "nat \<Rightarrow> iovec \<Rightarrow> iovec" where
  "advance n v = \<lparr>iov_mem = drop n (iov_mem v), iov_len = iov_len v - n\<rparr>"

text \<open>
  The copy loops. \<open>atomic\<close> copies may also fail for a page that is not present:
  \<open>present k\<close> says whether the \<open>k\<close>-th atomic chunk succeeds. The result has the bytes copied,
  the segments as they are left, and the error. The search for a nonempty segment is not
  bounded by the number of segments: past the last one it runs out of the array.
\<close>

fun pipe_iov_copy_from_user ::
  "(nat \<Rightarrow> bool) \<Rightarrow> bool \<Rightarrow> nat \<Rightarrow> iovec list \<Rightarrow> nat \<Rightarrow> (u8 list \<times> iovec list \<times> errno) outcome" where
  "pipe_iov_copy_from_user present atomic k iov len =
     (if len = 0 then Ret ([], iov, 0)
      else case iov of
        [] \<Rightarrow> Oops OutOfBounds
      | v # vs \<Rightarrow>
          if iov_len v = 0 then
            bindO (pipe_iov_copy_from_user present atomic k vs len) (\<lambda>(bs, vs', e). Ret (bs, v # vs', e))
          else let copy = min len (iov_len v) in
            if (atomic \<and> \<not> present k) \<or> length (iov_mem v) < copy then Ret ([], iov, - EFAULT)
            else bindO (pipe_iov_copy_from_user present atomic (Suc k) (advance copy v # vs) (len - copy))
              (\<lambda>(bs, vs', e). Ret (take copy (iov_mem v) @ bs, vs', e)))"

declare pipe_iov_copy_from_user.simps [simp del]

fun pipe_iov_copy_to_user ::
  "(nat \<Rightarrow> bool) \<Rightarrow> bool \<Rightarrow> nat \<Rightarrow> iovec list \<Rightarrow> u8 list \<Rightarrow> (u8 list \<times> iovec list \<times> errno) outcome" where
  "pipe_iov_copy_to_user present atomic k iov from =
     (if from = [] then Ret ([], iov, 0)
      else case iov of
        [] \<Rightarrow> Oops OutOfBounds
      | v # vs \<Rightarrow>
          if iov_len v = 0 then
            bindO (pipe_iov_copy_to_user present atomic k vs from) (\<lambda>(bs, vs', e). Ret (bs, v # vs', e))
          else let copy = min (length from) (iov_len v) in
            if (atomic \<and> \<not> present k) \<or> length (iov_mem v) < copy then Ret ([], iov, - EFAULT)
            else bindO (pipe_iov_copy_to_user present atomic (Suc k) (advance copy v # vs) (drop copy from))
              (\<lambda>(bs, vs', e). Ret (take copy from @ bs, vs', e)))"

declare pipe_iov_copy_to_user.simps [simp del]

text \<open>
  The prefault loops. The writing one counts down the bytes and its result is how many were
  not faulted in; \<open>wr_ok\<close> says for each segment whether its pages could be. The reading one
  only touches memory.
\<close>

fun prefault :: "(iovec \<Rightarrow> nat \<Rightarrow> bool) \<Rightarrow> iovec list \<Rightarrow> nat \<Rightarrow> nat outcome" where
  "prefault wr_ok iov len =
     (if len = 0 then Ret 0
      else case iov of
        [] \<Rightarrow> Oops OutOfBounds
      | v # vs \<Rightarrow>
          let this_len = min len (iov_len v) in
          if \<not> wr_ok v this_len then Ret len else prefault wr_ok vs (len - this_len))"

declare prefault.simps [simp del]

definition iov_fault_in_pages_write :: "(iovec \<Rightarrow> nat \<Rightarrow> bool) \<Rightarrow> iovec list \<Rightarrow> nat \<Rightarrow> nat outcome" where
  "iov_fault_in_pages_write wr_ok iov len = prefault wr_ok (dropWhile (\<lambda>v. iov_len v = 0) iov) len"

definition iov_fault_in_pages_read :: "iovec list \<Rightarrow> nat \<Rightarrow> unit outcome" where
  "iov_fault_in_pages_read iov len =
     bindO (prefault (\<lambda>_ _. True) (dropWhile (\<lambda>v. iov_len v = 0) iov) len) (\<lambda>_. Ret ())"

section \<open>Pages and buffers\<close>

record page =
  pdata :: "u8 list"
  page_count :: nat

record pipe_buffer =
  buf_page :: page
  offset :: nat
  len :: nat
  ops :: bool

record pipe_inode_info =
  nrbufs :: nat
  curbuf :: nat
  tmp_page :: "page option"
  readers :: u32
  writers :: u32
  real_readers :: u32
  real_writers :: u32
  waiting_writers :: u32
  r_counter :: u32
  w_counter :: u32
  bufs :: "pipe_buffer list"

definition ring :: "nat \<Rightarrow> nat" where
  "ring i = (i AND (PIPE_BUFFERS - 1))"

definition anon_pipe_buf_release :: "pipe_buffer \<Rightarrow> pipe_inode_info \<Rightarrow> pipe_inode_info" where
  "anon_pipe_buf_release buf pipe =
     (if page_count (buf_page buf) = 1 \<and> tmp_page pipe = None then pipe\<lparr>tmp_page := Some (buf_page buf)\<rparr>
      else pipe)"

definition generic_pipe_buf_pin :: "pipe_inode_info \<Rightarrow> pipe_buffer \<Rightarrow> errno" where
  "generic_pipe_buf_pin pipe buf = 0"

definition generic_pipe_buf_get :: "pipe_buffer \<Rightarrow> pipe_buffer" where
  "generic_pipe_buf_get buf = buf\<lparr>buf_page := (buf_page buf)\<lparr>page_count := page_count (buf_page buf) + 1\<rparr>\<rparr>"

definition generic_pipe_buf_steal :: "pipe_buffer \<Rightarrow> int" where
  "generic_pipe_buf_steal buf = (if page_count (buf_page buf) = 1 then 0 else 1)"

definition poke :: "page \<Rightarrow> nat \<Rightarrow> u8 list \<Rightarrow> page" where
  "poke p off bs = p\<lparr>pdata := take off (pdata p) @ bs @ drop (off + length bs) (pdata p)\<rparr>"

definition get_buf :: "pipe_inode_info \<Rightarrow> nat \<Rightarrow> pipe_buffer outcome" where
  "get_buf pipe i = (if i < length (bufs pipe) then Ret (bufs pipe ! i) else Oops OutOfBounds)"

text \<open>The bytes of a buffer from its offset on, as a copy reads them.\<close>

definition peek :: "pipe_buffer \<Rightarrow> nat \<Rightarrow> u8 list" where
  "peek buf n = take n (drop (offset buf) (pdata (buf_page buf)))"

section \<open>Reading\<close>

text \<open>
  What a call meets on its way: in loop round \<open>i\<close> the atomic chunk \<open>k\<close> succeeds if
  \<open>present i k\<close>, and an allocated page is \<open>new_page i\<close>.
\<close>

record pipe_env =
  present :: "nat \<Rightarrow> nat \<Rightarrow> bool"
  wr_ok :: "iovec \<Rightarrow> nat \<Rightarrow> bool"
  new_page :: "nat \<Rightarrow> page option"
  pipe_full :: int
  nonblock :: bool
  sig_pending :: bool

datatype pipe_stat = Returned | Waiting

text \<open>The atomic copy and the retry with the segments as the failed attempt left them.\<close>

definition copy_out :: "(nat \<Rightarrow> bool) \<Rightarrow> bool \<Rightarrow> iovec list \<Rightarrow> u8 list \<Rightarrow> (u8 list \<times> iovec list \<times> errno) outcome" where
  "copy_out pres atomic iov from =
     bindO (pipe_iov_copy_to_user pres atomic 0 iov from) (\<lambda>(bs, iov', e).
     if e \<noteq> 0 \<and> atomic then
       bindO (pipe_iov_copy_to_user pres False 0 iov' from) (\<lambda>(bs2, iov2, e2). Ret (bs @ bs2, iov2, e2))
     else Ret (bs, iov', e))"

text \<open>What \<open>pipe_read\<close> does once the ring is empty: the return value, or \<open>None\<close> to wait.\<close>

definition read_drained :: "pipe_env \<Rightarrow> pipe_inode_info \<Rightarrow> int \<Rightarrow> int option" where
  "read_drained env pipe ret =
     (if writers pipe = 0 then Some ret
      else if waiting_writers pipe = 0 \<and> ret \<noteq> 0 then Some ret
      else if waiting_writers pipe = 0 \<and> nonblock env then Some (- EAGAIN)
      else if sig_pending env then Some (if ret = 0 then - ERESTARTSYS else ret)
      else None)"

text \<open>
  The loop of \<open>pipe_read\<close>. The result: the pipe, the segments, the bytes delivered to the
  user so far, the bytes still wanted, the return value and whether the call returned.
\<close>

type_synonym read_result = "pipe_inode_info \<times> iovec list \<times> u8 list \<times> nat \<times> int \<times> pipe_stat"

definition read_end :: "pipe_env \<Rightarrow> pipe_inode_info \<Rightarrow> iovec list \<Rightarrow> u8 list \<Rightarrow> nat \<Rightarrow> int \<Rightarrow> read_result" where
  "read_end env pipe iov out tot ret =
     (case read_drained env pipe ret of
        Some r \<Rightarrow> (pipe, iov, out, tot, r, Returned)
      | None \<Rightarrow> (pipe, iov, out, tot, ret, Waiting))"

function pipe_read_loop ::
  "pipe_env \<Rightarrow> nat \<Rightarrow> pipe_inode_info \<Rightarrow> iovec list \<Rightarrow> u8 list \<Rightarrow> nat \<Rightarrow> int \<Rightarrow> read_result outcome" where
  "pipe_read_loop env i pipe iov out tot ret =
     (if nrbufs pipe = 0 then Ret (read_end env pipe iov out tot ret)
      else bindO (get_buf pipe (curbuf pipe)) (\<lambda>buf.
        let chars = min (len buf) tot in
        if generic_pipe_buf_pin pipe buf \<noteq> 0 then Ret (pipe, iov, out, tot, ret, Returned)
        else bindO (iov_fault_in_pages_write (wr_ok env) iov chars) (\<lambda>left.
        bindO (copy_out (present env i) (left = 0) iov (peek buf chars)) (\<lambda>(bs, iov', e).
        if e \<noteq> 0 then Ret (pipe, iov', out @ bs, tot, if ret = 0 then e else ret, Returned)
        else let ret' = ret + int chars;
                 buf' = buf\<lparr>offset := offset buf + chars, len := len buf - chars\<rparr>;
                 pipe1 = pipe\<lparr>bufs := (bufs pipe)[curbuf pipe := buf'\<lparr>ops := (len buf' \<noteq> 0 \<and> ops buf')\<rparr>]\<rparr>;
                 pipe2 = (if len buf' = 0
                          then (anon_pipe_buf_release buf' pipe1)
                                 \<lparr>curbuf := ring (curbuf pipe + 1), nrbufs := nrbufs pipe - 1\<rparr>
                          else pipe1);
                 tot' = tot - chars in
          if tot' = 0 then Ret (pipe2, iov', out @ bs, 0, ret', Returned)
          else if nrbufs pipe2 \<noteq> 0 then pipe_read_loop env (Suc i) pipe2 iov' (out @ bs) tot' ret'
          else Ret (read_end env pipe2 iov' (out @ bs) tot' ret')))))"
  by pat_completeness auto
termination
  by (relation "measure (\<lambda>(env, i, pipe, iov, out, tot, ret). nrbufs pipe)") (auto simp: min_def split: if_splits)

declare pipe_read_loop.simps [simp del]

definition pipe_read :: "pipe_env \<Rightarrow> pipe_inode_info \<Rightarrow> iovec list \<Rightarrow> read_result outcome" where
  "pipe_read env pipe iov =
     (let total_len = iov_length iov in
      if total_len = 0 then Ret (pipe, iov, [], 0, 0, Returned)
      else pipe_read_loop env 0 pipe iov [] total_len 0)"

section \<open>Writing\<close>

text \<open>The bytes a retried copy leaves in the page are those of the last attempt.\<close>

definition copy_in :: "(nat \<Rightarrow> bool) \<Rightarrow> iovec list \<Rightarrow> nat \<Rightarrow> (u8 list \<times> iovec list \<times> errno) outcome" where
  "copy_in pres iov n =
     bindO (iov_fault_in_pages_read iov n) (\<lambda>_.
     bindO (pipe_iov_copy_from_user pres True 0 iov n) (\<lambda>(bs, iov', e).
     if e \<noteq> 0 then pipe_iov_copy_from_user pres False 0 iov' n else Ret (bs, iov', e)))"

type_synonym write_result = "pipe_inode_info \<times> iovec list \<times> nat \<times> int \<times> pipe_stat"

text \<open>What the loop does when no buffer is free.\<close>

definition write_full :: "pipe_env \<Rightarrow> pipe_inode_info \<Rightarrow> iovec list \<Rightarrow> nat \<Rightarrow> nat \<Rightarrow> int \<Rightarrow> write_result" where
  "write_full env pipe iov tot saved ret =
     (if pipe_full env \<noteq> 0 then (pipe, iov, tot, int saved, Returned)
      else if nonblock env then (pipe, iov, tot, if ret = 0 then - EAGAIN else ret, Returned)
      else if sig_pending env then (pipe, iov, tot, if ret = 0 then - ERESTARTSYS else ret, Returned)
      else (pipe\<lparr>waiting_writers := waiting_writers pipe + 1\<rparr>, iov, tot, ret, Waiting))"

function pipe_write_loop ::
  "pipe_env \<Rightarrow> nat \<Rightarrow> pipe_inode_info \<Rightarrow> iovec list \<Rightarrow> nat \<Rightarrow> nat \<Rightarrow> int \<Rightarrow> write_result outcome" where
  "pipe_write_loop env i pipe iov tot saved ret =
     (if readers pipe = 0 then Ret (pipe, iov, tot, if ret = 0 then - EPIPE else ret, Returned)
      else if nrbufs pipe < PIPE_BUFFERS then
        let newbuf = ring (curbuf pipe + nrbufs pipe) in
        case (case tmp_page pipe of Some pg \<Rightarrow> Some pg | None \<Rightarrow> new_page env i) of
          None \<Rightarrow> Ret (pipe, iov, tot, if ret = 0 then - ENOMEM else ret, Returned)
        | Some pg \<Rightarrow>
            let pipe0 = pipe\<lparr>tmp_page := Some pg\<rparr>; chars = min PAGE_SIZE tot in
            bindO (copy_in (present env i) iov chars) (\<lambda>(bs, iov', e).
            if e \<noteq> 0 then Ret (pipe0, iov', tot, if ret = 0 then e else ret, Returned)
            else bindO (get_buf pipe0 newbuf) (\<lambda>_.
              let pipe1 = pipe0\<lparr>bufs := (bufs pipe0)[newbuf := \<lparr>buf_page = poke pg 0 bs, offset = 0, len = chars, ops = True\<rparr>],
                                 nrbufs := nrbufs pipe + 1, tmp_page := None\<rparr>;
                  ret' = ret + int chars; tot' = tot - chars in
              if tot' = 0 then Ret (pipe1, iov', 0, ret', Returned)
              else if nrbufs pipe1 < PIPE_BUFFERS then pipe_write_loop env (Suc i) pipe1 iov' tot' saved ret'
              else Ret (write_full env pipe1 iov' tot' saved ret')))
      else Ret (write_full env pipe iov tot saved ret))"
  by pat_completeness auto
termination
  by (relation "measure (\<lambda>(env, i, pipe, iov, tot, saved, ret). PIPE_BUFFERS - nrbufs pipe)") auto

declare pipe_write_loop.simps [simp del]

text \<open>
  The attempt to append the odd bytes of the write to the last buffer. The last component says
  whether the function ends here (\<open>goto out\<close>).
\<close>

definition write_merge ::
  "pipe_env \<Rightarrow> pipe_inode_info \<Rightarrow> iovec list \<Rightarrow> nat \<Rightarrow> (pipe_inode_info \<times> iovec list \<times> nat \<times> int \<times> bool) outcome" where
  "write_merge env pipe iov tot =
     (let chars = (tot AND (PAGE_SIZE - 1)) in
      if nrbufs pipe \<noteq> 0 \<and> chars \<noteq> 0 then
        let lastbuf = ring (curbuf pipe + nrbufs pipe - 1) in
        bindO (get_buf pipe lastbuf) (\<lambda>buf.
        let off = offset buf + len buf in
        if off + chars \<le> PAGE_SIZE then
          if generic_pipe_buf_pin pipe buf \<noteq> 0 then Ret (pipe, iov, tot, 0, True)
          else bindO (copy_in (present env 0) iov chars) (\<lambda>(bs, iov', e).
            if e \<noteq> 0 then Ret (pipe, iov', tot, e, True)
            else let buf' = buf\<lparr>buf_page := poke (buf_page buf) off bs, len := len buf + chars\<rparr>;
                     pipe' = pipe\<lparr>bufs := (bufs pipe)[lastbuf := buf']\<rparr> in
              Ret (pipe', iov', tot - chars, int chars, tot - chars = 0))
        else Ret (pipe, iov, tot, 0, False))
      else Ret (pipe, iov, tot, 0, False))"

definition pipe_write :: "pipe_env \<Rightarrow> pipe_inode_info \<Rightarrow> iovec list \<Rightarrow> write_result outcome" where
  "pipe_write env pipe iov =
     (let total_len = iov_length iov in
      if total_len = 0 then Ret (pipe, iov, 0, 0, Returned)
      else if readers pipe = 0 then Ret (pipe, iov, total_len, - EPIPE, Returned)
      else bindO (write_merge env pipe iov total_len) (\<lambda>(pipe1, iov1, total1, ret1, out).
        if out then Ret (pipe1, iov1, total1, ret1, Returned)
        else pipe_write_loop env 1 pipe1 iov1 total1 total_len ret1))"

text \<open>A writer that was waiting and has been woken.\<close>

definition pipe_write_resume ::
  "pipe_env \<Rightarrow> pipe_inode_info \<Rightarrow> iovec list \<Rightarrow> nat \<Rightarrow> nat \<Rightarrow> int \<Rightarrow> write_result outcome" where
  "pipe_write_resume env pipe iov tot saved ret =
     pipe_write_loop env 1 (pipe\<lparr>waiting_writers := waiting_writers pipe - 1\<rparr>) iov tot saved ret"

section \<open>Queries, opening and releasing\<close>

primrec fionread_loop :: "pipe_inode_info \<Rightarrow> nat \<Rightarrow> nat \<Rightarrow> nat outcome" where
  "fionread_loop pipe buf 0 = Ret 0"
| "fionread_loop pipe buf (Suc n) =
     bindO (get_buf pipe buf) (\<lambda>b. bindO (fionread_loop pipe (ring (buf + 1)) n) (\<lambda>c. Ret (len b + c)))"

definition pipe_ioctl_fionread :: "pipe_inode_info \<Rightarrow> nat outcome" where
  "pipe_ioctl_fionread pipe = fionread_loop pipe (curbuf pipe) (nrbufs pipe)"

definition FIONREAD :: u32 where "FIONREAD = 0x541B"

definition pipe_ioctl :: "bool \<Rightarrow> u32 \<Rightarrow> pipe_inode_info \<Rightarrow> (nat option \<times> errno) outcome" where
  "pipe_ioctl put_ok cmd pipe =
     (if cmd = FIONREAD then
        bindO (pipe_ioctl_fionread pipe) (\<lambda>c. Ret (if put_ok then (Some c, 0) else (None, - EFAULT)))
      else Ret (None, - EINVAL))"

definition POLLIN :: u32 where "POLLIN = 0x1"
definition POLLOUT :: u32 where "POLLOUT = 0x4"
definition POLLERR :: u32 where "POLLERR = 0x8"
definition POLLHUP :: u32 where "POLLHUP = 0x10"
definition POLLRDNORM :: u32 where "POLLRDNORM = 0x40"
definition POLLWRNORM :: u32 where "POLLWRNORM = 0x100"

definition pipe_poll :: "u32 \<Rightarrow> u32 \<Rightarrow> pipe_inode_info \<Rightarrow> u32" where
  "pipe_poll f_mode f_version pipe =
     (let m1 = (if f_mode AND FMODE_READ \<noteq> 0 then
                  (if nrbufs pipe > 0 then POLLIN OR POLLRDNORM else 0) OR
                  (if writers pipe = 0 \<and> f_version \<noteq> w_counter pipe then POLLHUP else 0)
                else 0) in
      if f_mode AND FMODE_WRITE \<noteq> 0 then
        m1 OR (if nrbufs pipe < PIPE_BUFFERS then POLLOUT OR POLLWRNORM else 0)
           OR (if readers pipe = 0 then POLLERR else 0)
      else m1)"

text \<open>
  \<open>pipe_release\<close>: \<open>perm\<close> is the answer of \<open>security_inode_permission(inode, MAY_WRITE)\<close>.
  \<open>None\<close> is the freed pipe.
\<close>

definition pipe_release :: "errno \<Rightarrow> u32 \<Rightarrow> u32 \<Rightarrow> pipe_inode_info \<Rightarrow> pipe_inode_info option" where
  "pipe_release perm decr decw pipe =
     (let pipe1 = (if 0 = perm then pipe\<lparr>readers := readers pipe - decr, writers := writers pipe - decw\<rparr> else pipe);
          pipe2 = pipe1\<lparr>real_readers := real_readers pipe1 - decr, real_writers := real_writers pipe1 - decw\<rparr> in
      if real_readers pipe2 = 0 \<and> real_writers pipe2 = 0 then None else Some pipe2)"

definition pipe_read_release :: "errno \<Rightarrow> pipe_inode_info \<Rightarrow> pipe_inode_info option" where
  "pipe_read_release perm pipe = pipe_release perm 1 0 pipe"

definition pipe_write_release :: "errno \<Rightarrow> pipe_inode_info \<Rightarrow> pipe_inode_info option" where
  "pipe_write_release perm pipe = pipe_release perm 0 1 pipe"

definition pipe_rdwr_release :: "errno \<Rightarrow> u32 \<Rightarrow> pipe_inode_info \<Rightarrow> pipe_inode_info option" where
  "pipe_rdwr_release perm f_mode pipe =
     pipe_release perm (if f_mode AND FMODE_READ \<noteq> 0 then 1 else 0) (if f_mode AND FMODE_WRITE \<noteq> 0 then 1 else 0) pipe"

definition pipe_read_open :: "pipe_inode_info \<Rightarrow> pipe_inode_info" where
  "pipe_read_open pipe = pipe\<lparr>readers := readers pipe + 1, real_readers := real_readers pipe + 1\<rparr>"

definition pipe_write_open :: "pipe_inode_info \<Rightarrow> pipe_inode_info" where
  "pipe_write_open pipe = pipe\<lparr>writers := writers pipe + 1, real_writers := real_writers pipe + 1\<rparr>"

definition pipe_rdwr_open :: "u32 \<Rightarrow> pipe_inode_info \<Rightarrow> pipe_inode_info" where
  "pipe_rdwr_open f_mode pipe =
     (let p1 = (if f_mode AND FMODE_READ \<noteq> 0 then pipe_read_open pipe else pipe) in
      if f_mode AND FMODE_WRITE \<noteq> 0 then pipe_write_open p1 else p1)"

text \<open>\<open>kzalloc\<close> leaves null buffers; the wait queue is not modelled.\<close>

definition zero_page :: page where
  "zero_page = \<lparr>pdata = [], page_count = 0\<rparr>"

definition alloc_pipe_info :: "bool \<Rightarrow> pipe_inode_info option" where
  "alloc_pipe_info ok =
     (if ok then Some \<lparr>nrbufs = 0, curbuf = 0, tmp_page = None, readers = 0, writers = 0, real_readers = 0,
        real_writers = 0, waiting_writers = 0, r_counter = 1, w_counter = 1,
        bufs = replicate PIPE_BUFFERS \<lparr>buf_page = zero_page, offset = 0, len = 0, ops = False\<rparr>\<rparr>
      else None)"

definition get_pipe_inode :: "bool \<Rightarrow> bool \<Rightarrow> pipe_inode_info option" where
  "get_pipe_inode inode_ok pipe_ok =
     (if \<not> inode_ok then None
      else map_option (\<lambda>p. p\<lparr>real_readers := 1, real_writers := 1, readers := 1, writers := 1\<rparr>) (alloc_pipe_info pipe_ok))"

section \<open>Creating a pipe\<close>

text \<open>
  The kernel objects \<open>do_pipe\<close> acquires, to follow them through its error paths. The
  arguments are the results of the calls it makes, in order: the copied label, the two
  files, the inode and its pipe, the label hook, the dentry, the two descriptors and the
  audit call.
\<close>

datatype pipe_obj = WriteFile | PipeInode | ReadFile | ReadFd | WriteFd | LabelBuf

record pipe_calls =
  lbl_buf :: bool
  filp_w :: bool
  inode_new :: bool
  pipe_new :: bool
  init_sec :: errno
  dentry_new :: bool
  filp_r :: bool
  fd_r :: int
  fd_w :: int
  audit :: errno

definition create_write_pipe :: "pipe_calls \<Rightarrow> pipe_obj list \<times> errno" where
  "create_write_pipe c =
     (if \<not> filp_w c then ([], - ENFILE)
      else if get_pipe_inode (inode_new c) (pipe_new c) = None then ([], - ENFILE)
      else if init_sec c < 0 \<and> init_sec c \<noteq> - EOPNOTSUPP then ([], init_sec c)
      else if \<not> dentry_new c then ([], - ENOMEM)
      else ([WriteFile, PipeInode], 0))"

definition create_read_pipe :: "pipe_calls \<Rightarrow> pipe_obj list \<times> errno" where
  "create_read_pipe c = (if filp_r c then ([ReadFile], 0) else ([], - ENFILE))"

definition free_write_pipe :: "pipe_obj list \<Rightarrow> pipe_obj list" where
  "free_write_pipe objs = filter (\<lambda>x. x \<noteq> WriteFile \<and> x \<noteq> PipeInode) objs"

definition free_label :: "pipe_obj list \<Rightarrow> pipe_obj list" where
  "free_label objs = filter (\<lambda>x. x \<noteq> LabelBuf) objs"

definition do_pipe :: "pipe_calls \<Rightarrow> pipe_obj list \<times> (int \<times> int) option \<times> errno" where
  "do_pipe c =
     (let lbl = (if lbl_buf c then [LabelBuf] else []); (w, e1) = create_write_pipe c in
      if e1 < 0 then (lbl @ w, None, e1)
      else let (r, e2) = create_read_pipe c in
      if e2 < 0 then (free_label (free_write_pipe (lbl @ w)), None, e2)
      else let undo_read = (\<lambda>os. free_label (free_write_pipe (filter (\<lambda>x. x \<noteq> ReadFile) os))) in
      if fd_r c < 0 then (undo_read (lbl @ w @ r), None, fd_r c)
      else let undo_fdr = (\<lambda>os. undo_read (filter (\<lambda>x. x \<noteq> ReadFd) os)) in
      if fd_w c < 0 then (undo_fdr (lbl @ w @ r @ [ReadFd]), None, fd_w c)
      else if audit c < 0 then
        (undo_fdr (filter (\<lambda>x. x \<noteq> WriteFd) (lbl @ w @ r @ [ReadFd, WriteFd])), None, audit c)
      else (free_label (lbl @ w @ r @ [ReadFd, WriteFd]), Some (fd_r c, fd_w c), 0))"

definition sys_laminar_pipe :: "bool \<Rightarrow> pipe_calls \<Rightarrow> pipe_obj list \<times> (int \<times> int) option \<times> errno" where
  "sys_laminar_pipe copy_ok c =
     (let (os, fds, e) = do_pipe c in if e = 0 \<and> \<not> copy_ok then (os, None, - EFAULT) else (os, fds, e))"

end
