(* ===== verification/Pipe_Props.thy ===== *)
theory Pipe_Props
  imports Pipe
begin

text \<open>
  Pipes as byte queues: the ring of page buffers of \<^verbatim>\<open>fs/pipe.c\<close> stands for the
  concatenation of its live buffers; reads take a prefix off it and writes append to it.
\<close>

section \<open>Copies between user memory and the kernel\<close>

definition iov_ok :: "iovec list \<Rightarrow> bool" where
  "iov_ok iov \<longleftrightarrow> (\<forall>v \<in> set iov. iov_len v \<le> length (iov_mem v))"

definition iov_bytes :: "iovec list \<Rightarrow> u8 list" where
  "iov_bytes iov = concat (map (\<lambda>v. take (iov_len v) (iov_mem v)) iov)"

lemma iov_simps [simp]:
  "iov_ok []" "iov_ok (v # vs) \<longleftrightarrow> iov_len v \<le> length (iov_mem v) \<and> iov_ok vs"
  "iov_bytes [] = []" "iov_bytes (v # vs) = take (iov_len v) (iov_mem v) @ iov_bytes vs"
  "iov_length [] = 0" "iov_length (v # vs) = iov_len v + iov_length vs"
  by (auto simp: iov_ok_def iov_bytes_def iov_length_def)

lemma length_iov_bytes [simp]: "iov_ok iov \<Longrightarrow> length (iov_bytes iov) = iov_length iov"
  by (induction iov) auto

lemma advance_simps [simp]:
  "iov_len (advance n v) = iov_len v - n" "iov_mem (advance n v) = drop n (iov_mem v)"
  by (simp_all add: advance_def)

lemma iov_bytes_advance:
  "m \<le> iov_len v \<Longrightarrow> iov_bytes (v # vs) = take m (iov_mem v) @ iov_bytes (advance m v # vs)"
  by (simp add: take_add [symmetric])

text \<open>Either every atomic chunk of a copy succeeds or already the first one fails.\<close>

definition clean :: "(nat \<Rightarrow> bool) \<Rightarrow> bool" where
  "clean pres \<longleftrightarrow> (\<forall>k. pres k) \<or> \<not> pres 0"

lemma copy_from_ok:
  assumes "iov_ok iov" and "n \<le> iov_length iov" and "atomic \<longrightarrow> (\<forall>j. pres j)"
  shows "\<exists>iov'. pipe_iov_copy_from_user pres atomic k iov n = Ret (take n (iov_bytes iov), iov', 0)
    \<and> iov_ok iov' \<and> iov_bytes iov' = drop n (iov_bytes iov)"
  using assms
proof (induction pres atomic k iov n rule: pipe_iov_copy_from_user.induct)
  case (1 pres atomic k iov n)
  show ?case
  proof (cases "n = 0")
    case True
    with 1(3) show ?thesis by (subst pipe_iov_copy_from_user.simps) simp
  next
    case n: False
    then obtain v vs where iov: "iov = v # vs" using 1(4) by (cases iov) auto
    show ?thesis
    proof (cases "iov_len v = 0")
      case True
      with 1(1) [OF n iov] 1(3-5) n iov show ?thesis
        by (subst pipe_iov_copy_from_user.simps) auto
    next
      case False
      define m where "m = min n (iov_len v)"
      have m: "m \<le> n" "m \<le> iov_len v" "m \<le> length (iov_mem v)" using 1(3) iov by (auto simp: m_def)
      have pre: "iov_ok (advance m v # vs)" "n - m \<le> iov_length (advance m v # vs)"
        using 1(3,4) iov m by (auto simp: m_def)
      have go: "\<not> (atomic \<and> \<not> pres k \<or> length (iov_mem v) < m)" using 1(5) m(3) by auto
      from 1(2) [OF n iov False m_def go pre 1(5)] obtain iov' where
        r: "pipe_iov_copy_from_user pres atomic (Suc k) (advance m v # vs) (n - m)
            = Ret (take (n - m) (iov_bytes (advance m v # vs)), iov', 0)" "iov_ok iov'"
          "iov_bytes iov' = drop (n - m) (iov_bytes (advance m v # vs))"
        by blast
      have b: "iov_bytes iov = take m (iov_mem v) @ iov_bytes (advance m v # vs)"
        unfolding iov by (rule iov_bytes_advance) (rule m)
      have "pipe_iov_copy_from_user pres atomic k iov n
          = Ret (take m (iov_mem v) @ take (n - m) (iov_bytes (advance m v # vs)), iov', 0)"
        using n False iov
        by (subst pipe_iov_copy_from_user.simps) (simp add: Let_def go r(1) flip: m_def del: iov_simps)
      moreover have "take n (iov_bytes iov) = take m (iov_mem v) @ take (n - m) (iov_bytes (advance m v # vs))"
        and "drop n (iov_bytes iov) = drop (n - m) (iov_bytes (advance m v # vs))"
        unfolding b using m by (simp_all del: iov_simps)
      ultimately show ?thesis using r(2,3) by simp
    qed
  qed
qed

lemma copy_to_ok:
  assumes "iov_ok iov" and "length bs \<le> iov_length iov" and "atomic \<longrightarrow> (\<forall>j. pres j)"
  shows "\<exists>iov'. pipe_iov_copy_to_user pres atomic k iov bs = Ret (bs, iov', 0)
    \<and> iov_ok iov' \<and> iov_length iov' = iov_length iov - length bs"
  using assms
proof (induction pres atomic k iov bs rule: pipe_iov_copy_to_user.induct)
  case (1 pres atomic k iov bs)
  show ?case
  proof (cases "bs = []")
    case True
    with 1(3) show ?thesis by (subst pipe_iov_copy_to_user.simps) simp
  next
    case n: False
    then obtain v vs where iov: "iov = v # vs" using 1(4) by (cases iov) auto
    show ?thesis
    proof (cases "iov_len v = 0")
      case True
      with 1(1) [OF n iov] 1(3-5) n iov show ?thesis
        by (subst pipe_iov_copy_to_user.simps) auto
    next
      case False
      define m where "m = min (length bs) (iov_len v)"
      have m: "m \<le> length bs" "m \<le> iov_len v" "m \<le> length (iov_mem v)" using 1(3) iov by (auto simp: m_def)
      have pre: "iov_ok (advance m v # vs)" "length (drop m bs) \<le> iov_length (advance m v # vs)"
        using 1(3,4) iov m by (auto simp: m_def)
      have go: "\<not> (atomic \<and> \<not> pres k \<or> length (iov_mem v) < m)" using 1(5) m(3) by auto
      from 1(2) [OF n iov False m_def go pre 1(5)] obtain iov' where
        r: "pipe_iov_copy_to_user pres atomic (Suc k) (advance m v # vs) (drop m bs) = Ret (drop m bs, iov', 0)"
          "iov_ok iov'" "iov_length iov' = iov_length (advance m v # vs) - length (drop m bs)"
        by blast
      have "pipe_iov_copy_to_user pres atomic k iov bs = Ret (bs, iov', 0)"
        using n False go r(1) iov
        by (subst pipe_iov_copy_to_user.simps) (auto simp: Let_def simp flip: m_def)
      with r(2,3) iov m show ?thesis by simp
    qed
  qed
qed

text \<open>A failed first chunk leaves everything as it was.\<close>

lemma copy_from_first_fails:
  assumes "iov_ok iov" and "0 < n" and "n \<le> iov_length iov" and "\<not> pres k"
  shows "pipe_iov_copy_from_user pres True k iov n = Ret ([], iov, - EFAULT)"
  using assms
proof (induction iov)
  case (Cons v vs)
  then show ?case by (cases "iov_len v = 0") (auto simp: pipe_iov_copy_from_user.simps [of _ _ _ "v # vs"])
qed simp

lemma copy_to_first_fails:
  assumes "iov_ok iov" and "bs \<noteq> []" and "length bs \<le> iov_length iov" and "\<not> pres k"
  shows "pipe_iov_copy_to_user pres True k iov bs = Ret ([], iov, - EFAULT)"
  using assms
proof (induction iov)
  case (Cons v vs)
  then show ?case by (cases "iov_len v = 0") (auto simp: pipe_iov_copy_to_user.simps [of _ _ _ "v # vs"])
qed simp

lemma prefault_returns: "n \<le> iov_length iov \<Longrightarrow> \<exists>left. prefault ok iov n = Ret left"
proof (induction iov arbitrary: n)
  case Nil
  then show ?case by (simp add: prefault.simps)
next
  case (Cons v vs)
  then have "\<exists>left. prefault ok vs (n - min n (iov_len v)) = Ret left" by (intro Cons.IH) auto
  then show ?case by (subst prefault.simps) (auto simp: Let_def)
qed

lemma iov_length_dropWhile [simp]: "iov_length (dropWhile (\<lambda>v. iov_len v = 0) iov) = iov_length iov"
  by (induction iov) auto

lemma copy_in_ok:
  assumes "iov_ok iov" and "n \<le> iov_length iov" and "0 < n" and "clean pres"
  shows "\<exists>iov'. copy_in pres iov n = Ret (take n (iov_bytes iov), iov', 0)
    \<and> iov_ok iov' \<and> iov_bytes iov' = drop n (iov_bytes iov)"
proof -
  obtain left where "prefault (\<lambda>_ _. True) (dropWhile (\<lambda>v. iov_len v = 0) iov) n = Ret left"
    using prefault_returns [of n "dropWhile (\<lambda>v. iov_len v = 0) iov"] assms(2) by auto
  then have f: "iov_fault_in_pages_read iov n = Ret ()" by (simp add: iov_fault_in_pages_read_def)
  consider "\<forall>k. pres k" | "\<not> pres 0" using assms(4) by (auto simp: clean_def)
  then show ?thesis
  proof cases
    case 1
    then show ?thesis
      using copy_from_ok [OF assms(1,2), of True pres 0] f by (auto simp: copy_in_def)
  next
    case 2
    then show ?thesis
      using copy_from_ok [OF assms(1,2), of False pres 0] copy_from_first_fails [where k = 0 and pres = pres, OF assms(1,3,2) 2] f
      by (auto simp: copy_in_def EFAULT_def)
  qed
qed

lemma copy_out_ok:
  assumes "iov_ok iov" and "length bs \<le> iov_length iov" and "clean pres"
  shows "\<exists>iov'. copy_out pres atomic iov bs = Ret (bs, iov', 0)
    \<and> iov_ok iov' \<and> iov_length iov' = iov_length iov - length bs"
proof -
  consider "atomic \<longrightarrow> (\<forall>k. pres k)" | "bs = []" | "atomic" "bs \<noteq> []" "\<not> pres 0" using assms(3) by (auto simp: clean_def)
  then show ?thesis
  proof cases
    case 1
    then show ?thesis using copy_to_ok [OF assms(1,2), of atomic pres 0] by (auto simp: copy_out_def)
  next
    case 2
    then show ?thesis using assms(1) by (simp add: copy_out_def pipe_iov_copy_to_user.simps)
  next
    case 3
    then show ?thesis
      using copy_to_ok [OF assms(1,2), of False pres 0] copy_to_first_fails [where k = 0 and pres = pres, OF assms(1) _ assms(2) 3(3)]
      by (auto simp: copy_out_def EFAULT_def)
  qed
qed

section \<open>The ring\<close>

lemma ring_mod: "ring i = i mod 16"
proof -
  have m: "PIPE_BUFFERS - 1 = mask 4" by (simp add: PIPE_BUFFERS_def mask_eq_exp_minus_1)
  have "ring i = i mod 2 ^ 4"
    unfolding ring_def m by (simp only: take_bit_eq_mask [symmetric] take_bit_eq_mod)
  then show ?thesis by simp
qed

lemma ring_less [simp]: "ring i < 16" by (simp add: ring_mod)

lemma ring_small: "i < 16 \<Longrightarrow> ring i = i" by (simp add: ring_mod)

lemma ring_ring [simp]: "ring (ring i + j) = ring (i + j)"
  by (simp add: ring_mod mod_add_left_eq)

lemma ring_inj: "ring (c + i) = ring (c + j) \<Longrightarrow> i < 16 \<Longrightarrow> j < 16 \<Longrightarrow> i = j"
proof (induction i j rule: linorder_wlog)
  case (le i j)
  then have "16 dvd (c + j) - (c + i)" by (subst mod_eq_dvd_iff_nat [symmetric]) (auto simp: ring_mod)
  with le dvd_imp_le [of 16 "j - i"] show ?case by (cases "i = j") auto
next
  case (sym i j)
  then show ?case by simp
qed

text \<open>The \<open>n\<close> buffers from position \<open>c\<close> on.\<close>

definition segs :: "pipe_buffer list \<Rightarrow> nat \<Rightarrow> nat \<Rightarrow> pipe_buffer list" where
  "segs bs c n = map (\<lambda>j. bs ! ring (c + j)) [0..<n]"

lemma segs_0 [simp]: "segs bs c 0 = []" by (simp add: segs_def)

lemma segs_Suc: "segs bs c (Suc n) = bs ! ring c # segs bs (Suc c) n"
  by (simp add: segs_def map_upt_Suc del: upt_Suc)

lemma segs_snoc: "segs bs c (Suc n) = segs bs c n @ [bs ! ring (c + n)]"
  by (simp add: segs_def)

lemma segs_ring [simp]: "segs bs (ring c) n = segs bs c n"
  by (simp add: segs_def)

lemma length_segs [simp]: "length (segs bs c n) = n"
  by (simp add: segs_def)

lemma segs_update_after:
  assumes "n \<le> m" and "m < 16"
  shows "segs (bs[ring (c + m) := b]) c n = segs bs c n"
proof -
  have "ring (c + j) \<noteq> ring (c + m)" if "j < n" for j
    using that assms ring_inj [of c j m] by auto
  then show ?thesis unfolding segs_def by (intro map_cong refl nth_list_update_neq) (metis atLeastLessThan_iff set_upt)
qed

lemma segs_update_front:
  assumes "n \<le> 15"
  shows "segs (bs[ring c := b]) (Suc c) n = segs bs (Suc c) n"
proof -
  have "ring (Suc c + j) \<noteq> ring c" if "j < n" for j
    using that assms ring_inj [of c "Suc j" 0] by auto
  then show ?thesis unfolding segs_def by (intro map_cong refl nth_list_update_neq) (metis atLeastLessThan_iff set_upt)
qed

section \<open>The bytes a pipe holds\<close>

definition view :: "pipe_buffer \<Rightarrow> u8 list" where
  "view b = peek b (len b)"

definition live :: "pipe_inode_info \<Rightarrow> pipe_buffer list" where
  "live p = segs (bufs p) (curbuf p) (nrbufs p)"

definition contents :: "pipe_inode_info \<Rightarrow> u8 list" where
  "contents p = concat (map view (live p))"

definition wf_buf :: "pipe_buffer \<Rightarrow> bool" where
  "wf_buf b \<longleftrightarrow> ops b \<and> 0 < len b \<and> offset b + len b \<le> PAGE_SIZE \<and> length (pdata (buf_page b)) = PAGE_SIZE"

definition wf_page :: "page option \<Rightarrow> bool" where
  "wf_page pg \<longleftrightarrow> (case pg of None \<Rightarrow> True | Some p \<Rightarrow> length (pdata p) = PAGE_SIZE)"

definition wf_pipe :: "pipe_inode_info \<Rightarrow> bool" where
  "wf_pipe p \<longleftrightarrow> length (bufs p) = PIPE_BUFFERS \<and> curbuf p < PIPE_BUFFERS \<and> nrbufs p \<le> PIPE_BUFFERS
     \<and> (\<forall>b \<in> set (live p). wf_buf b) \<and> wf_page (tmp_page p)"

lemma view_simps: "wf_buf b \<Longrightarrow> length (view b) = len b" "wf_buf b \<Longrightarrow> view b \<noteq> []"
  by (auto simp: view_def peek_def wf_buf_def PAGE_SIZE_def)

lemma peek_take: "n \<le> len b \<Longrightarrow> peek b n = take n (view b)"
  by (simp add: peek_def view_def min.absorb1)

lemma view_drop:
  "n \<le> len b \<Longrightarrow> view (b\<lparr>offset := offset b + n, len := len b - n\<rparr>) = drop n (view b)"
  by (simp add: view_def peek_def drop_take add.commute [of n])

text \<open>The buffer at the front and the pipe without it or with a part of it.\<close>

lemma live_front:
  assumes "wf_pipe p" and "nrbufs p = Suc n"
  shows "get_buf p (curbuf p) = Ret (hd (live p))" and "wf_buf (hd (live p))"
    and "live p = hd (live p) # segs (bufs p) (Suc (curbuf p)) n"
proof -
  have c: "curbuf p < 16" "length (bufs p) = 16" using assms(1) by (auto simp: wf_pipe_def pipe_consts)
  then have l: "live p = bufs p ! curbuf p # segs (bufs p) (Suc (curbuf p)) n"
    using assms(2) by (simp add: live_def segs_Suc ring_small)
  then show "live p = hd (live p) # segs (bufs p) (Suc (curbuf p)) n"
    and "get_buf p (curbuf p) = Ret (hd (live p))" using c by (simp_all add: get_buf_def)
  show "wf_buf (hd (live p))" using l assms(1) by (simp add: wf_pipe_def)
qed

definition same_ends :: "pipe_inode_info \<Rightarrow> pipe_inode_info \<Rightarrow> bool" where
  "same_ends p q \<longleftrightarrow> readers p = readers q \<and> writers p = writers q \<and> real_readers p = real_readers q
     \<and> real_writers p = real_writers q \<and> waiting_writers p = waiting_writers q"

lemma same_ends_simps [simp]:
  "same_ends p p" "same_ends p (q\<lparr>bufs := bs\<rparr>) = same_ends p q" "same_ends p (q\<lparr>curbuf := c\<rparr>) = same_ends p q"
  "same_ends p (q\<lparr>nrbufs := n\<rparr>) = same_ends p q" "same_ends p (q\<lparr>tmp_page := t\<rparr>) = same_ends p q"
  by (simp_all add: same_ends_def)

lemma same_ends_trans: "same_ends p q \<Longrightarrow> same_ends q r \<Longrightarrow> same_ends p r"
  by (simp add: same_ends_def)

lemma release_props [simp]:
  "bufs (anon_pipe_buf_release b p) = bufs p" "same_ends q (anon_pipe_buf_release b p) = same_ends q p"
  "wf_page (tmp_page p) \<Longrightarrow> length (pdata (buf_page b)) = PAGE_SIZE \<Longrightarrow> wf_page (tmp_page (anon_pipe_buf_release b p))"
  by (auto simp: anon_pipe_buf_release_def wf_page_def)

lemma consume_all:
  assumes "wf_pipe p" and "nrbufs p = Suc n" and "length (pdata (buf_page b)) = PAGE_SIZE"
    and "p2 = (anon_pipe_buf_release b (p\<lparr>bufs := (bufs p)[curbuf p := b']\<rparr>))\<lparr>curbuf := ring (curbuf p + 1), nrbufs := n\<rparr>"
  shows "wf_pipe p2" and "live p2 = tl (live p)" and "same_ends p p2" and "nrbufs p2 = n"
proof -
  have c: "curbuf p < 16" "length (bufs p) = 16" "n \<le> 15" using assms(1,2) by (auto simp: wf_pipe_def pipe_consts)
  show l: "live p2 = tl (live p)"
    using segs_update_front [OF c(3), of "bufs p" "curbuf p" b'] assms(2,4) c(1)
    by (simp add: live_def segs_Suc ring_small)
  have t: "set (tl (live p)) \<subseteq> set (live p)" by (cases "live p") auto
  show "wf_pipe p2"
    using assms c l t by (auto simp: wf_pipe_def PIPE_BUFFERS_def)
  show "same_ends p p2" "nrbufs p2 = n" using assms(4) by simp_all
qed

lemma consume_some:
  assumes "wf_pipe p" and "nrbufs p = Suc n" and "wf_buf b'" and "p1 = p\<lparr>bufs := (bufs p)[curbuf p := b']\<rparr>"
  shows "wf_pipe p1" and "live p1 = b' # tl (live p)" and "same_ends p p1"
proof -
  have c: "curbuf p < 16" "length (bufs p) = 16" "n \<le> 15" using assms(1,2) by (auto simp: wf_pipe_def pipe_consts)
  show l: "live p1 = b' # tl (live p)"
    using segs_update_front [OF c(3), of "bufs p" "curbuf p" b'] assms(2,4) c(1,2)
    by (simp add: live_def segs_Suc ring_small)
  have t: "set (tl (live p)) \<subseteq> set (live p)" by (cases "live p") auto
  show "wf_pipe p1"
    using assms(1) l t assms(3,4) by (auto simp: wf_pipe_def)
  show "same_ends p p1" using assms(4) by simp
qed

section \<open>Reading takes a prefix\<close>

lemma read_loop_empty:
  "nrbufs p = 0 \<Longrightarrow> pipe_read_loop env i p iov out tot ret = Ret (read_end env p iov out tot ret)"
  by (simp add: pipe_read_loop.simps)

lemma read_loop_fifo:
  assumes "wf_pipe p" and "iov_ok iov" and "tot = iov_length iov" and "0 < tot" and "\<forall>i. clean (present env i)"
  shows "\<exists>p' iov'. wf_pipe p' \<and> same_ends p p' \<and> contents p' = drop tot (contents p)
    \<and> pipe_read_loop env i p iov out tot ret = Ret
        (if tot \<le> length (contents p) then (p', iov', out @ take tot (contents p), 0, ret + int tot, Returned)
         else read_end env p' iov' (out @ contents p) (tot - length (contents p)) (ret + int (length (contents p))))"
  using assms(1-4)
proof (induction "nrbufs p" arbitrary: p iov tot i out ret)
  case 0
  then have "contents p = []" by (simp add: contents_def live_def)
  with 0 show ?case by (intro exI [of _ p] exI [of _ iov]) (simp add: pipe_read_loop.simps)
next
  case (Suc n)
  define b where "b = hd (live p)"
  note front = live_front [OF Suc.prems(1) Suc.hyps(2) [symmetric], folded b_def]
  define c where "c = min (len b) tot"
  define b' where "b' = b\<lparr>offset := offset b + c, len := len b - c\<rparr>"
  have wb: "length (pdata (buf_page b')) = PAGE_SIZE" "length (view b) = len b" "0 < len b" "ops b"
    using front(2) view_simps(1) by (auto simp: wf_buf_def b'_def)
  have cont: "contents p = view b @ concat (map view (tl (live p)))"
    unfolding contents_def by (subst front(3)) (simp add: front(3) [THEN arg_cong, of tl])
  have bs: "peek b c = take c (view b)" by (rule peek_take) (simp add: c_def)
  obtain left where left: "iov_fault_in_pages_write (wr_ok env) iov c = Ret left"
    using prefault_returns [of c "dropWhile (\<lambda>v. iov_len v = 0) iov" "wr_ok env"] Suc.prems(3)
    by (auto simp: iov_fault_in_pages_write_def c_def)
  obtain iov' where iov': "copy_out (present env i) (left = 0) iov (take c (view b)) = Ret (take c (view b), iov', 0)"
    "iov_ok iov'" "iov_length iov' = tot - c"
    using copy_out_ok [of iov "take c (view b)" "present env i" "left = 0"] Suc.prems assms(5) wb(2)
    by (auto simp: c_def)
  show ?case
  proof (cases "len b \<le> tot")
    case True
    then have ce: "c = len b" by (simp add: c_def)
    define p2 where "p2 = (anon_pipe_buf_release b' (p\<lparr>bufs := (bufs p)[curbuf p := b'\<lparr>ops := False\<rparr>]\<rparr>))
      \<lparr>curbuf := ring (curbuf p + 1), nrbufs := n\<rparr>"
    note p2 = consume_all [OF Suc.prems(1) Suc.hyps(2) [symmetric] wb(1) p2_def]
    have c2: "contents p2 = concat (map view (tl (live p)))" by (simp add: contents_def p2(2))
    have nr: "nrbufs p = Suc n" using Suc.hyps(2) by simp
    have e: "p2 = (anon_pipe_buf_release (b\<lparr>offset := offset b + len b, len := 0\<rparr>) (p\<lparr>bufs := (bufs p)[curbuf p :=
        b\<lparr>offset := offset b + len b, len := 0, ops := False\<rparr>]\<rparr>))\<lparr>curbuf := ring (Suc (curbuf p)), nrbufs := n\<rparr>"
      by (simp add: p2_def b'_def ce)
    have step: "pipe_read_loop env i p iov out tot ret =
        (if tot = len b then Ret (p2, iov', out @ view b, 0, ret + int c, Returned)
         else pipe_read_loop env (Suc i) p2 iov' (out @ view b) (tot - len b) (ret + int c))"
      using nr front(1) left iov'(1) True wb(2-) bs read_loop_empty [of p2]
      by (subst pipe_read_loop.simps) (cases n; simp add: generic_pipe_buf_pin_def Let_def ce e)
    show ?thesis
    proof (cases "tot = len b")
      case True
      with step p2 cont c2 wb ce show ?thesis by (intro exI [of _ p2] exI [of _ iov']) simp
    next
      case False
      with True Suc.hyps(1) [of p2 iov' "tot - len b" "Suc i" "out @ view b" "ret + int c"] p2 iov'(2,3) ce
      obtain p' iov2 where r: "wf_pipe p'" "same_ends p2 p'" "contents p' = drop (tot - len b) (contents p2)"
        "pipe_read_loop env (Suc i) p2 iov' (out @ view b) (tot - len b) (ret + int c) = Ret
          (if tot - len b \<le> length (contents p2)
           then (p', iov2, (out @ view b) @ take (tot - len b) (contents p2), 0, ret + int c + int (tot - len b), Returned)
           else read_end env p' iov2 ((out @ view b) @ contents p2) (tot - len b - length (contents p2))
             (ret + int c + int (length (contents p2))))"
        by auto
      have "same_ends p p'" using same_ends_trans p2(3) r(2) by blast
      with r False True step cont c2 wb ce show ?thesis
        by (intro exI [of _ p'] exI [of _ iov2]) (auto simp: le_diff_conv algebra_simps)
    qed
  next
    case False
    then have ce: "c = tot" by (simp add: c_def)
    define p1 where "p1 = p\<lparr>bufs := (bufs p)[curbuf p := b'\<lparr>ops := True\<rparr>]\<rparr>"
    have wb': "wf_buf (b'\<lparr>ops := True\<rparr>)" using front(2) False ce by (auto simp: wf_buf_def b'_def)
    note p1 = consume_some [OF Suc.prems(1) Suc.hyps(2) [symmetric] wb' p1_def]
    have v: "view (b'\<lparr>ops := True\<rparr>) = drop tot (view b)"
      using view_drop [of tot b] False ce by (simp add: b'_def view_def peek_def)
    have "pipe_read_loop env i p iov out tot ret = Ret (p1, iov', out @ take tot (view b), 0, ret + int tot, Returned)"
      using Suc.hyps(2) [symmetric] front(1) left iov'(1) ce False wb bs
      by (subst pipe_read_loop.simps) (simp add: generic_pipe_buf_pin_def Let_def p1_def b'_def)
    moreover have "contents p1 = drop tot (contents p)"
      using cont v wb(2) False by (simp add: contents_def p1(2))
    ultimately show ?thesis
      using p1 cont wb(2) False by (intro exI [of _ p1] exI [of _ iov']) simp
  qed
qed

section \<open>Writing appends\<close>

lemma poke_length [simp]: "off + length bs \<le> length (pdata p) \<Longrightarrow> length (pdata (poke p off bs)) = length (pdata p)"
  by (simp add: poke_def)

lemma view_fresh:
  "length (pdata pg) = PAGE_SIZE \<Longrightarrow> length bs \<le> PAGE_SIZE \<Longrightarrow>
   view \<lparr>buf_page = poke pg 0 bs, offset = 0, len = length bs, ops = True\<rparr> = bs"
  by (simp add: view_def peek_def poke_def)

lemma view_extend:
  assumes "wf_buf b" and "offset b + len b + length bs \<le> PAGE_SIZE"
  shows "view (b\<lparr>buf_page := poke (buf_page b) (offset b + len b) bs, len := len b + length bs\<rparr>) = view b @ bs"
  using assms by (simp add: view_def peek_def poke_def wf_buf_def take_add)

lemma insert_buf:
  assumes "wf_pipe p" and "nrbufs p < 16" and "wf_buf b"
    and "p1 = p\<lparr>bufs := (bufs p)[ring (curbuf p + nrbufs p) := b], nrbufs := nrbufs p + 1, tmp_page := None\<rparr>"
  shows "wf_pipe p1" and "live p1 = live p @ [b]" and "same_ends p p1"
proof -
  have c: "length (bufs p) = 16" using assms(1) by (simp add: wf_pipe_def PIPE_BUFFERS_def)
  show l: "live p1 = live p @ [b]"
    using segs_update_after [OF order_refl assms(2), of "bufs p" "curbuf p" b] c assms(4)
    by (simp add: live_def segs_snoc)
  show "wf_pipe p1" using assms l by (auto simp: wf_pipe_def PIPE_BUFFERS_def wf_page_def)
  show "same_ends p p1" using assms(4) by simp
qed

lemma replace_last:
  assumes "wf_pipe p" and "nrbufs p = Suc n" and "wf_buf b"
    and "p1 = p\<lparr>bufs := (bufs p)[ring (curbuf p + n) := b]\<rparr>"
  shows "wf_pipe p1" and "live p1 = butlast (live p) @ [b]" and "same_ends p p1"
proof -
  have c: "length (bufs p) = 16" "n < 16" using assms(1,2) by (auto simp: wf_pipe_def PIPE_BUFFERS_def)
  show l: "live p1 = butlast (live p) @ [b]"
    using segs_update_after [OF order_refl c(2), of "bufs p" "curbuf p" b] c assms(2,4)
    by (simp add: live_def segs_snoc)
  show "wf_pipe p1"
    using assms(1) l assms(3,4) by (auto simp: wf_pipe_def dest: in_set_butlastD)
  show "same_ends p p1" using assms(4) by simp
qed

text \<open>Pages can be allocated.\<close>

definition pages_ok :: "pipe_env \<Rightarrow> bool" where
  "pages_ok env \<longleftrightarrow> (\<forall>i. \<exists>pg. new_page env i = Some pg \<and> length (pdata pg) = PAGE_SIZE)"

lemma write_loop_appends:
  assumes "wf_pipe p" and "iov_ok iov" and "tot = iov_length iov" and "0 < tot" and "readers p \<noteq> 0"
    and "\<forall>i. clean (present env i)" and "pages_ok env"
  shows "\<exists>k p' iov'. k \<le> tot \<and> wf_pipe p' \<and> same_ends p p' \<and> contents p' = contents p @ take k (iov_bytes iov)
    \<and> (k < tot \<longrightarrow> nrbufs p' = PIPE_BUFFERS)
    \<and> pipe_write_loop env i p iov tot saved ret = Ret
        (if k = tot then (p', iov', 0, ret + int tot, Returned) else write_full env p' iov' (tot - k) saved (ret + int k))"
  using assms(1-5)
proof (induction "16 - nrbufs p" arbitrary: p iov tot i ret)
  case 0
  then have "nrbufs p = 16" by (simp add: wf_pipe_def PIPE_BUFFERS_def)
  with 0 show ?case
    by (intro exI [of _ 0] exI [of _ p] exI [of _ iov]) (simp add: pipe_write_loop.simps PIPE_BUFFERS_def)
next
  case (Suc n)
  then have nr: "nrbufs p < 16" by simp
  obtain pg where pg: "(case tmp_page p of Some pg \<Rightarrow> Some pg | None \<Rightarrow> new_page env i) = Some pg"
    "length (pdata pg) = PAGE_SIZE"
    using assms(7) Suc.prems(1) by (auto simp: pages_ok_def wf_pipe_def wf_page_def split: option.splits)
  define c where "c = min PAGE_SIZE tot"
  have c: "0 < c" "c \<le> tot" "c \<le> PAGE_SIZE" using Suc.prems(4) by (auto simp: c_def PAGE_SIZE_def)
  define bs where "bs = take c (iov_bytes iov)"
  have lb: "length bs = c" using c Suc.prems(2,3) by (simp add: bs_def)
  obtain iov' where iov': "copy_in (present env i) iov c = Ret (bs, iov', 0)" "iov_ok iov'" "iov_bytes iov' = drop c (iov_bytes iov)"
    using copy_in_ok [of iov c "present env i"] Suc.prems(2,3) c assms(6) by (auto simp: bs_def)
  have il: "iov_length iov' = tot - c"
    using iov'(2,3) Suc.prems(2,3) by (metis length_drop length_iov_bytes)
  define b where "b = \<lparr>buf_page = poke pg 0 bs, offset = 0, len = length bs, ops = True\<rparr>"
  define p1 where "p1 = p\<lparr>bufs := (bufs p)[ring (curbuf p + nrbufs p) := b], nrbufs := nrbufs p + 1, tmp_page := None\<rparr>"
  have "wf_buf b" using pg(2) c lb by (simp add: b_def wf_buf_def)
  note p1 = insert_buf [OF Suc.prems(1) nr this p1_def]
  have c1: "contents p1 = contents p @ bs"
    using view_fresh [OF pg(2), of bs] c lb by (simp add: contents_def p1(2) b_def)
  have len: "ring (curbuf p + nrbufs p) < length (bufs p)" using Suc.prems(1) by (simp add: wf_pipe_def PIPE_BUFFERS_def)
  have step: "pipe_write_loop env i p iov tot saved ret =
      (if tot = c then Ret (p1, iov', 0, ret + int c, Returned)
       else pipe_write_loop env (Suc i) p1 iov' (tot - c) saved (ret + int c))"
    using nr Suc.prems(5) pg(1) iov'(1) c lb len
    by (subst pipe_write_loop.simps)
       (simp add: get_buf_def Let_def PIPE_BUFFERS_def p1_def b_def pipe_write_loop.simps [of env "Suc i"] flip: c_def)
  show ?case
  proof (cases "tot = c")
    case True
    with step p1 c1 lb show ?thesis
      by (intro exI [of _ c] exI [of _ p1] exI [of _ iov']) (simp add: bs_def)
  next
    case False
    have "n = 16 - nrbufs p1" using Suc.hyps(2) by (simp add: p1_def)
    moreover have "readers p1 \<noteq> 0" using Suc.prems(5) by (simp add: p1_def)
    ultimately obtain k p' iov2 where r: "k \<le> tot - c" "wf_pipe p'" "same_ends p1 p'"
      "contents p' = contents p1 @ take k (iov_bytes iov')" "k < tot - c \<longrightarrow> nrbufs p' = PIPE_BUFFERS"
      "pipe_write_loop env (Suc i) p1 iov' (tot - c) saved (ret + int c) = Ret
        (if k = tot - c then (p', iov2, 0, ret + int c + int (tot - c), Returned)
         else write_full env p' iov2 (tot - c - k) saved (ret + int c + int k))"
      using Suc.hyps(1) [of p1 iov' "tot - c" "Suc i" "ret + int c"] p1(1) iov'(2) il False c by auto
    have "same_ends p p'" using p1(3) r(3) by (rule same_ends_trans)
    moreover have "contents p' = contents p @ take (c + k) (iov_bytes iov)"
      using r(4) c1 iov'(3) by (simp add: bs_def take_add)
    ultimately show ?thesis
      using r step False c
      by (intro exI [of _ "c + k"] exI [of _ p'] exI [of _ iov2]) (auto simp: algebra_simps)
  qed
qed

lemma page_mask: "(n AND (PAGE_SIZE - Suc 0)) = n mod 4096"
proof -
  have m: "PAGE_SIZE - 1 = mask 12" by (simp add: PAGE_SIZE_def mask_eq_exp_minus_1)
  have "(n AND (PAGE_SIZE - 1)) = n mod 2 ^ 12"
    unfolding m by (simp only: take_bit_eq_mask [symmetric] take_bit_eq_mod)
  then show ?thesis by simp
qed

lemma write_merge_appends:
  assumes "wf_pipe p" and "iov_ok iov" and "tot = iov_length iov" and "0 < tot" and "clean (present env 0)"
  shows "\<exists>k p' iov'. k \<le> tot \<and> wf_pipe p' \<and> same_ends p p' \<and> contents p' = contents p @ take k (iov_bytes iov)
    \<and> iov_ok iov' \<and> iov_bytes iov' = drop k (iov_bytes iov)
    \<and> write_merge env p iov tot = Ret (p', iov', tot - k, int k, k = tot)"
proof (cases "nrbufs p = 0 \<or> tot mod 4096 = 0")
  case True
  then show ?thesis
    using assms by (intro exI [of _ 0] exI [of _ p] exI [of _ iov]) (auto simp: write_merge_def page_mask)
next
  case False
  then obtain n where n: "nrbufs p = Suc n" by (cases "nrbufs p") auto
  define c where "c = tot mod 4096"
  have c: "0 < c" "c \<le> tot" using False by (auto simp: c_def)
  define b where "b = bufs p ! ring (curbuf p + n)"
  have live: "live p = butlast (live p) @ [b]" using n by (simp add: live_def segs_snoc b_def)
  then have "b \<in> set (live p)" by (metis in_set_conv_decomp)
  then have wb: "wf_buf b" using assms(1) by (simp add: wf_pipe_def)
  have g: "get_buf p (ring (curbuf p + nrbufs p - 1)) = Ret b"
    using n assms(1) by (simp add: get_buf_def b_def wf_pipe_def PIPE_BUFFERS_def)
  show ?thesis
  proof (cases "offset b + len b + c \<le> PAGE_SIZE")
    case room: True
    define bs where "bs = take c (iov_bytes iov)"
    have lb: "length bs = c" using c assms(2,3) by (simp add: bs_def)
    obtain iov' where iov': "copy_in (present env 0) iov c = Ret (bs, iov', 0)" "iov_ok iov'" "iov_bytes iov' = drop c (iov_bytes iov)"
      using copy_in_ok [of iov c "present env 0"] assms c by (auto simp: bs_def)
    define b' where "b' = b\<lparr>buf_page := poke (buf_page b) (offset b + len b) bs, len := len b + length bs\<rparr>"
    define p1 where "p1 = p\<lparr>bufs := (bufs p)[ring (curbuf p + n) := b']\<rparr>"
    have "wf_buf b'" using wb room lb by (simp add: b'_def wf_buf_def)
    note p1 = replace_last [OF assms(1) n this p1_def]
    have "concat (map view (live p)) = concat (map view (butlast (live p))) @ view b" by (subst live) simp
    then have "contents p1 = contents p @ bs"
      using view_extend [OF wb, of bs] room lb by (simp add: contents_def p1(2) b'_def)
    moreover have "write_merge env p iov tot = Ret (p1, iov', tot - c, int c, c = tot)"
      using False g room iov'(1) n lb c
      by (simp add: write_merge_def page_mask generic_pipe_buf_pin_def p1_def b'_def Let_def flip: c_def) auto
    ultimately show ?thesis
      using p1 iov' c by (intro exI [of _ c] exI [of _ p1] exI [of _ iov']) (simp add: bs_def)
  next
    case full: False
    then have "write_merge env p iov tot = Ret (p, iov, tot, 0, False)"
      using False g by (simp add: write_merge_def page_mask Let_def flip: c_def)
    then show ?thesis
      using assms by (intro exI [of _ 0] exI [of _ p] exI [of _ iov]) auto
  qed
qed

lemma write_appends:
  assumes "wf_pipe p" and "iov_ok iov" and "0 < iov_length iov" and "readers p \<noteq> 0"
    and "\<forall>i. clean (present env i)" and "pages_ok env"
  shows "\<exists>k p' iov'. k \<le> iov_length iov \<and> wf_pipe p' \<and> same_ends p p'
    \<and> contents p' = contents p @ take k (iov_bytes iov) \<and> (k < iov_length iov \<longrightarrow> nrbufs p' = PIPE_BUFFERS)
    \<and> pipe_write env p iov = Ret (if k = iov_length iov then (p', iov', 0, int k, Returned)
         else write_full env p' iov' (iov_length iov - k) (iov_length iov) (int k))"
proof -
  let ?n = "iov_length iov"
  obtain k1 p1 iov1 where m: "k1 \<le> ?n" "wf_pipe p1" "same_ends p p1" "contents p1 = contents p @ take k1 (iov_bytes iov)"
    "iov_ok iov1" "iov_bytes iov1 = drop k1 (iov_bytes iov)"
    "write_merge env p iov ?n = Ret (p1, iov1, ?n - k1, int k1, k1 = ?n)"
    using write_merge_appends [OF assms(1,2) refl assms(3)] assms(5) by blast
  show ?thesis
  proof (cases "k1 = ?n")
    case True
    with m assms show ?thesis
      by (intro exI [of _ k1] exI [of _ p1] exI [of _ iov1]) (simp add: pipe_write_def)
  next
    case False
    have l: "iov_length iov1 = ?n - k1" using m(5,6) assms(2) by (metis length_drop length_iov_bytes)
    have rd: "readers p1 \<noteq> 0" using m(3) assms(4) by (simp add: same_ends_def)
    obtain k2 p2 iov2 where w: "k2 \<le> ?n - k1" "wf_pipe p2" "same_ends p1 p2"
      "contents p2 = contents p1 @ take k2 (iov_bytes iov1)" "k2 < ?n - k1 \<longrightarrow> nrbufs p2 = PIPE_BUFFERS"
      "pipe_write_loop env 1 p1 iov1 (?n - k1) ?n (int k1) = Ret
        (if k2 = ?n - k1 then (p2, iov2, 0, int k1 + int (?n - k1), Returned)
         else write_full env p2 iov2 (?n - k1 - k2) ?n (int k1 + int k2))"
      using write_loop_appends [OF m(2,5), of "?n - k1" env 1 ?n "int k1"] l rd m(1) False assms(5,6) by auto
    have "same_ends p p2" using m(3) w(3) by (rule same_ends_trans)
    moreover have "contents p2 = contents p @ take (k1 + k2) (iov_bytes iov)"
      using w(4) m(4,6) by (simp add: take_add)
    moreover have "pipe_write env p iov = pipe_write_loop env 1 p1 iov1 (?n - k1) ?n (int k1)"
      using m(7) False assms(3,4) by (simp add: pipe_write_def Let_def)
    moreover have "k2 = ?n - k1 \<longleftrightarrow> k1 + k2 = ?n" "int k1 + int (?n - k1) = int ?n" using m(1) by auto
    ultimately show ?thesis
      using m(1) w by (intro exI [of _ "k1 + k2"] exI [of _ p2] exI [of _ iov2]) auto
  qed
qed

section \<open>The contract of a byte stream\<close>

text \<open>
  What a reader and a writer of a stream rely on. \<open>get n\<close> takes at most \<open>n\<close> bytes off the
  front, \<open>put d\<close> accepts a prefix of \<open>d\<close> at the end and says how much of it.
\<close>

locale byte_stream =
  fixes ok :: "'s \<Rightarrow> bool" and held_bytes :: "'s \<Rightarrow> 'b list"
    and get :: "nat \<Rightarrow> 's \<Rightarrow> ('s \<times> 'b list) outcome" and put :: "'b list \<Rightarrow> 's \<Rightarrow> ('s \<times> nat) outcome"
  assumes get_law: "ok s \<Longrightarrow> \<exists>s'. get n s = Ret (s', take n (held_bytes s)) \<and> ok s' \<and> held_bytes s' = drop n (held_bytes s)"
    and put_law: "ok s \<Longrightarrow> \<exists>s' k. put d s = Ret (s', k) \<and> k \<le> length d \<and> ok s' \<and> held_bytes s' = held_bytes s @ take k d"
begin

text \<open>A client's script: \<open>Inl n\<close> reads, \<open>Inr d\<close> writes. The result has all bytes read and all accepted.\<close>

primrec run :: "(nat + 'b list) list \<Rightarrow> 's \<Rightarrow> ('s \<times> 'b list \<times> 'b list) outcome" where
  "run [] s = Ret (s, [], [])"
| "run (x # xs) s =
     (case x of
        Inl n \<Rightarrow> bindO (get n s) (\<lambda>(s1, bs). bindO (run xs s1) (\<lambda>(s2, r, a). Ret (s2, bs @ r, a)))
      | Inr d \<Rightarrow> bindO (put d s) (\<lambda>(s1, k). bindO (run xs s1) (\<lambda>(s2, r, a). Ret (s2, r, take k d @ a))))"

lemma run_conserves:
  "ok s \<Longrightarrow> \<exists>s' r a. run xs s = Ret (s', r, a) \<and> ok s' \<and> r @ held_bytes s' = held_bytes s @ a"
proof (induction xs arbitrary: s)
  case Nil
  then show ?case by simp
next
  case (Cons x xs)
  show ?case
  proof (cases x)
    case (Inl n)
    obtain s1 where g: "get n s = Ret (s1, take n (held_bytes s))" "ok s1" "held_bytes s1 = drop n (held_bytes s)"
      using get_law [OF Cons.prems] by blast
    from Cons.IH [OF g(2)] obtain s' r a where r: "run xs s1 = Ret (s', r, a)" "ok s'" "r @ held_bytes s' = held_bytes s1 @ a"
      by blast
    have "(take n (held_bytes s) @ r) @ held_bytes s' = held_bytes s @ a" using g(3) r(3) by simp
    with Inl g(1) r(1,2) show ?thesis by auto
  next
    case (Inr d)
    obtain s1 k where g: "put d s = Ret (s1, k)" "ok s1" "held_bytes s1 = held_bytes s @ take k d"
      using put_law [OF Cons.prems] by blast
    from Cons.IH [OF g(2)] obtain s' r a where r: "run xs s1 = Ret (s', r, a)" "ok s'" "r @ held_bytes s' = held_bytes s1 @ a"
      by blast
    with Inr g show ?thesis by auto
  qed
qed

end

text \<open>The pipe with plain one-segment buffers, any answers of the hook and any signal state.\<close>

definition blank_page :: page where
  "blank_page = \<lparr>pdata = replicate PAGE_SIZE 0, page_count = 1\<rparr>"

definition plain_env :: "int \<Rightarrow> bool \<Rightarrow> bool \<Rightarrow> pipe_env" where
  "plain_env full nb sig = \<lparr>present = (\<lambda>_ _. True), wr_ok = (\<lambda>_ _. True), new_page = (\<lambda>_. Some blank_page),
     pipe_full = full, nonblock = nb, sig_pending = sig\<rparr>"

definition pipe_get :: "pipe_env \<Rightarrow> nat \<Rightarrow> pipe_inode_info \<Rightarrow> (pipe_inode_info \<times> u8 list) outcome" where
  "pipe_get env n p = bindO (pipe_read env p [\<lparr>iov_mem = replicate n 0, iov_len = n\<rparr>]) (\<lambda>(p', iov, out, left, ret, st). Ret (p', out))"

definition pipe_put :: "pipe_env \<Rightarrow> u8 list \<Rightarrow> pipe_inode_info \<Rightarrow> (pipe_inode_info \<times> nat) outcome" where
  "pipe_put env d p = bindO (pipe_write env p [\<lparr>iov_mem = d, iov_len = length d\<rparr>]) (\<lambda>(p', iov, left, ret, st). Ret (p', length d - left))"

definition open_pipe :: "pipe_inode_info \<Rightarrow> bool" where
  "open_pipe p \<longleftrightarrow> wf_pipe p \<and> readers p \<noteq> 0"

lemma plain_env_ok: "clean (present (plain_env full nb sig) i)" "pages_ok (plain_env full nb sig)"
  by (simp_all add: plain_env_def clean_def pages_ok_def blank_page_def)

lemma wf_waiting [simp]: "wf_pipe (p\<lparr>waiting_writers := w\<rparr>) = wf_pipe p" "contents (p\<lparr>waiting_writers := w\<rparr>) = contents p"
  by (simp_all add: wf_pipe_def contents_def live_def)

lemma pipe_get_law:
  assumes "open_pipe p"
  shows "\<exists>p'. pipe_get (plain_env full nb sig) n p = Ret (p', take n (contents p)) \<and> open_pipe p' \<and> contents p' = drop n (contents p)"
proof (cases "n = 0")
  case True
  with assms show ?thesis by (simp add: pipe_get_def pipe_read_def)
next
  case False
  then obtain p' iov' where r: "wf_pipe p'" "same_ends p p'" "contents p' = drop n (contents p)"
    "pipe_read_loop (plain_env full nb sig) 0 p [\<lparr>iov_mem = replicate n 0, iov_len = n\<rparr>] [] n 0 = Ret
        (if n \<le> length (contents p) then (p', iov', [] @ take n (contents p), 0, 0 + int n, Returned)
         else read_end (plain_env full nb sig) p' iov' ([] @ contents p) (n - length (contents p)) (0 + int (length (contents p))))"
    using read_loop_fifo [of p "[\<lparr>iov_mem = replicate n 0, iov_len = n\<rparr>]" n "plain_env full nb sig" 0 "[]" 0] assms plain_env_ok
    by (auto simp: open_pipe_def)
  with False assms show ?thesis
    by (auto simp: pipe_get_def pipe_read_def read_end_def open_pipe_def same_ends_def split: option.splits)
qed

lemma pipe_put_law:
  assumes "open_pipe p"
  shows "\<exists>p' k. pipe_put (plain_env full nb sig) d p = Ret (p', k) \<and> k \<le> length d \<and> open_pipe p'
    \<and> contents p' = contents p @ take k d"
proof (cases "d = []")
  case True
  with assms show ?thesis by (simp add: pipe_put_def pipe_write_def)
next
  case False
  let ?iov = "[\<lparr>iov_mem = d, iov_len = length d\<rparr>]"
  have i: "iov_length ?iov = length d" "iov_bytes ?iov = d" "iov_ok ?iov" by simp_all
  obtain k p' iov' where w: "k \<le> length d" "wf_pipe p'" "same_ends p p'" "contents p' = contents p @ take k d"
    "pipe_write (plain_env full nb sig) p ?iov = Ret (if k = length d then (p', iov', 0, int k, Returned)
         else write_full (plain_env full nb sig) p' iov' (length d - k) (length d) (int k))"
    using write_appends [of p ?iov "plain_env full nb sig", unfolded i] False assms plain_env_ok i(3)
    unfolding open_pipe_def by blast
  have rd: "readers p' \<noteq> 0" using w(3) assms by (simp add: same_ends_def open_pipe_def)
  show ?thesis
  proof (cases "k = length d")
    case True
    with w rd show ?thesis by (simp add: pipe_put_def open_pipe_def)
  next
    case False
    with w rd show ?thesis by (auto simp: pipe_put_def write_full_def open_pipe_def)
  qed
qed

interpretation pipe_stream: byte_stream open_pipe contents "pipe_get (plain_env full nb sig)" "pipe_put (plain_env full nb sig)"
  by unfold_locales (rule pipe_get_law pipe_put_law; assumption)+

section \<open>Properties\<close>

text \<open>A fresh pipe, and one that holds three bytes.\<close>

definition empty_pipe :: pipe_inode_info where
  "empty_pipe = the (get_pipe_inode True True)"

definition abc_pipe :: pipe_inode_info where
  "abc_pipe = empty_pipe\<lparr>nrbufs := 1, bufs := (bufs empty_pipe)[0 :=
     \<lparr>buf_page = poke blank_page 0 [97, 98, 99], offset = 0, len = 3, ops = True\<rparr>]\<rparr>"

lemma empty_pipe_wf [simp]: "open_pipe empty_pipe" "contents empty_pipe = []" "wf_pipe empty_pipe" "readers empty_pipe = 1"
  "writers empty_pipe = 1" "waiting_writers empty_pipe = 0" "bufs empty_pipe \<noteq> []" "curbuf empty_pipe = 0"
  by (auto simp: empty_pipe_def get_pipe_inode_def alloc_pipe_info_def open_pipe_def wf_pipe_def contents_def live_def
      wf_page_def PIPE_BUFFERS_def numeral_eq_Suc)

lemma abc_pipe_wf [simp]: "wf_pipe abc_pipe" "contents abc_pipe = [97, 98, 99]" "readers abc_pipe = 1"
  "writers abc_pipe = 1" "waiting_writers abc_pipe = 0"
proof -
  let ?b = "\<lparr>buf_page = poke blank_page 0 [97, 98, 99], offset = 0, len = length [97, 98, 99 :: u8], ops = True\<rparr>"
  have l: "live abc_pipe = [?b]"
    using empty_pipe_wf(7) by (simp add: live_def abc_pipe_def segs_def ring_mod)
  have w: "wf_buf ?b" by (simp add: wf_buf_def blank_page_def PAGE_SIZE_def)
  show "contents abc_pipe = [97, 98, 99]"
    using view_fresh [of blank_page "[97, 98, 99]"] by (simp add: contents_def l blank_page_def PAGE_SIZE_def)
  show "wf_pipe abc_pipe"
    using l w empty_pipe_wf(3) by (simp add: wf_pipe_def) (simp add: abc_pipe_def PIPE_BUFFERS_def)
qed (simp_all add: abc_pipe_def)

text \<open>C35: \<open>pipe_read\<close> takes bytes off the front of the pipe, in order. Into accessible user memory of
  total length \<open>n > 0\<close> it delivers the first \<open>n\<close> bytes the pipe holds, or all of them, and
  leaves the rest. If \<open>n\<close> bytes were there it returns \<open>n\<close>. If fewer were there it returns their
  number when there is no writer left or (at least one byte was read and no writer waits);
  \<open>-EAGAIN\<close> for an empty pipe, no waiting writer and \<open>O_NONBLOCK\<close>; on a pending signal what
  was read or \<open>-ERESTARTSYS\<close>; otherwise it waits.\<close>

theorem pipe_read_fifo:
  assumes "wf_pipe p" and "iov_ok iov" and "n = iov_length iov" and "0 < n" and "\<forall>i. clean (present env i)"
  shows "\<exists>p' iov' left ret st. pipe_read env p iov = Ret (p', iov', take n (contents p), left, ret, st)
    \<and> wf_pipe p' \<and> contents p' = drop n (contents p) \<and> left = n - length (contents p)
    \<and> (if n \<le> length (contents p) then ret = int n \<and> st = Returned
       else let m = int (length (contents p)) in
         if writers p = 0 \<or> (waiting_writers p = 0 \<and> m \<noteq> 0) then ret = m \<and> st = Returned
         else if waiting_writers p = 0 \<and> nonblock env then ret = - EAGAIN \<and> st = Returned
         else if sig_pending env then ret = (if m = 0 then - ERESTARTSYS else m) \<and> st = Returned
         else ret = m \<and> st = Waiting)"
proof -
  obtain p' iov' where r: "wf_pipe p'" "same_ends p p'" "contents p' = drop n (contents p)"
    "pipe_read_loop env 0 p iov [] n 0 = Ret
        (if n \<le> length (contents p) then (p', iov', [] @ take n (contents p), 0, 0 + int n, Returned)
         else read_end env p' iov' ([] @ contents p) (n - length (contents p)) (0 + int (length (contents p))))"
    using read_loop_fifo [OF assms, of 0 "[]" 0] by blast
  have e: "writers p' = writers p" "waiting_writers p' = waiting_writers p" using r(2) by (auto simp: same_ends_def)
  show ?thesis
    using r assms(3,4) e by (auto simp: pipe_read_def read_end_def read_drained_def Let_def)
qed

theorem pipe_read_fifo_witness:
  "wf_pipe abc_pipe \<and> iov_ok [\<lparr>iov_mem = [0, 0], iov_len = 2\<rparr>] \<and> (\<forall>i. clean (present (plain_env 1 False False) i))
   \<and> (\<exists>p' iov' left. pipe_read (plain_env 1 False False) abc_pipe [\<lparr>iov_mem = [0, 0], iov_len = 2\<rparr>]
        = Ret (p', iov', [97, 98], left, 2, Returned) \<and> contents p' = [99])"
  using pipe_read_fifo [of abc_pipe "[\<lparr>iov_mem = [0, 0], iov_len = 2\<rparr>]" 2 "plain_env 1 False False"] plain_env_ok
  by auto

text \<open>C36: \<open>pipe_write\<close> appends a prefix of the user's bytes to the pipe; it stores all of them unless all
  16 buffers are in use afterwards. Then, if the security hook answers nonzero, the call
  still returns the full length, so the rest of the data is dropped without the writer
  noticing, and it never waits; if the hook answers 0 the writer gets the number stored
  (\<open>-EAGAIN\<close> or \<open>-ERESTARTSYS\<close> for none) or waits.\<close>

theorem pipe_write_appends:
  assumes "wf_pipe p" and "iov_ok iov" and "n = iov_length iov" and "0 < n" and "readers p \<noteq> 0"
    and "\<forall>i. clean (present env i)" and "pages_ok env"
  shows "\<exists>k p' iov' ret st. pipe_write env p iov = Ret (p', iov', n - k, ret, st) \<and> k \<le> n \<and> wf_pipe p'
    \<and> contents p' = contents p @ take k (iov_bytes iov) \<and> (k < n \<longrightarrow> nrbufs p' = PIPE_BUFFERS)
    \<and> (if k = n \<or> pipe_full env \<noteq> 0 then ret = int n \<and> st = Returned
       else if nonblock env then ret = (if k = 0 then - EAGAIN else int k) \<and> st = Returned
       else if sig_pending env then ret = (if k = 0 then - ERESTARTSYS else int k) \<and> st = Returned
       else ret = int k \<and> st = Waiting)"
proof -
  obtain k p' iov' where w: "k \<le> n" "wf_pipe p'" "contents p' = contents p @ take k (iov_bytes iov)"
    "k < n \<longrightarrow> nrbufs p' = PIPE_BUFFERS"
    "pipe_write env p iov = Ret (if k = n then (p', iov', 0, int k, Returned) else write_full env p' iov' (n - k) n (int k))"
    using write_appends [of p iov env, folded assms(3)] assms(1,2,4-7) by blast
  show ?thesis
  proof (cases "k = n")
    case True
    with w show ?thesis by (intro exI [of _ k] exI [of _ p']) auto
  next
    case False
    with w show ?thesis by (intro exI [of _ k]) (auto simp: write_full_def)
  qed
qed

theorem pipe_write_appends_witness:
  "\<exists>k p' iov' ret st. pipe_write (plain_env 1 False False) abc_pipe [\<lparr>iov_mem = [100], iov_len = 1\<rparr>] = Ret (p', iov', 1 - k, ret, st)
     \<and> contents p' = [97, 98, 99] @ take k [100] \<and> ret = 1 \<and> st = Returned"
  using pipe_write_appends [of abc_pipe "[\<lparr>iov_mem = [100], iov_len = 1\<rparr>]" 1 "plain_env 1 False False"] plain_env_ok
  by (auto simp: plain_env_def split: if_splits)

text \<open>A script of reads (\<open>Inl n\<close>) and writes (\<open>Inr d\<close>), with all bytes read and all bytes accepted.\<close>

primrec pipe_script :: "pipe_env \<Rightarrow> (nat + u8 list) list \<Rightarrow> pipe_inode_info \<Rightarrow> (pipe_inode_info \<times> u8 list \<times> u8 list) outcome" where
  "pipe_script env [] p = Ret (p, [], [])"
| "pipe_script env (x # xs) p =
     (case x of
        Inl n \<Rightarrow> bindO (pipe_get env n p) (\<lambda>(p1, bs). bindO (pipe_script env xs p1) (\<lambda>(p2, r, a). Ret (p2, bs @ r, a)))
      | Inr d \<Rightarrow> bindO (pipe_put env d p) (\<lambda>(p1, k). bindO (pipe_script env xs p1) (\<lambda>(p2, r, a). Ret (p2, r, take k d @ a))))"

lemma pipe_script_run:
  "pipe_script (plain_env full nb sig) xs p = pipe_stream.run full nb sig xs p"
  by (induction xs arbitrary: p) (simp_all split: sum.splits)

text \<open>C4: A pipe is a first-in first-out byte stream. For any sequence of reads and writes on a pipe with
  a reader, whatever the hook, \<open>O_NONBLOCK\<close> and signals do, every call comes back, and the
  bytes read by all the reads, in order, followed by the bytes left in the pipe, are the bytes
  it held at the start followed by the bytes accepted by all the writes.\<close>

theorem pipe_stream_fifo:
  assumes "wf_pipe p" and "readers p \<noteq> 0"
  shows "\<exists>p' r a. pipe_script (plain_env full nb sig) xs p = Ret (p', r, a) \<and> wf_pipe p' \<and> readers p' \<noteq> 0
    \<and> r @ contents p' = contents p @ a"
  using pipe_stream.run_conserves [of p full nb sig xs] assms by (simp add: pipe_script_run open_pipe_def)

theorem pipe_stream_fifo_witness:
  "wf_pipe abc_pipe \<and> readers abc_pipe \<noteq> 0 \<and>
   (\<exists>p' r a. pipe_script (plain_env 0 True False) [Inl 2, Inr [100, 101], Inl 3] abc_pipe = Ret (p', r, a)
      \<and> r @ contents p' = [97, 98, 99] @ a)"
  using pipe_stream_fifo [of abc_pipe 0 True False "[Inl 2, Inr [100, 101], Inl 3]"] by auto

text \<open>The retry after a failed atomic copy starts from segments already used up. A write of two
  bytes from two one-byte segments, where the second byte's page is not present at first,
  has consumed the first segment when it retries both bytes, and runs past the end of the
  segment array.\<close>

lemma retry_overruns_iovec:
  assumes "pres 0" and "\<not> pres 1"
  shows "copy_in pres [\<lparr>iov_mem = [x], iov_len = 1\<rparr>, \<lparr>iov_mem = [y], iov_len = 1\<rparr>] 2 = Oops OutOfBounds"
  using assms
  by (simp add: copy_in_def iov_fault_in_pages_read_def prefault.simps pipe_iov_copy_from_user.simps advance_def EFAULT_def)

lemma retry_overruns_iovec_example:
  "copy_in (\<lambda>k. k = 0) [\<lparr>iov_mem = [1], iov_len = 1\<rparr>, \<lparr>iov_mem = [2], iov_len = 1\<rparr>] 2 = Oops OutOfBounds"
  using retry_overruns_iovec [of "\<lambda>k. k = 0" 1 2] by simp

text \<open>Closing an end of a pipe. The pipe is freed exactly when the last real reader and the last real
  writer are gone; otherwise its data stays. The counts the other end can observe change
  only if the closing task may write the pipe: when it may not, the writer count stays
  positive, and a reader of the drained pipe does not see the end of the data but waits,
  although nobody can write any more.\<close>

lemma pipe_release_hides_eof:
  assumes "pipe_write_release perm p = r"
  shows "(r = None \<longleftrightarrow> real_readers p = 0 \<and> real_writers p = 1)
    \<and> (\<forall>p'. r = Some p' \<longrightarrow> contents p' = contents p \<and> real_writers p' = real_writers p - 1
          \<and> writers p' = (if perm = 0 then writers p - 1 else writers p)
          \<and> (perm \<noteq> 0 \<and> real_writers p = 1 \<and> writers p = 1 \<and> waiting_writers p = 0 \<longrightarrow>
               real_writers p' = 0 \<and> read_drained (plain_env full False False) p' 0 = None))"
  unfolding assms [symmetric]
  by (cases "perm = 0") (auto simp: pipe_write_release_def pipe_release_def read_drained_def plain_env_def
      contents_def live_def Let_def split: if_splits)

lemma pipe_release_hides_eof_example:
  "\<exists>p'. pipe_write_release (- EPERM) empty_pipe = Some p' \<and> real_writers p' = 0
     \<and> read_drained (plain_env 1 False False) p' 0 = None"
proof -
  have c: "real_writers empty_pipe = 1" "real_readers empty_pipe = 1"
    by (simp_all add: empty_pipe_def get_pipe_inode_def alloc_pipe_info_def)
  have "- EPERM \<noteq> 0" by (simp add: EPERM_def)
  with pipe_release_hides_eof [of "- EPERM" empty_pipe _ 1, OF refl] c show ?thesis by auto
qed

text \<open>\<open>do_pipe\<close> cleans up after itself on every path but one. It succeeds exactly when every step
  does, and then holds the two files, the inode and the two descriptors; on an error nothing
  stays allocated, except that the copied label is not freed when \<open>create_write_pipe\<close> is the
  step that fails.\<close>

lemma do_pipe_cleanup:
  "case do_pipe c of (objs, fds, e) \<Rightarrow>
     (fds \<noteq> None \<longleftrightarrow> e = 0) \<and> e \<le> 0
   \<and> (if e = 0 then set objs = {WriteFile, PipeInode, ReadFile, ReadFd, WriteFd} \<and> fds = Some (fd_r c, fd_w c)
      else objs = (if snd (create_write_pipe c) < 0 \<and> lbl_buf c then [LabelBuf] else []))"
  by (auto simp: do_pipe_def create_write_pipe_def create_read_pipe_def free_label_def free_write_pipe_def Let_def
      errno_defs)

lemma fionread_segs:
  assumes "length (bufs p) = 16" and "c < 16"
  shows "fionread_loop p c n = Ret (sum_list (map len (segs (bufs p) c n)))"
  using assms(2)
proof (induction n arbitrary: c)
  case 0
  then show ?case by simp
next
  case (Suc n)
  then show ?case using assms(1) Suc.IH [of "ring (c + 1)"] by (simp add: segs_Suc get_buf_def ring_small)
qed

text \<open>\<open>FIONREAD\<close> on a pipe reports exactly the number of bytes that can be read.\<close>

lemma fionread_counts_contents:
  assumes "wf_pipe p"
  shows "pipe_ioctl True FIONREAD p = Ret (Some (length (contents p)), 0)"
proof -
  have "length (contents p) = sum_list (map len (live p))"
    using assms view_simps(1) by (simp add: contents_def length_concat wf_pipe_def comp_def cong: map_cong)
  then show ?thesis
    using fionread_segs [of p "curbuf p" "nrbufs p"] assms
    by (simp add: pipe_ioctl_def pipe_ioctl_fionread_def wf_pipe_def live_def PIPE_BUFFERS_def)
qed

lemma fionread_counts_contents_example: "pipe_ioctl True FIONREAD abc_pipe = Ret (Some 3, 0)"
  using fionread_counts_contents [of abc_pipe] by simp

end
