(* ===== verification/Creds.thy ===== *)
theory Creds
  imports Difc
begin

text \<open>
  User identities and the Linux capability sets of a task: the operations on capability
  words of \<^verbatim>\<open>include/linux/capability.h\<close>, the hooks of \<^verbatim>\<open>security/commoncap.c\<close>, the credential
  hooks of \<^verbatim>\<open>security/dummy.c\<close> that a module without its own falls back on, the
  \<open>set*uid\<close>/\<open>set*gid\<close> calls of \<^verbatim>\<open>kernel/sys.c\<close>, and the identity part of \<open>exec\<close> in
  \<^verbatim>\<open>fs/exec.c\<close>.

  A task is the record of the DIFC hooks extended with its identity. Calls that use
  \<open>current\<close> take and return that task. A call through \<open>security_ops\<close> is a call of a field
  of a \<open>cred_ops\<close> record, so that the same system call runs under each module.
\<close>

section \<open>Capability words\<close>

type_synonym kernel_cap_t = u32

definition CAP_TO_MASK :: "nat \<Rightarrow> u32" where "CAP_TO_MASK x = push_bit x 1"

definition cap_raised :: "kernel_cap_t \<Rightarrow> nat \<Rightarrow> bool" where
  "cap_raised c flag \<longleftrightarrow> c AND CAP_TO_MASK flag \<noteq> 0"

definition cap_combine :: "kernel_cap_t \<Rightarrow> kernel_cap_t \<Rightarrow> kernel_cap_t" where
  "cap_combine a b = a OR b"

definition cap_intersect :: "kernel_cap_t \<Rightarrow> kernel_cap_t \<Rightarrow> kernel_cap_t" where
  "cap_intersect a b = a AND b"

definition cap_drop :: "kernel_cap_t \<Rightarrow> kernel_cap_t \<Rightarrow> kernel_cap_t" where
  "cap_drop a d = a AND NOT d"

definition cap_invert :: "kernel_cap_t \<Rightarrow> kernel_cap_t" where
  "cap_invert c = NOT c"

definition cap_issubset :: "kernel_cap_t \<Rightarrow> kernel_cap_t \<Rightarrow> bool" where
  "cap_issubset a s \<longleftrightarrow> a AND NOT s = 0"

definition CAP_FS_MASK :: u32 where "CAP_FS_MASK = 0x1f"
definition CAP_SETGID :: nat where "CAP_SETGID = 6"
definition CAP_SETUID :: nat where "CAP_SETUID = 7"
definition CAP_SETPCAP :: nat where "CAP_SETPCAP = 8"
definition CAP_SYS_PTRACE :: nat where "CAP_SYS_PTRACE = 19"
definition CAP_SYS_ADMIN :: nat where "CAP_SYS_ADMIN = 21"
definition CAP_SYS_TIME :: nat where "CAP_SYS_TIME = 25"

definition CAP_EMPTY_SET :: kernel_cap_t where "CAP_EMPTY_SET = 0"
definition CAP_FULL_SET :: kernel_cap_t where "CAP_FULL_SET = NOT 0"
definition CAP_INIT_EFF_SET :: kernel_cap_t where
  "CAP_INIT_EFF_SET = NOT 0 AND NOT (CAP_TO_MASK CAP_SETPCAP)"
definition CAP_INIT_INH_SET :: kernel_cap_t where "CAP_INIT_INH_SET = 0"

lemmas cap_nums = CAP_SETGID_def CAP_SETUID_def CAP_SETPCAP_def CAP_SYS_PTRACE_def
  CAP_SYS_ADMIN_def CAP_SYS_TIME_def

text \<open>A capability word is the set of its bits: the operations are the set operations.\<close>

lemma bit_CAP_TO_MASK: "bit (CAP_TO_MASK k) n \<longleftrightarrow> n = k \<and> n < 32"
  by (auto simp: CAP_TO_MASK_def bit_simps)

lemma word_0_bits: "(w :: u32) = 0 \<longleftrightarrow> (\<forall>n. \<not> bit w n)"
proof
  assume "\<forall>n. \<not> bit w n"
  then show "w = 0" by (intro bit_eqI) simp
qed simp

lemma cap_raised_bit: "cap_raised c k \<longleftrightarrow> bit c k"
proof -
  have "bit (c AND CAP_TO_MASK k) n \<longleftrightarrow> n = k \<and> bit c k" for n
    by (auto simp: bit_and_iff bit_CAP_TO_MASK dest: bit_imp_le_length)
  then show ?thesis
    by (simp add: cap_raised_def word_0_bits)
qed

lemma cap_issubset_bits: "cap_issubset a s \<longleftrightarrow> (\<forall>n. bit a n \<longrightarrow> bit s n)"
proof -
  have "bit (a AND NOT s) n \<longleftrightarrow> bit a n \<and> \<not> bit s n" for n
    by (auto simp: bit_and_iff bit_not_iff dest: bit_imp_le_length)
  then show ?thesis
    by (simp add: cap_issubset_def word_0_bits)
qed

lemma bit_cap_combine [simp]: "bit (cap_combine a b) n \<longleftrightarrow> bit a n \<or> bit b n"
  by (simp add: cap_combine_def bit_or_iff)

lemma bit_cap_intersect [simp]: "bit (cap_intersect a b) n \<longleftrightarrow> bit a n \<and> bit b n"
  by (simp add: cap_intersect_def bit_and_iff)

lemma bit_cap_drop [simp]: "bit (cap_drop a b) n \<longleftrightarrow> bit a n \<and> \<not> bit b n"
  by (auto simp: cap_drop_def bit_and_iff bit_not_iff dest: bit_imp_le_length)

lemma cap_issubset_refl [simp]: "cap_issubset a a"
  by (simp add: cap_issubset_bits)

lemma cap_issubset_trans: "cap_issubset a b \<Longrightarrow> cap_issubset b c \<Longrightarrow> cap_issubset a c"
  by (simp add: cap_issubset_bits)

lemma cap_issubset_0 [simp]: "cap_issubset 0 a"
  by (simp add: cap_issubset_bits)

section \<open>Tasks and the global settings\<close>

record cred = task_struct +
  pid :: int
  user :: u32
  euid :: u32
  suid :: u32
  fsuid :: u32
  gid :: u32
  egid :: u32
  sgid :: u32
  fsgid :: u32
  cap_effective :: kernel_cap_t
  cap_inheritable :: kernel_cap_t
  cap_permitted :: kernel_cap_t
  keep_capabilities :: bool
  superpriv :: bool
  dumpable :: u32
  personality :: u32
  pdeath_signal :: u32
  ptrace :: u32
  fs_count :: nat
  files_count :: nat
  sighand_count :: nat

record globals =
  securebits :: u32
  cap_bset :: kernel_cap_t
  suid_dumpable :: u32
  processes :: "u32 \<Rightarrow> int"
  rlim_nproc :: int

definition is_init :: "cred \<Rightarrow> bool" where "is_init t \<longleftrightarrow> pid t = 1"

definition SECUREBITS_DEFAULT :: u32 where "SECUREBITS_DEFAULT = 0"
definition SECURE_NOROOT :: nat where "SECURE_NOROOT = 0"
definition SECURE_NO_SETUID_FIXUP :: nat where "SECURE_NO_SETUID_FIXUP = 2"

definition issecure :: "globals \<Rightarrow> nat \<Rightarrow> bool" where
  "issecure g X \<longleftrightarrow>
     (if push_bit (X + 1) 1 AND SECUREBITS_DEFAULT \<noteq> 0
      then push_bit X 1 AND SECUREBITS_DEFAULT \<noteq> 0
      else push_bit X 1 AND securebits g \<noteq> 0)"

section \<open>Asking for a capability\<close>

type_synonym capable_hook = "cred \<Rightarrow> nat \<Rightarrow> errno"

definition do_capable :: "capable_hook \<Rightarrow> cred \<Rightarrow> nat \<Rightarrow> cred \<times> bool" where
  "do_capable sc t cap =
     (if sc t cap = 0 then (t\<lparr>superpriv := True\<rparr>, True) else (t, False))"

definition capable :: "capable_hook \<Rightarrow> cred \<Rightarrow> nat \<Rightarrow> cred \<times> bool" where
  "capable sc current cap = do_capable sc current cap"

text \<open>\<open>b || capable(cap)\<close>: the question is only asked, and \<open>PF_SUPERPRIV\<close> only set, when the
  first disjunct fails.\<close>

definition or_capable :: "bool \<Rightarrow> capable_hook \<Rightarrow> nat \<Rightarrow> cred \<Rightarrow> cred \<times> bool" where
  "or_capable b sc cap t = (if b then (t, True) else capable sc t cap)"

section \<open>The hooks of \<open>security/commoncap.c\<close>\<close>

definition cap_capable :: capable_hook where
  "cap_capable tsk cap = (if cap_raised (cap_effective tsk) cap then 0 else - EPERM)"

text \<open>The control block of a netlink buffer holds the sender's effective set.\<close>

definition cap_netlink_send :: "cred \<Rightarrow> kernel_cap_t \<Rightarrow> kernel_cap_t \<times> errno" where
  "cap_netlink_send current eff_cap = (cap_effective current, 0)"

definition cap_netlink_recv :: "kernel_cap_t \<Rightarrow> nat \<Rightarrow> errno" where
  "cap_netlink_recv eff_cap cap = (if \<not> cap_raised eff_cap cap then - EPERM else 0)"

definition cap_settime :: "capable_hook \<Rightarrow> cred \<Rightarrow> cred \<times> errno" where
  "cap_settime sc current =
     (case capable sc current CAP_SYS_TIME of (t, ok) \<Rightarrow> (t, if \<not> ok then - EPERM else 0))"

definition cap_ptrace :: "capable_hook \<Rightarrow> cred \<Rightarrow> cred \<Rightarrow> cred \<times> errno" where
  "cap_ptrace sc parent child =
     (case or_capable (cap_issubset (cap_permitted child) (cap_permitted parent)) sc CAP_SYS_PTRACE parent
      of (p, ok) \<Rightarrow> (p, if \<not> ok then - EPERM else 0))"

definition cap_capget :: "cred \<Rightarrow> kernel_cap_t \<times> kernel_cap_t \<times> kernel_cap_t \<times> errno" where
  "cap_capget target = (cap_effective target, cap_inheritable target, cap_permitted target, 0)"

definition cap_capset_check ::
  "cred \<Rightarrow> cred \<Rightarrow> kernel_cap_t \<Rightarrow> kernel_cap_t \<Rightarrow> kernel_cap_t \<Rightarrow> errno" where
  "cap_capset_check current target effective inheritable permitted =
     (if \<not> cap_issubset inheritable (cap_combine (cap_inheritable target) (cap_permitted current))
      then - EPERM
      else if \<not> cap_issubset permitted (cap_combine (cap_permitted target) (cap_permitted current))
      then - EPERM
      else if \<not> cap_issubset effective permitted then - EPERM
      else 0)"

definition cap_capset_set ::
  "cred \<Rightarrow> kernel_cap_t \<Rightarrow> kernel_cap_t \<Rightarrow> kernel_cap_t \<Rightarrow> cred" where
  "cap_capset_set target effective inheritable permitted =
     target\<lparr>cap_effective := effective, cap_inheritable := inheritable, cap_permitted := permitted\<rparr>"

record linux_binprm =
  e_uid :: u32
  e_gid :: u32
  bprm_effective :: kernel_cap_t
  bprm_inheritable :: kernel_cap_t
  bprm_permitted :: kernel_cap_t
  bprm_security :: "object_security_struct option"

definition cap_bprm_set_security :: "globals \<Rightarrow> cred \<Rightarrow> linux_binprm \<Rightarrow> linux_binprm \<times> errno" where
  "cap_bprm_set_security g current bprm0 =
     (let b = bprm0\<lparr>bprm_inheritable := 0, bprm_permitted := 0, bprm_effective := 0\<rparr> in
      if \<not> issecure g SECURE_NOROOT then
        let b1 = (if e_uid b = 0 \<or> uid current = 0
                  then b\<lparr>bprm_inheritable := NOT 0, bprm_permitted := NOT 0\<rparr> else b);
            b2 = (if e_uid b1 = 0 then b1\<lparr>bprm_effective := NOT 0\<rparr> else b1)
        in (b2, 0)
      else (b, 0))"

definition LSM_UNSAFE_SHARE :: u32 where "LSM_UNSAFE_SHARE = 1"
definition LSM_UNSAFE_PTRACE :: u32 where "LSM_UNSAFE_PTRACE = 2"
definition LSM_UNSAFE_PTRACE_CAP :: u32 where "LSM_UNSAFE_PTRACE_CAP = 4"

text \<open>The rest of \<open>cap_bprm_apply_creds\<close>, from the assignment of the identities on.\<close>

definition cap_install ::
  "linux_binprm \<Rightarrow> kernel_cap_t \<Rightarrow> cred \<Rightarrow> linux_binprm \<times> cred" where
  "cap_install b new_permitted t0 =
     (let t = t0\<lparr>suid := e_uid b, euid := e_uid b, fsuid := e_uid b,
                 sgid := e_gid b, egid := e_gid b, fsgid := e_gid b\<rparr>;
          t1 = (if \<not> is_init t
                then t\<lparr>cap_permitted := new_permitted,
                       cap_effective := cap_intersect new_permitted (bprm_effective b)\<rparr>
                else t)
      in (b, t1\<lparr>keep_capabilities := False\<rparr>))"

definition cap_bprm_apply_creds ::
  "capable_hook \<Rightarrow> globals \<Rightarrow> linux_binprm \<Rightarrow> u32 \<Rightarrow> cred \<Rightarrow> linux_binprm \<times> cred" where
  "cap_bprm_apply_creds sc g b unsafe t =
     (let working = cap_intersect (bprm_inheritable b) (cap_inheritable t);
          new_permitted = cap_combine (cap_intersect (bprm_permitted b) (cap_bset g)) working
      in
      if e_uid b \<noteq> uid t \<or> e_gid b \<noteq> gid t \<or> \<not> cap_issubset new_permitted (cap_permitted t) then
        let t1 = t\<lparr>dumpable := suid_dumpable g\<rparr> in
        if unsafe AND NOT LSM_UNSAFE_PTRACE_CAP \<noteq> 0 then
          (case capable sc t1 CAP_SETUID of (t2, ok) \<Rightarrow>
           let b1 = (if \<not> ok then b\<lparr>e_uid := uid t2, e_gid := gid t2\<rparr> else b) in
           (case capable sc t2 CAP_SETPCAP of (t3, ok') \<Rightarrow>
            cap_install b1 (if \<not> ok' then cap_intersect new_permitted (cap_permitted t3)
                            else new_permitted) t3))
        else cap_install b new_permitted t1
      else cap_install b new_permitted t)"

definition cap_bprm_secureexec :: "cred \<Rightarrow> bool" where
  "cap_bprm_secureexec current \<longleftrightarrow> euid current \<noteq> uid current \<or> egid current \<noteq> gid current"

definition XATTR_SECURITY_PREFIX :: string where "XATTR_SECURITY_PREFIX = ''security.''"

definition has_security_prefix :: "string \<Rightarrow> bool" where
  "has_security_prefix nm \<longleftrightarrow> take (length XATTR_SECURITY_PREFIX) nm = XATTR_SECURITY_PREFIX"

definition cap_inode_setxattr :: "capable_hook \<Rightarrow> cred \<Rightarrow> string \<Rightarrow> cred \<times> errno" where
  "cap_inode_setxattr sc current nm =
     (case or_capable (\<not> has_security_prefix nm) sc CAP_SYS_ADMIN current of
        (t, ok) \<Rightarrow> (t, if \<not> ok then - EPERM else 0))"

definition cap_inode_removexattr :: "capable_hook \<Rightarrow> cred \<Rightarrow> string \<Rightarrow> cred \<times> errno" where
  "cap_inode_removexattr sc current nm =
     (case or_capable (\<not> has_security_prefix nm) sc CAP_SYS_ADMIN current of
        (t, ok) \<Rightarrow> (t, if \<not> ok then - EPERM else 0))"

definition cap_emulate_setxuid :: "u32 \<Rightarrow> u32 \<Rightarrow> u32 \<Rightarrow> cred \<Rightarrow> cred" where
  "cap_emulate_setxuid old_ruid old_euid old_suid t =
     (let t1 = (if (old_ruid = 0 \<or> old_euid = 0 \<or> old_suid = 0) \<and>
                   (uid t \<noteq> 0 \<and> euid t \<noteq> 0 \<and> suid t \<noteq> 0) \<and> \<not> keep_capabilities t
                then t\<lparr>cap_permitted := 0, cap_effective := 0\<rparr> else t);
          t2 = (if old_euid = 0 \<and> euid t1 \<noteq> 0 then t1\<lparr>cap_effective := 0\<rparr> else t1)
      in if old_euid \<noteq> 0 \<and> euid t2 = 0 then t2\<lparr>cap_effective := cap_permitted t2\<rparr> else t2)"

definition LSM_SETID_ID :: u32 where "LSM_SETID_ID = 1"
definition LSM_SETID_RE :: u32 where "LSM_SETID_RE = 2"
definition LSM_SETID_RES :: u32 where "LSM_SETID_RES = 4"
definition LSM_SETID_FS :: u32 where "LSM_SETID_FS = 8"

lemmas setid_flags = LSM_SETID_ID_def LSM_SETID_RE_def LSM_SETID_RES_def LSM_SETID_FS_def

definition cap_task_post_setuid ::
  "globals \<Rightarrow> u32 \<Rightarrow> u32 \<Rightarrow> u32 \<Rightarrow> u32 \<Rightarrow> cred \<Rightarrow> cred \<times> errno" where
  "cap_task_post_setuid g old_ruid old_euid old_suid flg t =
     (if flg = LSM_SETID_RE \<or> flg = LSM_SETID_ID \<or> flg = LSM_SETID_RES then
        (if \<not> issecure g SECURE_NO_SETUID_FIXUP
         then cap_emulate_setxuid old_ruid old_euid old_suid t else t, 0)
      else if flg = LSM_SETID_FS then
        (if \<not> issecure g SECURE_NO_SETUID_FIXUP then
           let old_fsuid = old_ruid;
               t1 = (if old_fsuid = 0 \<and> fsuid t \<noteq> 0
                     then t\<lparr>cap_effective := cap_effective t AND NOT CAP_FS_MASK\<rparr> else t)
           in if old_fsuid \<noteq> 0 \<and> fsuid t1 = 0
              then t1\<lparr>cap_effective := cap_effective t1 OR (cap_permitted t1 AND CAP_FS_MASK)\<rparr>
              else t1
         else t, 0)
      else (t, - EINVAL))"

definition cap_task_reparent_to_init :: "cred \<Rightarrow> cred" where
  "cap_task_reparent_to_init p =
     p\<lparr>cap_effective := CAP_INIT_EFF_SET, cap_inheritable := CAP_INIT_INH_SET,
       cap_permitted := CAP_FULL_SET, keep_capabilities := False\<rparr>"

definition cap_syslog :: "capable_hook \<Rightarrow> int \<Rightarrow> cred \<Rightarrow> cred \<times> errno" where
  "cap_syslog sc ty current =
     (case or_capable (\<not> (ty \<noteq> 3 \<and> ty \<noteq> 10)) sc CAP_SYS_ADMIN current of
        (t, ok) \<Rightarrow> (t, if \<not> ok then - EPERM else 0))"

text \<open>\<open>__vm_enough_memory\<close> is the argument \<open>enough\<close>.\<close>

definition cap_vm_enough_memory :: "(int \<Rightarrow> int \<Rightarrow> errno) \<Rightarrow> cred \<Rightarrow> int \<Rightarrow> errno" where
  "cap_vm_enough_memory enough current pages =
     (let cap_sys_admin = (if cap_capable current CAP_SYS_ADMIN = 0 then 1 else 0)
      in enough pages cap_sys_admin)"

section \<open>The fallback hooks of \<open>security/dummy.c\<close>\<close>

definition dummy_capget ::
  "globals \<Rightarrow> cred \<Rightarrow> kernel_cap_t \<times> kernel_cap_t \<times> kernel_cap_t \<times> errno" where
  "dummy_capget g target =
     (if \<not> issecure g SECURE_NOROOT then
        let (eff1, per1) =
              (if euid target = 0
               then (NOT 0 AND NOT (CAP_TO_MASK CAP_SETPCAP) AND NOT CAP_FS_MASK, NOT 0 AND NOT CAP_FS_MASK)
               else (0, 0));
            (eff2, per2) =
              (if fsuid target = 0 then (eff1 OR CAP_FS_MASK, per1 OR CAP_FS_MASK) else (eff1, per1))
        in (eff2, 0, per2, 0)
      else (0, 0, 0, 0))"

text \<open>The two calls of \<open>dummy_capget\<close> that overwrite the sets of \<open>current\<close> in place.\<close>

definition dummy_reset_caps :: "globals \<Rightarrow> cred \<Rightarrow> cred" where
  "dummy_reset_caps g t =
     (case dummy_capget g t of (e, i, p, _) \<Rightarrow>
        t\<lparr>cap_effective := e, cap_inheritable := i, cap_permitted := p\<rparr>)"

definition dummy_capset_check ::
  "cred \<Rightarrow> cred \<Rightarrow> kernel_cap_t \<Rightarrow> kernel_cap_t \<Rightarrow> kernel_cap_t \<Rightarrow> errno" where
  "dummy_capset_check current target effective inheritable permitted = - EPERM"

definition dummy_capset_set ::
  "cred \<Rightarrow> kernel_cap_t \<Rightarrow> kernel_cap_t \<Rightarrow> kernel_cap_t \<Rightarrow> cred" where
  "dummy_capset_set target effective inheritable permitted = target"

definition dummy_capable :: capable_hook where
  "dummy_capable tsk cap = (if cap_raised (cap_effective tsk) cap then 0 else - EPERM)"

definition dummy_bprm_set_security :: "globals \<Rightarrow> cred \<Rightarrow> linux_binprm \<Rightarrow> linux_binprm \<times> errno" where
  "dummy_bprm_set_security g current bprm = (bprm, 0)"

definition dummy_bprm_apply_creds ::
  "capable_hook \<Rightarrow> globals \<Rightarrow> linux_binprm \<Rightarrow> u32 \<Rightarrow> cred \<Rightarrow> linux_binprm \<times> cred" where
  "dummy_bprm_apply_creds sc g b unsafe t =
     (let (b1, t1) =
        (if e_uid b \<noteq> uid t \<or> e_gid b \<noteq> gid t then
           let t' = t\<lparr>dumpable := suid_dumpable g\<rparr> in
           case or_capable (\<not> unsafe AND NOT LSM_UNSAFE_PTRACE_CAP \<noteq> 0) sc CAP_SETUID t' of (t'', ok) \<Rightarrow>
             (if \<not> ok then (b\<lparr>e_uid := uid t'', e_gid := gid t''\<rparr>, t'') else (b, t''))
         else (b, t));
        t2 = t1\<lparr>suid := e_uid b1, euid := e_uid b1, fsuid := e_uid b1,
                sgid := e_gid b1, egid := e_gid b1, fsgid := e_gid b1\<rparr>
      in (b1, dummy_reset_caps g t2))"

definition dummy_task_setuid :: "u32 \<Rightarrow> u32 \<Rightarrow> u32 \<Rightarrow> u32 \<Rightarrow> errno" where
  "dummy_task_setuid id0 id1 id2 flg = 0"

definition dummy_task_post_setuid ::
  "globals \<Rightarrow> u32 \<Rightarrow> u32 \<Rightarrow> u32 \<Rightarrow> u32 \<Rightarrow> cred \<Rightarrow> cred \<times> errno" where
  "dummy_task_post_setuid g id0 id1 id2 flg t = (dummy_reset_caps g t, 0)"

definition dummy_task_setgid :: "u32 \<Rightarrow> u32 \<Rightarrow> u32 \<Rightarrow> u32 \<Rightarrow> errno" where
  "dummy_task_setgid id0 id1 id2 flg = 0"

definition dummy_task_reparent_to_init :: "cred \<Rightarrow> cred" where
  "dummy_task_reparent_to_init p = p\<lparr>euid := 0, fsuid := 0\<rparr>"

section \<open>The credential hooks of a module\<close>

record cred_ops =
  op_capable :: capable_hook
  op_capget :: "globals \<Rightarrow> cred \<Rightarrow> kernel_cap_t \<times> kernel_cap_t \<times> kernel_cap_t \<times> errno"
  op_capset_check :: "cred \<Rightarrow> cred \<Rightarrow> kernel_cap_t \<Rightarrow> kernel_cap_t \<Rightarrow> kernel_cap_t \<Rightarrow> errno"
  op_capset_set :: "cred \<Rightarrow> kernel_cap_t \<Rightarrow> kernel_cap_t \<Rightarrow> kernel_cap_t \<Rightarrow> cred"
  op_task_setuid :: "u32 \<Rightarrow> u32 \<Rightarrow> u32 \<Rightarrow> u32 \<Rightarrow> errno"
  op_task_post_setuid :: "globals \<Rightarrow> u32 \<Rightarrow> u32 \<Rightarrow> u32 \<Rightarrow> u32 \<Rightarrow> cred \<Rightarrow> cred \<times> errno"
  op_task_setgid :: "u32 \<Rightarrow> u32 \<Rightarrow> u32 \<Rightarrow> u32 \<Rightarrow> errno"
  op_bprm_set_security :: "globals \<Rightarrow> cred \<Rightarrow> linux_binprm \<Rightarrow> linux_binprm \<times> errno"
  op_bprm_apply_creds ::
    "globals \<Rightarrow> linux_binprm \<Rightarrow> u32 \<Rightarrow> cred \<Rightarrow> (linux_binprm \<times> cred) outcome"

definition dummy_cred_ops :: cred_ops where
  "dummy_cred_ops =
     \<lparr>op_capable = dummy_capable, op_capget = dummy_capget,
      op_capset_check = dummy_capset_check, op_capset_set = dummy_capset_set,
      op_task_setuid = dummy_task_setuid, op_task_post_setuid = dummy_task_post_setuid,
      op_task_setgid = dummy_task_setgid, op_bprm_set_security = dummy_bprm_set_security,
      op_bprm_apply_creds = (\<lambda>g b u t. Ret (dummy_bprm_apply_creds dummy_capable g b u t))\<rparr>"

text \<open>\<open>capability_ops\<close> of \<^verbatim>\<open>security/capability.c\<close>; \<open>task_setuid\<close> and \<open>task_setgid\<close> are not set
  there and come from the fallback.\<close>

definition capability_cred_ops :: cred_ops where
  "capability_cred_ops =
     \<lparr>op_capable = cap_capable, op_capget = (\<lambda>g. cap_capget),
      op_capset_check = cap_capset_check, op_capset_set = cap_capset_set,
      op_task_setuid = dummy_task_setuid, op_task_post_setuid = cap_task_post_setuid,
      op_task_setgid = dummy_task_setgid, op_bprm_set_security = cap_bprm_set_security,
      op_bprm_apply_creds = (\<lambda>g b u t. Ret (cap_bprm_apply_creds cap_capable g b u t))\<rparr>"

text \<open>\<open>difc_security_ops\<close> sets only \<open>bprm_apply_creds\<close> of these hooks.\<close>

definition difc_apply ::
  "globals \<Rightarrow> linux_binprm \<Rightarrow> u32 \<Rightarrow> cred \<Rightarrow> (linux_binprm \<times> cred) outcome" where
  "difc_apply g b unsafe t =
     bindO (difc_bprm_apply_creds (bprm_security b) (task_struct.truncate t))
           (\<lambda>t'. Ret (b, t\<lparr>security := security t'\<rparr>))"

definition difc_cred_ops :: cred_ops where
  "difc_cred_ops = dummy_cred_ops\<lparr>op_bprm_apply_creds := difc_apply\<rparr>"

lemmas cred_ops_defs = dummy_cred_ops_def capability_cred_ops_def difc_cred_ops_def

text \<open>Default settings, for the examples.\<close>

definition sample_globals :: globals where
  "sample_globals = \<lparr>securebits = SECUREBITS_DEFAULT, cap_bset = CAP_INIT_EFF_SET,
     suid_dumpable = 0, processes = (\<lambda>_. 1), rlim_nproc = 1024\<rparr>"

end
