(* ===== verification/Setid.thy ===== *)
theory Setid
  imports Creds
begin

text \<open>
  The identity system calls of \<^verbatim>\<open>kernel/sys.c\<close>, parameterised by the credential hooks of the
  active security module. \<open>aok\<close> is the result of the allocation in \<open>alloc_uid\<close>. An id of
  \<open>- 1\<close> is the C value \<open>(uid_t) -1\<close>, \<^emph>\<open>leave unchanged\<close>. Key rings
  (\<open>key_fsuid_changed\<close>, \<open>suid_keys\<close>) and the process event connector are outside the model.

  The lemmas show that a task without the privilege can only move between the identities it
  already has, under every module whose hooks obey a small contract.
\<close>

lemma issecure_cong: "securebits g = securebits h \<Longrightarrow> issecure g X = issecure h X"
  unfolding issecure_def by (simp only:)

section \<open>Switching the real user\<close>

definition switch_uid :: "u32 \<Rightarrow> globals \<Rightarrow> cred \<Rightarrow> globals \<times> cred" where
  "switch_uid new_user g t =
     (let old_user = user t;
          p1 = (processes g)(new_user := processes g new_user + 1);
          p2 = p1(old_user := p1 old_user - 1)
      in (g\<lparr>processes := p2\<rparr>, t\<lparr>user := new_user\<rparr>))"

definition set_user :: "bool \<Rightarrow> u32 \<Rightarrow> bool \<Rightarrow> globals \<Rightarrow> cred \<Rightarrow> globals \<times> cred \<times> errno" where
  "set_user aok new_ruid dumpclear g t =
     (if \<not> aok then (g, t, - EAGAIN)
      else if processes g new_ruid \<ge> rlim_nproc g \<and> new_ruid \<noteq> 0 then (g, t, - EAGAIN)
      else case switch_uid new_ruid g t of (g1, t1) \<Rightarrow>
        let t2 = (if dumpclear then t1\<lparr>dumpable := suid_dumpable g1\<rparr> else t1)
        in (g1, t2\<lparr>uid := new_ruid\<rparr>, 0))"

section \<open>User ids\<close>

definition sys_setreuid ::
  "cred_ops \<Rightarrow> bool \<Rightarrow> u32 \<Rightarrow> u32 \<Rightarrow> globals \<Rightarrow> cred \<Rightarrow> globals \<times> cred \<times> errno" where
  "sys_setreuid ops aok ru eu g t =
     (let rv = op_task_setuid ops ru eu (- 1) LSM_SETID_RE in
      if rv \<noteq> 0 then (g, t, rv) else
      let old_ruid = uid t; old_euid = euid t; old_suid = suid t in
      case or_capable (ru = - 1 \<or> old_ruid = ru \<or> euid t = ru) (op_capable ops) CAP_SETUID t
      of (t1, ok1) \<Rightarrow> if \<not> ok1 then (g, t1, - EPERM) else
      (case or_capable (eu = - 1 \<or> old_ruid = eu \<or> euid t1 = eu \<or> suid t1 = eu)
              (op_capable ops) CAP_SETUID t1
       of (t2, ok2) \<Rightarrow> if \<not> ok2 then (g, t2, - EPERM) else
       let new_ruid = (if ru \<noteq> - 1 then ru else old_ruid);
           new_euid = (if eu \<noteq> - 1 then eu else old_euid) in
       (case (if new_ruid \<noteq> old_ruid then set_user aok new_ruid (new_euid \<noteq> old_euid) g t2
              else (g, t2, 0))
        of (g3, t3, rv3) \<Rightarrow> if rv3 < 0 then (g3, t3, - EAGAIN) else
        let t4 = (if new_euid \<noteq> old_euid then t3\<lparr>dumpable := suid_dumpable g3\<rparr> else t3);
            t5 = t4\<lparr>euid := new_euid, fsuid := new_euid\<rparr>;
            t6 = (if ru \<noteq> - 1 \<or> (eu \<noteq> - 1 \<and> eu \<noteq> old_ruid) then t5\<lparr>suid := euid t5\<rparr> else t5);
            t7 = t6\<lparr>fsuid := euid t6\<rparr>
        in (g3, op_task_post_setuid ops g3 old_ruid old_euid old_suid LSM_SETID_RE t7))))"

definition sys_setuid ::
  "cred_ops \<Rightarrow> bool \<Rightarrow> u32 \<Rightarrow> globals \<Rightarrow> cred \<Rightarrow> globals \<times> cred \<times> errno" where
  "sys_setuid ops aok ui g t =
     (let rv = op_task_setuid ops ui (- 1) (- 1) LSM_SETID_ID in
      if rv \<noteq> 0 then (g, t, rv) else
      let old_euid = euid t; old_ruid = uid t; old_suid = suid t in
      case capable (op_capable ops) t CAP_SETUID of (t1, ok) \<Rightarrow>
      (case (if ok then
               (case (if ui \<noteq> old_ruid then set_user aok ui (old_euid \<noteq> ui) g t1 else (g, t1, 0))
                of (g2, t2, rv2) \<Rightarrow> (g2, t2, if rv2 < 0 then - EAGAIN else 0, ui))
             else if ui \<noteq> uid t1 \<and> ui \<noteq> old_suid then (g, t1, - EPERM, old_suid)
             else (g, t1, 0, old_suid))
       of (g3, t3, err, new_suid) \<Rightarrow> if err \<noteq> 0 then (g3, t3, err) else
       let t4 = (if old_euid \<noteq> ui then t3\<lparr>dumpable := suid_dumpable g3\<rparr> else t3);
           t5 = t4\<lparr>euid := ui, fsuid := ui, suid := new_suid\<rparr>
       in (g3, op_task_post_setuid ops g3 old_ruid old_euid old_suid LSM_SETID_ID t5)))"

text \<open>An id an unprivileged \<open>setresuid\<close> may ask for.\<close>

definition among :: "u32 \<Rightarrow> u32 \<Rightarrow> u32 \<Rightarrow> u32 \<Rightarrow> bool" where
  "among i r e s \<longleftrightarrow> \<not> (i \<noteq> - 1 \<and> i \<noteq> r \<and> i \<noteq> e \<and> i \<noteq> s)"

definition sys_setresuid ::
  "cred_ops \<Rightarrow> bool \<Rightarrow> u32 \<Rightarrow> u32 \<Rightarrow> u32 \<Rightarrow> globals \<Rightarrow> cred \<Rightarrow> globals \<times> cred \<times> errno" where
  "sys_setresuid ops aok ru eu su g t =
     (let old_ruid = uid t; old_euid = euid t; old_suid = suid t;
          rv = op_task_setuid ops ru eu su LSM_SETID_RES in
      if rv \<noteq> 0 then (g, t, rv) else
      case capable (op_capable ops) t CAP_SETUID of (t1, ok) \<Rightarrow>
      if \<not> ok \<and> \<not> among ru (uid t1) (euid t1) (suid t1) then (g, t1, - EPERM)
      else if \<not> ok \<and> \<not> among eu (uid t1) (euid t1) (suid t1) then (g, t1, - EPERM)
      else if \<not> ok \<and> \<not> among su (uid t1) (euid t1) (suid t1) then (g, t1, - EPERM)
      else
      (case (if ru \<noteq> - 1 \<and> ru \<noteq> uid t1 then set_user aok ru (eu \<noteq> euid t1) g t1 else (g, t1, 0))
       of (g2, t2, rv2) \<Rightarrow> if rv2 < 0 then (g2, t2, - EAGAIN) else
       let t3 = (if eu \<noteq> - 1 then
                   (if eu \<noteq> euid t2 then t2\<lparr>dumpable := suid_dumpable g2\<rparr> else t2)\<lparr>euid := eu\<rparr>
                 else t2);
           t4 = t3\<lparr>fsuid := euid t3\<rparr>;
           t5 = (if su \<noteq> - 1 then t4\<lparr>suid := su\<rparr> else t4)
       in (g2, op_task_post_setuid ops g2 old_ruid old_euid old_suid LSM_SETID_RES t5)))"

definition sys_setfsuid ::
  "cred_ops \<Rightarrow> u32 \<Rightarrow> globals \<Rightarrow> cred \<Rightarrow> cred \<times> int" where
  "sys_setfsuid ops ui g t =
     (let old_fsuid = fsuid t in
      if op_task_setuid ops ui (- 1) (- 1) LSM_SETID_FS \<noteq> 0 then (t, sint old_fsuid) else
      case or_capable (ui = uid t \<or> ui = euid t \<or> ui = suid t \<or> ui = fsuid t)
             (op_capable ops) CAP_SETUID t
      of (t1, ok) \<Rightarrow>
      let t2 = (if ok then
                  (if ui \<noteq> old_fsuid then t1\<lparr>dumpable := suid_dumpable g\<rparr> else t1)\<lparr>fsuid := ui\<rparr>
                else t1)
      in (fst (op_task_post_setuid ops g old_fsuid (- 1) (- 1) LSM_SETID_FS t2), sint old_fsuid))"

section \<open>Group ids\<close>

definition sys_setregid ::
  "cred_ops \<Rightarrow> u32 \<Rightarrow> u32 \<Rightarrow> globals \<Rightarrow> cred \<Rightarrow> cred \<times> errno" where
  "sys_setregid ops rg eg g t =
     (let old_rgid = gid t; old_egid = egid t;
          rv = op_task_setgid ops rg eg (- 1) LSM_SETID_RE in
      if rv \<noteq> 0 then (t, rv) else
      case or_capable (rg = - 1 \<or> old_rgid = rg \<or> egid t = rg) (op_capable ops) CAP_SETGID t
      of (t1, ok1) \<Rightarrow> if \<not> ok1 then (t1, - EPERM) else
      (case or_capable (eg = - 1 \<or> old_rgid = eg \<or> egid t1 = eg \<or> sgid t1 = eg)
              (op_capable ops) CAP_SETGID t1
       of (t2, ok2) \<Rightarrow> if \<not> ok2 then (t2, - EPERM) else
       let new_rgid = (if rg \<noteq> - 1 then rg else old_rgid);
           new_egid = (if eg \<noteq> - 1 then eg else old_egid);
           t3 = (if new_egid \<noteq> old_egid then t2\<lparr>dumpable := suid_dumpable g\<rparr> else t2);
           t4 = (if rg \<noteq> - 1 \<or> (eg \<noteq> - 1 \<and> eg \<noteq> old_rgid) then t3\<lparr>sgid := new_egid\<rparr> else t3)
       in (t4\<lparr>fsgid := new_egid, egid := new_egid, gid := new_rgid\<rparr>, 0)))"

definition sys_setgid :: "cred_ops \<Rightarrow> u32 \<Rightarrow> globals \<Rightarrow> cred \<Rightarrow> cred \<times> errno" where
  "sys_setgid ops gi g t =
     (let old_egid = egid t;
          rv = op_task_setgid ops gi (- 1) (- 1) LSM_SETID_ID in
      if rv \<noteq> 0 then (t, rv) else
      case capable (op_capable ops) t CAP_SETGID of (t1, ok) \<Rightarrow>
      let t2 = (if old_egid \<noteq> gi then t1\<lparr>dumpable := suid_dumpable g\<rparr> else t1) in
      if ok then (t2\<lparr>gid := gi, egid := gi, sgid := gi, fsgid := gi\<rparr>, 0)
      else if gi = gid t1 \<or> gi = sgid t1 then (t2\<lparr>egid := gi, fsgid := gi\<rparr>, 0)
      else (t1, - EPERM))"

definition sys_setresgid ::
  "cred_ops \<Rightarrow> u32 \<Rightarrow> u32 \<Rightarrow> u32 \<Rightarrow> globals \<Rightarrow> cred \<Rightarrow> cred \<times> errno" where
  "sys_setresgid ops rg eg sg g t =
     (let rv = op_task_setgid ops rg eg sg LSM_SETID_RES in
      if rv \<noteq> 0 then (t, rv) else
      case capable (op_capable ops) t CAP_SETGID of (t1, ok) \<Rightarrow>
      if \<not> ok \<and> \<not> among rg (gid t1) (egid t1) (sgid t1) then (t1, - EPERM)
      else if \<not> ok \<and> \<not> among eg (gid t1) (egid t1) (sgid t1) then (t1, - EPERM)
      else if \<not> ok \<and> \<not> among sg (gid t1) (egid t1) (sgid t1) then (t1, - EPERM)
      else
       let t2 = (if eg \<noteq> - 1 then
                   (if eg \<noteq> egid t1 then t1\<lparr>dumpable := suid_dumpable g\<rparr> else t1)\<lparr>egid := eg\<rparr>
                 else t1);
           t3 = t2\<lparr>fsgid := egid t2\<rparr>;
           t4 = (if rg \<noteq> - 1 then t3\<lparr>gid := rg\<rparr> else t3);
           t5 = (if sg \<noteq> - 1 then t4\<lparr>sgid := sg\<rparr> else t4)
       in (t5, 0))"

definition sys_setfsgid :: "cred_ops \<Rightarrow> u32 \<Rightarrow> globals \<Rightarrow> cred \<Rightarrow> cred \<times> int" where
  "sys_setfsgid ops gi g t =
     (let old_fsgid = fsgid t in
      if op_task_setgid ops gi (- 1) (- 1) LSM_SETID_FS \<noteq> 0 then (t, sint old_fsgid) else
      case or_capable (gi = gid t \<or> gi = egid t \<or> gi = sgid t \<or> gi = fsgid t)
             (op_capable ops) CAP_SETGID t
      of (t1, ok) \<Rightarrow>
      (if ok then
         (if gi \<noteq> old_fsgid then t1\<lparr>dumpable := suid_dumpable g\<rparr> else t1)\<lparr>fsgid := gi\<rparr>
       else t1, sint old_fsgid))"

definition prctl_set_keepcaps :: "u32 \<Rightarrow> cred \<Rightarrow> cred \<times> errno" where
  "prctl_set_keepcaps arg2 t =
     (if arg2 \<noteq> 0 \<and> arg2 \<noteq> 1 then (t, - EINVAL) else (t\<lparr>keep_capabilities := arg2 = 1\<rparr>, 0))"

section \<open>Sequences of identity calls\<close>

text \<open>One call of a task, with any arguments.\<close>

inductive setid_step :: "cred_ops \<Rightarrow> globals \<times> cred \<Rightarrow> globals \<times> cred \<Rightarrow> bool" for ops where
  step_setuid: "sys_setuid ops aok ui g t = (g', t', r) \<Longrightarrow> setid_step ops (g, t) (g', t')"
| step_setreuid: "sys_setreuid ops aok ru eu g t = (g', t', r) \<Longrightarrow> setid_step ops (g, t) (g', t')"
| step_setresuid:
    "sys_setresuid ops aok ru eu su g t = (g', t', r) \<Longrightarrow> setid_step ops (g, t) (g', t')"
| step_setfsuid: "sys_setfsuid ops ui g t = (t', r) \<Longrightarrow> setid_step ops (g, t) (g, t')"
| step_setgid: "sys_setgid ops gi g t = (t', r) \<Longrightarrow> setid_step ops (g, t) (g, t')"
| step_setregid: "sys_setregid ops rg eg g t = (t', r) \<Longrightarrow> setid_step ops (g, t) (g, t')"
| step_setresgid: "sys_setresgid ops rg eg sg g t = (t', r) \<Longrightarrow> setid_step ops (g, t) (g, t')"
| step_setfsgid: "sys_setfsgid ops gi g t = (t', r) \<Longrightarrow> setid_step ops (g, t) (g, t')"
| step_keepcaps: "prctl_set_keepcaps a t = (t', r) \<Longrightarrow> setid_step ops (g, t) (g, t')"

definition user_ids :: "cred \<Rightarrow> u32 set" where
  "user_ids t = {uid t, euid t, suid t, fsuid t}"

text \<open>The part of a task the user id calls decide: everything else is untouched below.\<close>

definition same_ids :: "cred \<Rightarrow> cred \<Rightarrow> bool" where
  "same_ids t t' \<longleftrightarrow> uid t' = uid t \<and> euid t' = euid t \<and> suid t' = suid t \<and> fsuid t' = fsuid t"

definition same_caps :: "cred \<Rightarrow> cred \<Rightarrow> bool" where
  "same_caps t t' \<longleftrightarrow> cap_effective t' = cap_effective t \<and> cap_permitted t' = cap_permitted t \<and>
     keep_capabilities t' = keep_capabilities t"

lemma or_capable_cases:
  assumes "or_capable b sc cap t = (t', ok)"
  shows "(ok \<and> b \<and> t' = t) \<or> (ok \<and> \<not> b \<and> sc t cap = 0 \<and> t' = t\<lparr>superpriv := True\<rparr>) \<or>
         (\<not> ok \<and> \<not> b \<and> sc t cap \<noteq> 0 \<and> t' = t)"
  using assms by (auto simp: or_capable_def capable_def do_capable_def split: if_splits)

lemma capable_cases:
  assumes "capable sc t cap = (t', ok)"
  shows "(ok \<and> sc t cap = 0 \<and> t' = t\<lparr>superpriv := True\<rparr>) \<or> (\<not> ok \<and> sc t cap \<noteq> 0 \<and> t' = t)"
  using assms by (auto simp: capable_def do_capable_def split: if_splits)

lemma set_user_cases:
  assumes "set_user aok u d g t = (g', t', r)"
  shows "(r = - EAGAIN \<and> g' = g \<and> t' = t) \<or>
         (r = 0 \<and> uid t' = u \<and> euid t' = euid t \<and> suid t' = suid t \<and> fsuid t' = fsuid t \<and>
          same_caps t t')"
  using assms by (auto simp: set_user_def switch_uid_def same_caps_def Let_def split: if_splits)

text \<open>A task whose user ids lie in \<open>S\<close> and whose effective capabilities lie in \<open>E\<close>.\<close>

definition confined :: "u32 set \<Rightarrow> kernel_cap_t \<Rightarrow> cred \<Rightarrow> bool" where
  "confined S E t \<longleftrightarrow> user_ids t \<subseteq> S \<and> cap_issubset (cap_effective t) E"

lemma confined_same:
  "confined S E t \<Longrightarrow> same_ids t t' \<Longrightarrow> same_caps t t' \<Longrightarrow> confined S E t'"
  by (auto simp: confined_def user_ids_def same_ids_def same_caps_def)

lemma capable_denied: "sc t k \<noteq> 0 \<Longrightarrow> capable sc t k = (t, False)"
  by (simp add: capable_def do_capable_def)

lemma or_capable_denied: "sc t k \<noteq> 0 \<Longrightarrow> or_capable b sc k t = (t, b)"
  by (simp add: or_capable_def capable_denied)

text \<open>A task that is refused the capability ends up with ids it had before, and its capability
  sets are changed by the module's hook only.\<close>

definition moved :: "cred_ops \<Rightarrow> cred \<Rightarrow> cred \<Rightarrow> bool" where
  "moved ops t t' \<longleftrightarrow>
     (\<exists>x. user_ids x \<subseteq> user_ids t \<and> cap_effective x = cap_effective t \<and>
          (t' = x \<or> (\<exists>g a b c f. t' = fst (op_task_post_setuid ops g a b c f x))))"

lemma moved_plain:
  "user_ids x \<subseteq> user_ids t \<Longrightarrow> cap_effective x = cap_effective t \<Longrightarrow> moved ops t x"
  by (auto simp: moved_def)

lemma moved_post:
  "op_task_post_setuid ops g a b c f x = (t', r) \<Longrightarrow> user_ids x \<subseteq> user_ids t \<Longrightarrow>
   cap_effective x = cap_effective t \<Longrightarrow> moved ops t t'"
  unfolding moved_def by (metis fst_conv)

lemma moved_fst:
  "user_ids x \<subseteq> user_ids t \<Longrightarrow> cap_effective x = cap_effective t \<Longrightarrow>
   moved ops t (fst (op_task_post_setuid ops g a b c f x))"
  unfolding moved_def by blast

lemma setuid_moved:
  assumes "sys_setuid ops aok ui g t = (g', t', r)" and "op_capable ops t CAP_SETUID \<noteq> 0"
  shows "moved ops t t'"
  using assms
  by (auto simp: sys_setuid_def Let_def capable_denied user_ids_def EPERM_def split: if_splits
      intro!: moved_plain elim!: moved_post)

lemma setreuid_moved:
  assumes "sys_setreuid ops aok ru eu g t = (g', t', r)" and "op_capable ops t CAP_SETUID \<noteq> 0"
  shows "moved ops t t'"
  using assms
  by (auto simp: sys_setreuid_def Let_def or_capable_denied user_ids_def same_caps_def 
      split: if_splits prod.splits intro!: moved_plain elim!: moved_post dest!: set_user_cases)

lemma setresuid_moved:
  assumes "sys_setresuid ops aok ru eu su g t = (g', t', r)" and "op_capable ops t CAP_SETUID \<noteq> 0"
  shows "moved ops t t'"
  using assms
  by (auto simp: sys_setresuid_def Let_def capable_denied among_def user_ids_def same_caps_def
      split: if_splits prod.splits intro!: moved_plain elim!: moved_post dest!: set_user_cases)

lemma setfsuid_moved:
  assumes "sys_setfsuid ops ui g t = (t', r)" and "op_capable ops t CAP_SETUID \<noteq> 0"
  shows "moved ops t t'"
  using assms
  by (auto simp: sys_setfsuid_def Let_def or_capable_denied user_ids_def
      split: if_splits prod.splits intro!: moved_plain moved_fst)

text \<open>The group calls do not touch user ids or capabilities.\<close>

lemma setgid_moved: "sys_setgid ops gi g t = (t', r) \<Longrightarrow> moved ops t t'"
  by (auto simp: sys_setgid_def Let_def user_ids_def split: if_splits prod.splits
      intro!: moved_plain dest!: capable_cases)

lemma setregid_moved: "sys_setregid ops rg eg g t = (t', r) \<Longrightarrow> moved ops t t'"
  by (auto simp: sys_setregid_def Let_def user_ids_def split: if_splits prod.splits
      intro!: moved_plain dest!: or_capable_cases)

lemma setresgid_moved: "sys_setresgid ops rg eg sg g t = (t', r) \<Longrightarrow> moved ops t t'"
  by (auto simp: sys_setresgid_def Let_def user_ids_def split: if_splits prod.splits
      intro!: moved_plain dest!: capable_cases)

lemma setfsgid_moved: "sys_setfsgid ops gi g t = (t', r) \<Longrightarrow> moved ops t t'"
  by (auto simp: sys_setfsgid_def Let_def user_ids_def split: if_splits prod.splits
      intro!: moved_plain dest!: or_capable_cases)

lemma keepcaps_moved: "prctl_set_keepcaps a t = (t', r) \<Longrightarrow> moved ops t t'"
  by (auto simp: prctl_set_keepcaps_def user_ids_def split: if_splits intro!: moved_plain)

lemma setid_step_moved:
  assumes "setid_step ops s s'" and "op_capable ops (snd s) CAP_SETUID \<noteq> 0"
  shows "moved ops (snd s) (snd s')"
  using assms
  by cases (auto dest: setuid_moved setreuid_moved setresuid_moved setfsuid_moved setgid_moved
      setregid_moved setresgid_moved setfsgid_moved keepcaps_moved)

text \<open>What a module promises: the question \<open>capable\<close> is about the effective set; the hook after
  a change leaves the identities alone, and for a task outside root it adds no effective
  capability.\<close>

locale uid_module =
  fixes ops :: cred_ops
  assumes capable_bit: "op_capable ops t k = 0 \<longleftrightarrow> bit (cap_effective t) k"
    and post_ids: "same_ids t (fst (op_task_post_setuid ops g a b c f t))"
    and post_caps: "euid t \<noteq> 0 \<Longrightarrow> fsuid t \<noteq> 0 \<Longrightarrow>
      cap_issubset (cap_effective (fst (op_task_post_setuid ops g a b c f t))) (cap_effective t)"
begin

lemma confined_post:
  assumes "confined S E t" and "0 \<notin> S"
  shows "confined S E (fst (op_task_post_setuid ops g a b c f t))"
proof -
  have "euid t \<noteq> 0" "fsuid t \<noteq> 0" using assms by (auto simp: confined_def user_ids_def)
  then have "cap_issubset (cap_effective (fst (op_task_post_setuid ops g a b c f t))) E"
    using post_caps assms(1) by (meson cap_issubset_trans confined_def)
  then show ?thesis
    using assms(1) post_ids [of t g a b c f] by (auto simp: confined_def user_ids_def same_ids_def)
qed

lemma step_confined:
  assumes "setid_step ops s s'" and "confined S E (snd s)" and "0 \<notin> S" and "\<not> bit E CAP_SETUID"
  shows "confined S E (snd s')"
proof -
  have "op_capable ops (snd s) CAP_SETUID \<noteq> 0"
    using assms(2,4) by (auto simp: confined_def cap_issubset_bits capable_bit)
  then have "moved ops (snd s) (snd s')" using setid_step_moved [OF assms(1)] by simp
  then obtain x where x: "user_ids x \<subseteq> user_ids (snd s)" "cap_effective x = cap_effective (snd s)"
    and s': "snd s' = x \<or> (\<exists>g a b c f. snd s' = fst (op_task_post_setuid ops g a b c f x))"
    unfolding moved_def by (elim exE conjE) simp
  have "confined S E x" using x assms(2) by (auto simp: confined_def)
  then show ?thesis using s' confined_post assms(3) by auto
qed

lemma reachable_confined:
  assumes "(setid_step ops)\<^sup>*\<^sup>* s s'" and "confined S E (snd s)" and "0 \<notin> S"
    and "\<not> bit E CAP_SETUID"
  shows "confined S E (snd s')"
  using assms(1) by induction (use assms step_confined in blast)+

end

text \<open>A module that also takes the capabilities away when the last id of root is given up.\<close>

locale dropping_module = uid_module +
  assumes post_drop: "\<not> issecure g SECURE_NO_SETUID_FIXUP \<Longrightarrow> a = 0 \<or> b = 0 \<or> c = 0 \<Longrightarrow>
      \<not> keep_capabilities t \<Longrightarrow> 0 \<notin> user_ids t \<Longrightarrow>
      cap_effective (fst (op_task_post_setuid ops g a b c LSM_SETID_ID t)) = 0"
begin

lemma setuid_drops:
  assumes "sys_setuid ops aok ui g t = (g', t', 0)" and "cap_raised (cap_effective t) CAP_SETUID"
    and "\<not> issecure g SECURE_NO_SETUID_FIXUP" and "0 \<in> {uid t, euid t, suid t}"
    and "\<not> keep_capabilities t" and "ui \<noteq> 0"
  shows "user_ids t' = {ui} \<and> cap_effective t' = 0"
proof -
  have ok: "op_capable ops t CAP_SETUID = 0" using assms(2) by (simp add: capable_bit cap_raised_bit)
  obtain g1 x r where x: "op_task_post_setuid ops g1 (uid t) (euid t) (suid t) LSM_SETID_ID x = (t', r)"
    and u: "user_ids x = {ui}" and k: "\<not> keep_capabilities x" and s: "securebits g1 = securebits g"
    using assms(1,5) ok
    by (auto simp: sys_setuid_def Let_def capable_def do_capable_def user_ids_def set_user_def
        switch_uid_def EAGAIN_def split: if_splits prod.splits)
  have "\<not> issecure g1 SECURE_NO_SETUID_FIXUP" using assms(3) issecure_cong [OF s] by simp
  then have "cap_effective t' = 0"
    using post_drop [of g1 "uid t" "euid t" "suid t" x] u k x assms(4,6) by auto
  moreover have "same_ids x t'" using post_ids [of x g1 "uid t" "euid t" "suid t" LSM_SETID_ID] x by simp
  ultimately show ?thesis using u by (auto simp: user_ids_def same_ids_def)
qed

lemma setuid_drop_permanent:
  assumes "sys_setuid ops aok ui g t = (g1, t1, 0)" and "cap_raised (cap_effective t) CAP_SETUID"
    and "\<not> issecure g SECURE_NO_SETUID_FIXUP" and "0 \<in> {uid t, euid t, suid t}"
    and "\<not> keep_capabilities t" and "ui \<noteq> 0" and "(setid_step ops)\<^sup>*\<^sup>* (g1, t1) (g2, t2)"
  shows "user_ids t2 = {ui} \<and> cap_effective t2 = 0"
proof -
  have "confined {ui} 0 t1" using setuid_drops [OF assms(1-6)] by (simp add: confined_def)
  then have "confined {ui} 0 t2" using reachable_confined [OF assms(7)] assms(6) by simp
  then show ?thesis by (auto simp: confined_def user_ids_def cap_issubset_def)
qed

end

section \<open>The modules of the repository\<close>

lemma dummy_reset_ids [simp]: "same_ids t (dummy_reset_caps g t)"
  by (simp add: same_ids_def dummy_reset_caps_def split: prod.split)

lemma dummy_reset_clear:
  "euid t \<noteq> 0 \<Longrightarrow> fsuid t \<noteq> 0 \<Longrightarrow> cap_effective (dummy_reset_caps g t) = 0"
  by (simp add: dummy_reset_caps_def dummy_capget_def)

lemma cap_post_ids: "same_ids t (fst (cap_task_post_setuid g a b c f t))"
  by (simp add: same_ids_def cap_task_post_setuid_def cap_emulate_setxuid_def Let_def)

lemma cap_issubset_masked: "cap_issubset (c AND m) c"
  by (simp add: cap_issubset_bits bit_and_iff)

lemma cap_post_caps:
  assumes "euid t \<noteq> 0" "fsuid t \<noteq> 0"
  shows "cap_issubset (cap_effective (fst (cap_task_post_setuid g a b c f t))) (cap_effective t)"
  using assms
  by (simp add: cap_task_post_setuid_def cap_emulate_setxuid_def Let_def cap_issubset_masked)

lemma cap_post_drop:
  assumes "\<not> issecure g SECURE_NO_SETUID_FIXUP" "a = 0 \<or> b = 0 \<or> c = 0" "\<not> keep_capabilities t"
    "0 \<notin> user_ids t"
  shows "cap_effective (fst (cap_task_post_setuid g a b c LSM_SETID_ID t)) = 0"
  using assms
  by (auto simp: cap_task_post_setuid_def cap_emulate_setxuid_def user_ids_def Let_def)

lemma raised_iff_0: "(if cap_raised c k then 0 else - EPERM) = 0 \<longleftrightarrow> bit c k"
  by (simp add: cap_raised_bit EPERM_def)

interpretation dummy_uid: dropping_module dummy_cred_ops
  by unfold_locales
     (auto simp: dummy_cred_ops_def dummy_capable_def raised_iff_0 dummy_task_post_setuid_def
        dummy_reset_clear user_ids_def)

interpretation cap_uid: dropping_module capability_cred_ops
  by unfold_locales
     (auto simp: capability_cred_ops_def cap_capable_def raised_iff_0 cap_post_ids cap_post_caps
        cap_post_drop)

interpretation difc_uid: dropping_module difc_cred_ops
  by unfold_locales
     (auto simp: difc_cred_ops_def dummy_cred_ops_def dummy_capable_def raised_iff_0
        dummy_task_post_setuid_def dummy_reset_clear user_ids_def)

definition sample_root :: cred where
  "sample_root =
     \<lparr>uid = 0, security = None, pid = 7, user = 0, euid = 0, suid = 0, fsuid = 0,
      gid = 0, egid = 0, sgid = 0, fsgid = 0, cap_effective = CAP_INIT_EFF_SET,
      cap_inheritable = 0, cap_permitted = CAP_FULL_SET, keep_capabilities = False,
      superpriv = False, dumpable = 1, personality = 0, pdeath_signal = 0, ptrace = 0,
      fs_count = 1, files_count = 1, sighand_count = 1\<rparr>"

text \<open>C28: Giving up root with \<open>setuid\<close> is final. A task that holds \<open>CAP_SETUID\<close>, has a root id and
  does not keep its capabilities calls \<open>setuid(u)\<close> for an ordinary \<open>u\<close> and gets 0. Then under
  each of the three modules no sequence of later identity calls, with any arguments, changes
  any of its four user ids again or gives it an effective capability.
\<close>

theorem setuid_drop_is_final:
  assumes "ops \<in> {dummy_cred_ops, capability_cred_ops, difc_cred_ops}"
    and "sys_setuid ops aok ui g t = (g1, t1, 0)" and "cap_raised (cap_effective t) CAP_SETUID"
    and "\<not> issecure g SECURE_NO_SETUID_FIXUP" and "0 \<in> {uid t, euid t, suid t}"
    and "\<not> keep_capabilities t" and "ui \<noteq> 0" and "(setid_step ops)\<^sup>*\<^sup>* (g1, t1) (g2, t2)"
  shows "user_ids t2 = {ui} \<and> cap_effective t2 = 0"
  using assms(1) dummy_uid.setuid_drop_permanent [OF _ assms(3-7)]
    cap_uid.setuid_drop_permanent [OF _ assms(3-7)] difc_uid.setuid_drop_permanent [OF _ assms(3-7)]
    assms(2,8) by auto

theorem setuid_drop_is_final_witness:
  "\<exists>g1 t1 g2 t2. sys_setuid capability_cred_ops True 1000 sample_globals sample_root = (g1, t1, 0) \<and>
     sys_setreuid capability_cred_ops True 0 0 g1 t1 = (g2, t2, - EPERM) \<and> user_ids t2 = {1000}"
proof -
  have s: "issecure sample_globals SECURE_NO_SETUID_FIXUP = False"
    by (simp add: issecure_def sample_globals_def SECUREBITS_DEFAULT_def)
  have c: "cap_raised (cap_effective sample_root) CAP_SETUID"
    by (simp add: cap_raised_def sample_root_def CAP_INIT_EFF_SET_def CAP_TO_MASK_def cap_nums)
  obtain g1 t1 where 1: "sys_setuid capability_cred_ops True 1000 sample_globals sample_root = (g1, t1, 0)"
    using c s
    by (auto simp: sys_setuid_def Let_def capability_cred_ops_def dummy_task_setuid_def capable_def
        do_capable_def cap_capable_def set_user_def switch_uid_def sample_globals_def sample_root_def
        cap_task_post_setuid_def setid_flags split: prod.split)
  have u: "user_ids t1 = {1000} \<and> cap_effective t1 = 0"
    by (rule setuid_drop_is_final [OF _ 1 c]) (use s in \<open>auto simp: sample_root_def\<close>)
  then obtain g2 t2 where 2: "sys_setreuid capability_cred_ops True 0 0 g1 t1 = (g2, t2, - EPERM)"
    by (auto simp: sys_setreuid_def Let_def capability_cred_ops_def dummy_task_setuid_def
        or_capable_def capable_def do_capable_def cap_capable_def cap_raised_def user_ids_def
        EPERM_def)
  have "(setid_step capability_cred_ops)\<^sup>*\<^sup>* (g1, t1) (g2, t2)"
    using step_setreuid [OF 2] by blast
  then have "user_ids t2 = {1000}"
    using setuid_drop_is_final [OF _ 1 c] s by (auto simp: sample_root_def)
  then show ?thesis using 1 2 by blast
qed

end
