(* ===== verification/Exec.thy ===== *)
theory Exec
  imports Creds
begin

text \<open>
  The credentials of a new program: \<open>prepare_binprm\<close>, \<open>unsafe_exec\<close> and \<open>compute_creds\<close> of
  \<^verbatim>\<open>fs/exec.c\<close> over the credential hooks of the active module. The file is its mode, owner
  and mount flag; the read of its first block is the argument \<open>kread\<close>. Key rings are outside
  the model.
\<close>

record bprm_file =
  f_mode_bits :: u32
  f_uid :: u32
  f_gid :: u32
  mnt_flags :: u32
  has_f_op :: bool

definition MNT_NOSUID :: u32 where "MNT_NOSUID = 1"
definition S_ISUID :: u32 where "S_ISUID = 0x800"
definition S_ISGID :: u32 where "S_ISGID = 0x400"
definition S_IXGRP :: u32 where "S_IXGRP = 8"
definition PER_CLEAR_ON_SETID :: u32 where "PER_CLEAR_ON_SETID = 0x0400000 OR 0x0040000"
definition PT_PTRACED :: u32 where "PT_PTRACED = 1"
definition PT_PTRACE_CAP :: u32 where "PT_PTRACE_CAP = 8"

definition prepare_binprm ::
  "cred_ops \<Rightarrow> int \<Rightarrow> bprm_file \<Rightarrow> globals \<Rightarrow> linux_binprm \<Rightarrow> cred \<Rightarrow> linux_binprm \<times> cred \<times> int" where
  "prepare_binprm ops kread f g b t =
     (if \<not> has_f_op f then (b, t, - EACCES) else
      let b0 = b\<lparr>e_uid := euid t, e_gid := egid t\<rparr>;
          (b2, t2) =
            (if mnt_flags f AND MNT_NOSUID = 0 then
               let (b1, t1) =
                     (if f_mode_bits f AND S_ISUID \<noteq> 0
                      then (b0\<lparr>e_uid := f_uid f\<rparr>, t\<lparr>personality := personality t AND NOT PER_CLEAR_ON_SETID\<rparr>)
                      else (b0, t))
               in (if f_mode_bits f AND (S_ISGID OR S_IXGRP) = (S_ISGID OR S_IXGRP)
                   then (b1\<lparr>e_gid := f_gid f\<rparr>, t1\<lparr>personality := personality t1 AND NOT PER_CLEAR_ON_SETID\<rparr>)
                   else (b1, t1))
             else (b0, t));
          (b3, rv) = op_bprm_set_security ops g t2 b2
      in if rv \<noteq> 0 then (b3, t2, rv) else (b3, t2, kread))"

definition unsafe_exec :: "cred \<Rightarrow> u32" where
  "unsafe_exec p =
     (let u1 = (if ptrace p AND PT_PTRACED \<noteq> 0
                then (if ptrace p AND PT_PTRACE_CAP \<noteq> 0 then LSM_UNSAFE_PTRACE_CAP else LSM_UNSAFE_PTRACE)
                else 0)
      in if fs_count p > 1 \<or> files_count p > 1 \<or> sighand_count p > 1
         then u1 OR LSM_UNSAFE_SHARE else u1)"

definition compute_creds ::
  "cred_ops \<Rightarrow> globals \<Rightarrow> linux_binprm \<Rightarrow> cred \<Rightarrow> (linux_binprm \<times> cred) outcome" where
  "compute_creds ops g b t =
     (let t1 = (if e_uid b \<noteq> uid t then t\<lparr>pdeath_signal := 0\<rparr> else t)
      in op_bprm_apply_creds ops g b (unsafe_exec t1) t1)"

section \<open>What the modules make of it\<close>

lemma unsafe_exec_0 [simp]:
  "ptrace t AND PT_PTRACED = 0 \<Longrightarrow> fs_count t \<le> 1 \<Longrightarrow> files_count t \<le> 1 \<Longrightarrow> sighand_count t \<le> 1 \<Longrightarrow>
   unsafe_exec t = 0"
  by (simp add: unsafe_exec_def)

lemma cap_install_euid: "euid (snd (cap_install b p t)) = e_uid b"
  by (simp add: cap_install_def Let_def)

lemma cap_apply_euid:
  "euid (snd (cap_bprm_apply_creds sc g b 0 t)) = e_uid b"
  by (simp add: cap_bprm_apply_creds_def Let_def cap_install_euid)

lemma dummy_apply_euid:
  "euid (snd (dummy_bprm_apply_creds sc g b 0 t)) = e_uid b"
  by (simp add: dummy_bprm_apply_creds_def Let_def or_capable_def dummy_reset_caps_def split: prod.split)

lemma difc_apply_cred:
  assumes "difc_apply g b u t = Ret (b', t')"
  shows "b' = b \<and> (\<exists>s. t' = t\<lparr>security := s\<rparr>)"
  using assms by (auto simp: difc_apply_def bindO_Ret_iff)

text \<open>The set-uid bit decides the id that \<open>prepare_binprm\<close> proposes.\<close>

lemma prepare_set_uid:
  assumes "prepare_binprm ops kread f g b t = (b1, t1, r)" and "0 \<le> r"
    and "mnt_flags f AND MNT_NOSUID = 0" and "f_mode_bits f AND S_ISUID \<noteq> 0"
    and "\<And>g t b. e_uid (fst (op_bprm_set_security ops g t b)) = e_uid b"
  shows "e_uid b1 = f_uid f \<and> (\<exists>p. t1 = t\<lparr>personality := p\<rparr>)"
proof -
  have "e_uid b' = e_uid b0" if "op_bprm_set_security ops g' t' b0 = (b', rv)" for g' t' b0 b' rv
    using assms(5) [of g' t' b0] that by simp
  then show ?thesis
    using assms(1-4)
    by (auto simp: prepare_binprm_def Let_def EACCES_def split: if_splits prod.splits)
qed

lemma set_security_e_uid:
  "e_uid (fst (op_bprm_set_security capability_cred_ops g t b)) = e_uid b"
  "e_uid (fst (op_bprm_set_security dummy_cred_ops g t b)) = e_uid b"
  "e_uid (fst (op_bprm_set_security difc_cred_ops g t b)) = e_uid b"
  by (simp_all add: cred_ops_defs cap_bprm_set_security_def dummy_bprm_set_security_def Let_def)

text \<open>C39: Set-uid programs under the modules. A task that is neither traced nor shares its
  state executes a set-uid file, on a file system not mounted \<open>nosuid\<close>. Under the fallback hooks and under the capability module it
  comes out with the owner of the file as effective user. The DIFC module replaces the hook
  that does this by one that only looks at the TCB label: whatever the file, the task keeps
  all its user and group ids and its capability sets.
\<close>

theorem exec_set_uid_by_module:
  assumes "mnt_flags f AND MNT_NOSUID = 0" and "f_mode_bits f AND S_ISUID \<noteq> 0"
    and "ptrace t AND PT_PTRACED = 0" and "fs_count t \<le> 1" "files_count t \<le> 1" "sighand_count t \<le> 1"
    and "prepare_binprm ops kread f g b t = (b1, t1, r)" and "0 \<le> r"
    and "compute_creds ops g b1 t1 = Ret (b2, t2)"
  shows "(ops \<in> {dummy_cred_ops, capability_cred_ops} \<longrightarrow> euid t2 = f_uid f) \<and>
    (ops = difc_cred_ops \<longrightarrow> e_uid b1 = f_uid f \<and>
      (uid t2, euid t2, suid t2, fsuid t2, gid t2, egid t2, sgid t2, fsgid t2) =
      (uid t, euid t, suid t, fsuid t, gid t, egid t, sgid t, fsgid t) \<and>
      (cap_effective t2, cap_inheritable t2, cap_permitted t2) =
      (cap_effective t, cap_inheritable t, cap_permitted t))"
proof -
  have e: "e_uid b1 = f_uid f \<and> (\<exists>p. t1 = t\<lparr>personality := p\<rparr>)"
    if "ops \<in> {dummy_cred_ops, capability_cred_ops, difc_cred_ops}"
    using prepare_set_uid [OF assms(7,8,1,2)] set_security_e_uid that by auto
  define t' where "t' = (if e_uid b1 \<noteq> uid t1 then t1\<lparr>pdeath_signal := 0\<rparr> else t1)"
  have u: "unsafe_exec t' = 0" if "\<exists>p. t1 = t\<lparr>personality := p\<rparr>"
    using that assms(3-6) by (auto simp: t'_def)
  have c: "op_bprm_apply_creds ops g b1 (unsafe_exec t') t' = Ret (b2, t2)"
    using assms(9) by (simp add: compute_creds_def t'_def Let_def)
  have "euid t2 = f_uid f" if "ops = dummy_cred_ops"
    using c e u that dummy_apply_euid [of dummy_capable g b1 t'] by (simp add: dummy_cred_ops_def)
  moreover have "euid t2 = f_uid f" if "ops = capability_cred_ops"
    using c e u that cap_apply_euid [of cap_capable g b1 t'] by (simp add: capability_cred_ops_def)
  moreover have "\<exists>s. t2 = t'\<lparr>security := s\<rparr>" if "ops = difc_cred_ops"
    using c that difc_apply_cred by (simp add: difc_cred_ops_def)
  ultimately show ?thesis using e by (auto simp: t'_def)
qed

definition sample_user_task :: cred where
  "sample_user_task =
     \<lparr>uid = 1000, security = Some zero_tsec, pid = 7, user = 1000, euid = 1000, suid = 1000, fsuid = 1000,
      gid = 100, egid = 100, sgid = 100, fsgid = 100, cap_effective = 0,
      cap_inheritable = 0, cap_permitted = 0, keep_capabilities = False,
      superpriv = False, dumpable = 1, personality = 0, pdeath_signal = 0, ptrace = 0,
      fs_count = 1, files_count = 1, sighand_count = 1\<rparr>"

definition sample_su :: bprm_file where
  "sample_su = \<lparr>f_mode_bits = 0x9ed, f_uid = 0, f_gid = 0, mnt_flags = 0, has_f_op = True\<rparr>"

definition sample_bprm :: linux_binprm where
  "sample_bprm = \<lparr>e_uid = 0, e_gid = 0, bprm_effective = 0, bprm_inheritable = 0, bprm_permitted = 0,
     bprm_security = Some \<lparr>obj_label = empty_label, label_change_sem = init_rwsem\<rparr>\<rparr>"

theorem exec_set_uid_by_module_witness:
  "\<exists>b1 t1 b2 t2.
     prepare_binprm difc_cred_ops 128 sample_su sample_globals sample_bprm sample_user_task = (b1, t1, 128) \<and>
     compute_creds difc_cred_ops sample_globals b1 t1 = Ret (b2, t2) \<and> e_uid b1 = 0 \<and> euid t2 = 1000"
proof -
  obtain b1 t1 where
    1: "prepare_binprm difc_cred_ops 128 sample_su sample_globals sample_bprm sample_user_task = (b1, t1, 128)"
    and b: "bprm_security b1 = bprm_security sample_bprm" and t: "security t1 = Some zero_tsec"
    by (simp add: prepare_binprm_def sample_su_def sample_user_task_def difc_cred_ops_def
        dummy_cred_ops_def dummy_bprm_set_security_def MNT_NOSUID_def S_ISUID_def S_ISGID_def
        S_IXGRP_def Let_def)
  obtain t2 where 2: "compute_creds difc_cred_ops sample_globals b1 t1 = Ret (b1, t2)"
    using b t
    by (cases "e_uid b1 = uid t1") (auto simp: compute_creds_def difc_cred_ops_def difc_apply_def difc_bprm_apply_creds_def
        sample_bprm_def task_struct.defs find_from.simps empty_label_def Let_def)
  show ?thesis
    using exec_set_uid_by_module [OF _ _ _ _ _ _ 1 _ 2] 1 2
    by (auto simp: sample_su_def sample_user_task_def MNT_NOSUID_def S_ISUID_def)
qed

end
