(* ===== verification/Capset.thy ===== *)
theory Capset
  imports Creds
begin

text \<open>
  The system calls on capability sets, \<^verbatim>\<open>kernel/capability.c\<close>: \<open>sys_capget\<close>, \<open>sys_capset\<close> and its
  two loops over tasks. Tasks are found by pid; \<open>threads p\<close> lists the other threads of
  the group of \<open>p\<close> in the order \<open>next_thread\<close> visits them, \<open>leaders\<close> the list that
  \<open>next_task\<close> walks, and \<open>pgrp_tasks n\<close> the list of the process group \<open>n\<close>. Reads of user
  memory are options. The calling task \<open>me\<close> is always one of the tasks. The spin lock and the task list lock are held around the loops, so
  each call is one step.
\<close>

record cap_sys =
  tasks :: "int \<Rightarrow> cred option"
  me :: int
  leaders :: "int list"
  threads :: "int \<Rightarrow> int list"
  pgrp_tasks :: "int \<Rightarrow> int list"

definition LINUX_CAPABILITY_VERSION :: u32 where "LINUX_CAPABILITY_VERSION = 0x19980330"

record cap_header =
  hdr_version :: "u32 option"
  hdr_writable :: bool
  hdr_pid :: "int option"

record cap_data =
  data_effective :: u32
  data_permitted :: u32
  data_inheritable :: u32

definition sys_capget ::
  "cred_ops \<Rightarrow> globals \<Rightarrow> cap_header \<Rightarrow> bool \<Rightarrow> cap_sys \<Rightarrow> cap_data option \<times> errno" where
  "sys_capget ops g h data_ok s =
     (case hdr_version h of None \<Rightarrow> (None, - EFAULT)
      | Some version \<Rightarrow>
        if version \<noteq> LINUX_CAPABILITY_VERSION
        then (None, if \<not> hdr_writable h then - EFAULT else - EINVAL)
        else case hdr_pid h of None \<Rightarrow> (None, - EFAULT)
        | Some p \<Rightarrow>
          if p < 0 then (None, - EINVAL)
          else case tasks s (if p \<noteq> 0 \<and> p \<noteq> me s then p else me s) of
            None \<Rightarrow> (None, - ESRCH)
          | Some target \<Rightarrow>
              (case op_capget ops g target of (e, i, pm, ret) \<Rightarrow>
               if ret \<noteq> 0 then (None, ret)
               else if \<not> data_ok then (None, - EFAULT)
               else (Some \<lparr>data_effective = e, data_permitted = pm, data_inheritable = i\<rparr>, ret)))"

section \<open>Setting the capabilities of several tasks\<close>

text \<open>The body both loops share: check one target, and set it when the check allows it.\<close>

definition capset_one ::
  "cred_ops \<Rightarrow> u32 \<Rightarrow> u32 \<Rightarrow> u32 \<Rightarrow> int \<Rightarrow> cap_sys \<Rightarrow> cap_sys \<times> errno" where
  "capset_one ops eff inh perm p s =
     (case (tasks s (me s), tasks s p) of
        (Some current, Some target) \<Rightarrow>
          let ret = op_capset_check ops current target eff inh perm in
          if ret = 0
          then (s\<lparr>tasks := (tasks s)(p \<mapsto> op_capset_set ops target eff inh perm)\<rparr>, 0)
          else (s, ret)
      | _ \<Rightarrow> (s, - ESRCH))"

primrec capset_each ::
  "cred_ops \<Rightarrow> u32 \<Rightarrow> u32 \<Rightarrow> u32 \<Rightarrow> int list \<Rightarrow> cap_sys \<Rightarrow> cap_sys \<times> bool" where
  "capset_each ops eff inh perm [] s = (s, False)"
| "capset_each ops eff inh perm (p # ps) s =
     (case capset_one ops eff inh perm p s of (s1, ret1) \<Rightarrow>
      case capset_each ops eff inh perm ps s1 of (s2, ok2) \<Rightarrow> (s2, ret1 = 0 \<or> ok2))"

text \<open>
  \<open>cap_set_pg\<close>: \<open>target = g; while_each_thread(g, target)\<close> is a \<open>while\<close> loop that steps to the next
  thread before its first round, so the body runs for the other threads of each task only.
\<close>

definition cap_set_pg ::
  "cred_ops \<Rightarrow> int \<Rightarrow> u32 \<Rightarrow> u32 \<Rightarrow> u32 \<Rightarrow> cap_sys \<Rightarrow> cap_sys \<times> errno" where
  "cap_set_pg ops pgrp_nr eff inh perm s =
     (let visited = concat (map (threads s) (pgrp_tasks s pgrp_nr)) in
      case capset_each ops eff inh perm visited s of (s', ok) \<Rightarrow>
        (s', if visited = [] then 0 else if ok then 0 else - EPERM))"

text \<open>\<open>cap_set_all\<close>: \<open>do_each_thread\<close> visits each leader and then its other threads.\<close>

definition cap_set_all ::
  "cred_ops \<Rightarrow> u32 \<Rightarrow> u32 \<Rightarrow> u32 \<Rightarrow> cap_sys \<Rightarrow> cap_sys \<times> errno" where
  "cap_set_all ops eff inh perm s =
     (let visited = filter (\<lambda>p. \<not> (p = me s \<or> p = 1)) (concat (map (\<lambda>g. g # threads s g) (leaders s))) in
      case capset_each ops eff inh perm visited s of (s', ok) \<Rightarrow>
        (s', if visited = [] then 0 else if ok then 0 else - EPERM))"

definition sys_capset ::
  "cred_ops \<Rightarrow> cap_header \<Rightarrow> cap_data option \<Rightarrow> cap_sys \<Rightarrow> cap_sys \<times> errno" where
  "sys_capset ops h dat s =
     (case hdr_version h of None \<Rightarrow> (s, - EFAULT)
      | Some version \<Rightarrow>
        if version \<noteq> LINUX_CAPABILITY_VERSION
        then (s, if \<not> hdr_writable h then - EFAULT else - EINVAL)
        else case hdr_pid h of None \<Rightarrow> (s, - EFAULT)
        | Some p \<Rightarrow>
          (case tasks s (me s) of None \<Rightarrow> (s, - ESRCH)
           | Some current \<Rightarrow>
             (case or_capable (p = 0 \<or> p = me s) (op_capable ops) CAP_SETPCAP current of (cur1, ok) \<Rightarrow>
              let s1 = s\<lparr>tasks := (tasks s)(me s \<mapsto> cur1)\<rparr> in
              if \<not> ok then (s1, - EPERM)
              else case dat of None \<Rightarrow> (s1, - EFAULT)
              | Some d \<Rightarrow>
                let eff = data_effective d; inh = data_inheritable d; perm = data_permitted d in
                if p > 0 \<and> p \<noteq> me s \<and> tasks s1 p = None then (s1, - ESRCH)
                else if p < 0 then
                  (if p = - 1 then cap_set_all ops eff inh perm s1
                   else cap_set_pg ops (- p) eff inh perm s1)
                else
                  capset_one ops eff inh perm (if p > 0 \<and> p \<noteq> me s then p else me s) s1)))"

section \<open>No task gains what the caller does not have\<close>

text \<open>
  \<open>within C s s'\<close>: every task of \<open>s'\<close> is a task of \<open>s\<close> whose permitted and inheritable sets grew by
  members of \<open>C\<close> at most, and whose effective set is within its permitted set if it was
  before.
\<close>

definition gained :: "u32 \<Rightarrow> cred \<Rightarrow> cred \<Rightarrow> bool" where
  "gained C t t' \<longleftrightarrow>
     cap_issubset (cap_permitted t') (cap_combine (cap_permitted t) C) \<and>
     cap_issubset (cap_inheritable t') (cap_combine (cap_inheritable t) C) \<and>
     (cap_issubset (cap_effective t) (cap_permitted t) \<longrightarrow> cap_issubset (cap_effective t') (cap_permitted t'))"

definition within :: "u32 \<Rightarrow> cap_sys \<Rightarrow> cap_sys \<Rightarrow> bool" where
  "within C s s' \<longleftrightarrow> me s' = me s \<and>
     (\<forall>p t'. tasks s' p = Some t' \<longrightarrow> (\<exists>t. tasks s p = Some t \<and> gained C t t'))"

lemma gained_refl: "gained C t t"
  by (simp add: gained_def cap_issubset_bits)

lemma gained_trans: "gained C t u \<Longrightarrow> gained C u v \<Longrightarrow> gained C t v"
  by (auto simp: gained_def cap_issubset_bits)

lemma within_refl: "within C s s"
  by (simp add: within_def gained_refl)

lemma within_trans: "within C s u \<Longrightarrow> within C u v \<Longrightarrow> within C s v"
  unfolding within_def using gained_trans by metis

lemma capset_check_gained:
  assumes "cap_capset_check cur t e i p = 0" and "cap_issubset (cap_permitted cur) C"
  shows "gained C t (cap_capset_set t e i p)"
  using assms
  by (auto simp: cap_capset_check_def gained_def cap_capset_set_def cap_issubset_bits EPERM_def
      split: if_splits)

text \<open>The caller's own permitted set stays within \<open>C\<close>, also when it is itself a target.\<close>

definition caller_below :: "u32 \<Rightarrow> cap_sys \<Rightarrow> bool" where
  "caller_below C s \<longleftrightarrow> (\<forall>t. tasks s (me s) = Some t \<longrightarrow> cap_issubset (cap_permitted t) C)"

lemma within_caller: "within C s s' \<Longrightarrow> caller_below C s \<Longrightarrow> caller_below C s'"
  by (fastforce simp: within_def caller_below_def gained_def cap_issubset_bits)

lemma capset_one_within:
  assumes "capset_one capability_cred_ops e i p q s = (s', r)" and "caller_below C s"
  shows "within C s s'"
proof -
  have g: "gained C t (cap_capset_set t e i p)"
    if "tasks s (me s) = Some cur" "cap_capset_check cur t e i p = 0" for cur t
    using capset_check_gained that assms(2) by (auto simp: caller_below_def)
  show ?thesis
    using assms(1) g
    by (auto simp: capset_one_def capability_cred_ops_def Let_def within_def gained_refl
        split: option.splits if_splits)
qed

lemma capset_each_within:
  assumes "capset_each capability_cred_ops e i p qs s = (s', r)" and "caller_below C s"
  shows "within C s s'"
  using assms
proof (induction qs arbitrary: s s' r)
  case Nil
  then show ?case by (simp add: within_refl)
next
  case (Cons q qs)
  obtain s1 r1 where 1: "capset_one capability_cred_ops e i p q s = (s1, r1)" by fastforce
  obtain s2 r2 where 2: "capset_each capability_cred_ops e i p qs s1 = (s2, r2)" by fastforce
  have w: "within C s s1" using capset_one_within 1 Cons.prems(2) .
  then have "within C s1 s2" using Cons.IH 2 Cons.prems(2) within_caller by blast
  then show ?case using w within_trans Cons.prems(1) 1 2 by auto
qed

lemma superpriv_within:
  assumes "or_capable b sc k cur = (cur1, ok)" and "tasks s (me s) = Some cur"
  shows "within C s (s\<lparr>tasks := (tasks s)(me s \<mapsto> cur1)\<rparr>)"
proof -
  have "cur1 = cur \<or> cur1 = cur\<lparr>superpriv := True\<rparr>"
    using assms(1) by (auto simp: or_capable_def capable_def do_capable_def split: if_splits)
  then have "gained C cur cur1" by (auto simp: gained_def cap_issubset_bits)
  then show ?thesis using assms(2) by (auto simp: within_def gained_refl)
qed

lemma set_pg_within:
  "cap_set_pg capability_cred_ops n e i p s = (s', r) \<Longrightarrow> caller_below C s \<Longrightarrow> within C s s'"
  by (auto simp: cap_set_pg_def Let_def split: prod.splits dest: capset_each_within)

lemma set_all_within:
  "cap_set_all capability_cred_ops e i p s = (s', r) \<Longrightarrow> caller_below C s \<Longrightarrow> within C s s'"
  by (auto simp: cap_set_all_def Let_def split: prod.splits dest: capset_each_within)

lemma capset_within:
  assumes "sys_capset capability_cred_ops h dat s = (s', r)" and "caller_below C s"
  shows "within C s s'"
proof -
  have step: "within C s s'"
    if "tasks s (me s) = Some cur" "or_capable b sc k cur = (cur1, ok)"
      "s1 = s\<lparr>tasks := (tasks s)(me s \<mapsto> cur1)\<rparr>" "caller_below C s1 \<Longrightarrow> within C s1 s'" for cur b sc k cur1 ok s1
    using superpriv_within [OF that(2,1)] that(3,4) assms(2) within_caller within_trans by metis
  show ?thesis
    using assms(1)
    by (auto simp: sys_capset_def Let_def within_refl split: option.splits if_splits prod.splits
        intro: superpriv_within step set_pg_within set_all_within capset_one_within)
qed

text \<open>C29: \<open>sys_capset\<close> under the capability module hands out nothing the caller lacks. For every
  task, after the call with any header and data, each permitted or inheritable capability
  was in the same set of that task before or is permitted to the caller, and a task whose
  effective set was within its permitted set still has that. On an error before the loops
  nothing changes but the caller's accounting flag.
\<close>

theorem capset_no_escalation:
  assumes "sys_capset capability_cred_ops h dat s = (s', r)" and "tasks s (me s) = Some cur"
    and "tasks s' q = Some t'"
  shows "\<exists>t. tasks s q = Some t \<and>
    cap_issubset (cap_permitted t') (cap_combine (cap_permitted t) (cap_permitted cur)) \<and>
    cap_issubset (cap_inheritable t') (cap_combine (cap_inheritable t) (cap_permitted cur)) \<and>
    (cap_issubset (cap_effective t) (cap_permitted t) \<longrightarrow>
     cap_issubset (cap_effective t') (cap_permitted t'))"
proof -
  define C where "C = cap_permitted cur"
  have c: "caller_below C s" using assms(2) by (simp add: caller_below_def C_def)
  have "within C s s'" using capset_within [OF assms(1) c] .
  then show ?thesis using assms(3) by (auto simp: within_def gained_def C_def)
qed

definition sample_holder :: "int \<Rightarrow> u32 \<Rightarrow> cred" where
  "sample_holder p c =
     \<lparr>uid = 0, security = None, pid = p, user = 0, euid = 0, suid = 0, fsuid = 0,
      gid = 0, egid = 0, sgid = 0, fsgid = 0, cap_effective = c,
      cap_inheritable = 0, cap_permitted = c, keep_capabilities = False,
      superpriv = False, dumpable = 1, personality = 0, pdeath_signal = 0, ptrace = 0,
      fs_count = 1, files_count = 1, sighand_count = 1\<rparr>"

text \<open>Task 7 holds \<open>CAP_SETPCAP\<close>; task 8 leads process group 8 and has one other thread, 9.\<close>

definition sample_sys :: cap_sys where
  "sample_sys =
     \<lparr>tasks = [7 \<mapsto> sample_holder 7 0x100, 8 \<mapsto> sample_holder 8 0, 9 \<mapsto> sample_holder 9 0],
      me = 7, leaders = [1, 7, 8], threads = (\<lambda>p. if p = 8 then [9] else []),
      pgrp_tasks = (\<lambda>n. if n = 8 then [8] else if n = 7 then [7] else [])\<rparr>"

definition sample_header :: "int \<Rightarrow> cap_header" where
  "sample_header p =
     \<lparr>hdr_version = Some LINUX_CAPABILITY_VERSION, hdr_writable = True, hdr_pid = Some p\<rparr>"

definition sample_data :: "u32 \<Rightarrow> cap_data" where
  "sample_data c = \<lparr>data_effective = c, data_permitted = c, data_inheritable = 0\<rparr>"

lemmas sample_cap_defs = sample_holder_def sample_sys_def sample_header_def sample_data_def
  capability_cred_ops_def sys_capset_def cap_set_pg_def cap_set_all_def capset_one_def
  or_capable_def capable_def do_capable_def cap_capable_def cap_raised_def CAP_TO_MASK_def
  cap_capset_check_def cap_capset_set_def cap_issubset_def cap_combine_def cap_nums

theorem capset_no_escalation_witness:
  "\<exists>s' t. sys_capset capability_cred_ops (sample_header (- 1)) (Some (sample_data 0x100)) sample_sys = (s', 0) \<and>
     tasks s' 8 = Some t \<and> cap_effective t = 0x100 \<and>
     cap_issubset (cap_permitted t) (cap_combine 0 (cap_permitted (sample_holder 7 0x100)))"
proof -
  obtain s' t where
    1: "sys_capset capability_cred_ops (sample_header (- 1)) (Some (sample_data 0x100)) sample_sys = (s', 0)"
    and 8: "tasks s' 8 = Some t" and e: "cap_effective t = 0x100"
    by (simp add: sample_cap_defs Let_def)
  have "tasks sample_sys (me sample_sys) = Some (sample_holder 7 0x100)" by (simp add: sample_sys_def)
  from capset_no_escalation [OF 1 this 8] show ?thesis
    using 1 8 e by (auto simp: sample_sys_def sample_holder_def)
qed

lemma capset_one_frame:
  "capset_one ops e i p q s = (s', r) \<Longrightarrow> x \<noteq> q \<Longrightarrow> tasks s' x = tasks s x"
  by (auto simp: capset_one_def Let_def split: option.splits if_splits)

lemma capset_each_frame:
  "capset_each ops e i p qs s = (s', r) \<Longrightarrow> x \<notin> set qs \<Longrightarrow> tasks s' x = tasks s x"
  by (induction qs arbitrary: s s' r) (auto simp: capset_one_frame split: prod.splits)

lemma capset_group:
  assumes "hdr_version h = Some LINUX_CAPABILITY_VERSION" and "hdr_pid h = Some (- n)" and "n > 1"
    and "tasks s (me s) = Some cur" and "me s > 0" and "cap_raised (cap_effective cur) CAP_SETPCAP"
  shows "sys_capset capability_cred_ops h (Some d) s =
    cap_set_pg capability_cred_ops n (data_effective d) (data_inheritable d) (data_permitted d)
      (s\<lparr>tasks := (tasks s)(me s \<mapsto> cur\<lparr>superpriv := True\<rparr>)\<rparr>)"
  using assms
  by (simp add: sys_capset_def Let_def or_capable_def capable_def do_capable_def
      capability_cred_ops_def cap_capable_def)

text \<open>A \<open>capset\<close> on a process group does not reach the tasks of the group. The loop leaves out
  the task that stands for each process: a privileged caller that names a group of
  single-threaded processes gets 0, success, and not one capability set has changed; the
  group call never changes a task that is not an additional thread.
\<close>

lemma capset_group_skips_leaders:
  assumes "hdr_version h = Some LINUX_CAPABILITY_VERSION" and "hdr_pid h = Some (- n)" and "n > 1"
    and "tasks s (me s) = Some cur" and "me s > 0" and "cap_raised (cap_effective cur) CAP_SETPCAP"
    and "sys_capset capability_cred_ops h (Some d) s = (s', r)"
  shows "((\<forall>p \<in> set (pgrp_tasks s n). threads s p = []) \<longrightarrow>
          r = 0 \<and> s' = s\<lparr>tasks := (tasks s)(me s \<mapsto> cur\<lparr>superpriv := True\<rparr>)\<rparr>) \<and>
         (\<forall>q. q \<noteq> me s \<and> (\<forall>p \<in> set (pgrp_tasks s n). q \<notin> set (threads s p)) \<longrightarrow> tasks s' q = tasks s q)"
proof -
  define s1 where "s1 = s\<lparr>tasks := (tasks s)(me s \<mapsto> cur\<lparr>superpriv := True\<rparr>)\<rparr>"
  define v where "v = concat (map (threads s) (pgrp_tasks s n))"
  obtain ok where e: "capset_each capability_cred_ops (data_effective d) (data_inheritable d)
      (data_permitted d) v s1 = (s', ok)" and r: "v = [] \<Longrightarrow> r = 0"
    using assms(7) capset_group [OF assms(1-6), of d]
    by (auto simp: cap_set_pg_def Let_def s1_def v_def split: prod.splits)
  have "r = 0 \<and> s' = s1" if "\<forall>p \<in> set (pgrp_tasks s n). threads s p = []"
  proof -
    have "v = []" using that by (simp add: v_def)
    then show ?thesis using e r by simp
  qed
  moreover have "tasks s' q = tasks s q"
    if "q \<noteq> me s" "\<forall>p \<in> set (pgrp_tasks s n). q \<notin> set (threads s p)" for q
    using capset_each_frame [OF e, of q] that by (simp add: v_def s1_def)
  ultimately show ?thesis by (simp add: s1_def)
qed

lemma capset_group_skips_leaders_example:
  "\<exists>s'. sys_capset capability_cred_ops (sample_header (- 7)) (Some (sample_data 0)) sample_sys = (s', 0) \<and>
     tasks s' 7 = Some ((sample_holder 7 0x100)\<lparr>superpriv := True\<rparr>)"
proof -
  obtain s' r where
    s: "sys_capset capability_cred_ops (sample_header (- 7)) (Some (sample_data 0)) sample_sys = (s', r)"
    by fastforce
  have "r = 0 \<and> s' = sample_sys\<lparr>tasks :=
      (tasks sample_sys)(me sample_sys \<mapsto> (sample_holder 7 0x100)\<lparr>superpriv := True\<rparr>)\<rparr>"
    using capset_group_skips_leaders [OF _ _ _ _ _ _ s, of 7 "sample_holder 7 0x100"]
    by (simp add: sample_sys_def sample_header_def)
       (simp add: sample_holder_def cap_raised_def CAP_TO_MASK_def cap_nums)
  then show ?thesis using s by (simp add: sample_sys_def)
qed

end
