(* ===== verification/Lsm.thy ===== *)
theory Lsm
  imports Creds
begin

text \<open>
  The Linux Security Module framework: \<^verbatim>\<open>security/security.c\<close> with the fallback table of
  \<^verbatim>\<open>security/dummy.c\<close>, and the loading and unloading of the three modules of the directory
  that have no stacking of their own, \<^verbatim>\<open>capability.c\<close>, \<^verbatim>\<open>root_plug.c\<close> and \<^verbatim>\<open>difc.c\<close>.

  A \<open>security_operations\<close> structure is a table from hook names to the names of the functions
  in it; an absent entry is a null pointer. \<open>cred_ops_of\<close> reads the credential hooks off a
  table, which ties the tables to the functions of the theory of credentials.
\<close>

type_synonym hook_table = "string \<Rightarrow> string option"

datatype ops_id = dummy_security_ops | capability_ops | rootplug_security_ops | difc_security_ops

record lsm =
  security_ops :: "ops_id option"
  hooks_of :: "ops_id \<Rightarrow> hook_table"
  secondary :: "ops_id \<Rightarrow> bool"
  cur_max_capability :: u32

record lsm_config =
  security_network :: bool
  security_network_xfrm :: bool
  config_keys :: bool
  capability_disable :: bool

section \<open>The fallback hooks\<close>

definition fixup_core :: "string list" where
  "fixup_core =
    [''ptrace'', ''capget'', ''capset_check'', ''capset_set'', ''acct'', ''capable'',
     ''quotactl'', ''quota_on'', ''sysctl'', ''syslog'', ''settime'', ''vm_enough_memory'',
     ''bprm_alloc_security'', ''bprm_free_security'', ''bprm_apply_creds'',
     ''bprm_post_apply_creds'', ''bprm_set_security'', ''bprm_check_security'',
     ''bprm_secureexec'', ''sb_alloc_security'', ''sb_free_security'', ''sb_copy_data'',
     ''sb_kern_mount'', ''sb_statfs'', ''sb_mount'', ''sb_check_sb'', ''sb_umount'',
     ''sb_umount_close'', ''sb_umount_busy'', ''sb_post_remount'', ''sb_post_mountroot'',
     ''sb_post_addmount'', ''sb_pivotroot'', ''sb_post_pivotroot'', ''inode_alloc_security'',
     ''inode_free_security'', ''inode_init_security'', ''inode_create'', ''inode_link'',
     ''inode_unlink'', ''inode_symlink'', ''inode_mkdir'', ''inode_rmdir'', ''inode_mknod'',
     ''inode_rename'', ''inode_readlink'', ''inode_follow_link'', ''inode_permission'',
     ''inode_setattr'', ''inode_getattr'', ''inode_delete'', ''inode_setxattr'',
     ''inode_post_setxattr'', ''inode_getxattr'', ''inode_listxattr'', ''inode_removexattr'',
     ''inode_xattr_getsuffix'', ''inode_getsecurity'', ''inode_setsecurity'',
     ''inode_listsecurity'', ''file_permission'', ''file_alloc_security'',
     ''file_free_security'', ''file_ioctl'', ''file_mmap'', ''file_mprotect'', ''file_lock'',
     ''file_fcntl'', ''file_set_fowner'', ''file_send_sigiotask'', ''file_receive'',
     ''task_create'', ''task_alloc_security'', ''task_free_security'', ''task_setuid'',
     ''task_post_setuid'', ''task_setgid'', ''task_setpgid'', ''task_getpgid'', ''task_getsid'',
     ''task_getsecid'', ''task_setgroups'', ''task_setnice'', ''task_setioprio'',
     ''task_getioprio'', ''task_setrlimit'', ''task_setscheduler'', ''task_getscheduler'',
     ''task_movememory'', ''task_wait'', ''task_kill'', ''task_prctl'',
     ''task_reparent_to_init'', ''task_to_inode'', ''ipc_permission'',
     ''msg_msg_alloc_security'', ''msg_msg_free_security'', ''msg_queue_alloc_security'',
     ''msg_queue_free_security'', ''msg_queue_associate'', ''msg_queue_msgctl'',
     ''msg_queue_msgsnd'', ''msg_queue_msgrcv'', ''shm_alloc_security'', ''shm_free_security'',
     ''shm_associate'', ''shm_shmctl'', ''shm_shmat'', ''sem_alloc_security'',
     ''sem_free_security'', ''sem_associate'', ''sem_semctl'', ''sem_semop'', ''netlink_send'',
     ''netlink_recv'', ''register_security'', ''unregister_security'', ''d_instantiate'',
     ''getprocattr'', ''setprocattr'', ''secid_to_secctx'', ''release_secctx'']"

definition fixup_network :: "string list" where
  "fixup_network =
    [''unix_stream_connect'', ''unix_may_send'', ''socket_create'', ''socket_post_create'',
     ''socket_bind'', ''socket_connect'', ''socket_listen'', ''socket_accept'',
     ''socket_post_accept'', ''socket_sendmsg'', ''socket_recvmsg'', ''socket_getsockname'',
     ''socket_getpeername'', ''socket_setsockopt'', ''socket_getsockopt'', ''socket_shutdown'',
     ''socket_sock_rcv_skb'', ''socket_getpeersec_stream'', ''socket_getpeersec_dgram'',
     ''sk_alloc_security'', ''sk_free_security'', ''sk_clone_security'', ''sk_getsecid'',
     ''sock_graft'', ''inet_conn_request'', ''inet_csk_clone'', ''inet_conn_established'',
     ''req_classify_flow'']"

definition fixup_xfrm :: "string list" where
  "fixup_xfrm =
    [''xfrm_policy_alloc_security'', ''xfrm_policy_clone_security'',
     ''xfrm_policy_free_security'', ''xfrm_policy_delete_security'',
     ''xfrm_state_alloc_security'', ''xfrm_state_free_security'',
     ''xfrm_state_delete_security'', ''xfrm_policy_lookup'', ''xfrm_state_pol_flow_match'',
     ''xfrm_decode_session'']"

definition fixup_keys :: "string list" where
  "fixup_keys =
    [''key_alloc'', ''key_free'', ''key_permission'']"

definition fixup_laminar :: "string list" where
  "fixup_laminar =
    [''copy_user_label'', ''file_rw_release'']"

definition fixup_hooks :: "lsm_config \<Rightarrow> string list" where
  "fixup_hooks c =
     fixup_core @ (if security_network c then fixup_network else []) @
     (if security_network_xfrm c then fixup_xfrm else []) @
     (if config_keys c then fixup_keys else []) @ fixup_laminar"

definition set_to_dummy_if_null :: "string \<Rightarrow> hook_table \<Rightarrow> hook_table" where
  "set_to_dummy_if_null h ops = (if ops h = None then ops(h \<mapsto> ''dummy_'' @ h) else ops)"

definition security_fixup_ops :: "lsm_config \<Rightarrow> hook_table \<Rightarrow> hook_table" where
  "security_fixup_ops c ops = fold set_to_dummy_if_null (fixup_hooks c) ops"

section \<open>The tables of the modules\<close>

definition capability_table :: hook_table where
  "capability_table =
    [''ptrace'' \<mapsto> ''cap_ptrace'', ''capget'' \<mapsto> ''cap_capget'',
     ''capset_check'' \<mapsto> ''cap_capset_check'', ''capset_set'' \<mapsto> ''cap_capset_set'',
     ''capable'' \<mapsto> ''cap_capable'', ''settime'' \<mapsto> ''cap_settime'',
     ''netlink_send'' \<mapsto> ''cap_netlink_send'',
     ''netlink_recv'' \<mapsto> ''cap_netlink_recv'',
     ''bprm_apply_creds'' \<mapsto> ''cap_bprm_apply_creds'',
     ''bprm_set_security'' \<mapsto> ''cap_bprm_set_security'',
     ''bprm_secureexec'' \<mapsto> ''cap_bprm_secureexec'',
     ''inode_setxattr'' \<mapsto> ''cap_inode_setxattr'',
     ''inode_removexattr'' \<mapsto> ''cap_inode_removexattr'',
     ''task_post_setuid'' \<mapsto> ''cap_task_post_setuid'',
     ''task_reparent_to_init'' \<mapsto> ''cap_task_reparent_to_init'',
     ''syslog'' \<mapsto> ''cap_syslog'', ''vm_enough_memory'' \<mapsto> ''cap_vm_enough_memory'']"

definition rootplug_table :: hook_table where
  "rootplug_table =
    [''ptrace'' \<mapsto> ''cap_ptrace'', ''capget'' \<mapsto> ''cap_capget'',
     ''capset_check'' \<mapsto> ''cap_capset_check'', ''capset_set'' \<mapsto> ''cap_capset_set'',
     ''capable'' \<mapsto> ''cap_capable'', ''bprm_apply_creds'' \<mapsto> ''cap_bprm_apply_creds'',
     ''bprm_set_security'' \<mapsto> ''cap_bprm_set_security'',
     ''task_post_setuid'' \<mapsto> ''cap_task_post_setuid'',
     ''task_reparent_to_init'' \<mapsto> ''cap_task_reparent_to_init'',
     ''bprm_check_security'' \<mapsto> ''rootplug_bprm_check_security'']"

definition difc_table :: hook_table where
  "difc_table =
    [''bprm_alloc_security'' \<mapsto> ''difc_bprm_alloc_security'',
     ''bprm_free_security'' \<mapsto> ''difc_bprm_free_security'',
     ''bprm_apply_creds'' \<mapsto> ''difc_bprm_apply_creds'',
     ''inode_alloc_security'' \<mapsto> ''difc_inode_alloc_security'',
     ''inode_free_security'' \<mapsto> ''difc_inode_free_security'',
     ''inode_init_security'' \<mapsto> ''difc_inode_init_security'',
     ''inode_permission'' \<mapsto> ''difc_inode_permission'',
     ''inode_getsecurity'' \<mapsto> ''difc_inode_getsecurity'',
     ''inode_setsecurity'' \<mapsto> ''difc_inode_setsecurity'',
     ''inode_listsecurity'' \<mapsto> ''difc_inode_listsecurity'',
     ''inode_setattr'' \<mapsto> ''difc_inode_setattr'',
     ''inode_getattr'' \<mapsto> ''difc_inode_getattr'',
     ''file_permission'' \<mapsto> ''difc_file_permission'',
     ''socket_connect'' \<mapsto> ''difc_socket_connect'',
     ''task_alloc_security'' \<mapsto> ''difc_task_alloc_security'',
     ''task_free_security'' \<mapsto> ''difc_task_free_security'',
     ''alloc_label'' \<mapsto> ''difc_alloc_label'',
     ''set_task_label'' \<mapsto> ''difc_set_task_label'',
     ''copy_user_label'' \<mapsto> ''difc_copy_user_label'',
     ''drop_capabilities'' \<mapsto> ''difc_drop_capabilities'',
     ''resume_capabilities'' \<mapsto> ''difc_resume_capabilities'',
     ''send_capabilities'' \<mapsto> ''difc_send_capabilities'',
     ''file_rw_release'' \<mapsto> ''difc_file_rw_release'',
     ''inode_set_label'' \<mapsto> ''difc_inode_set_label'',
     ''replace_label_tcb'' \<mapsto> ''difc_replace_label_tcb'',
     ''pipe_full'' \<mapsto> ''difc_pipe_full'']"

text \<open>The state of the framework before \<open>security_init\<close>: the static initialisers.\<close>

definition boot :: lsm where
  "boot = \<lparr>security_ops = None,
     hooks_of = (\<lambda>i. case i of dummy_security_ops \<Rightarrow> Map.empty | capability_ops \<Rightarrow> capability_table
                 | rootplug_security_ops \<Rightarrow> rootplug_table | difc_security_ops \<Rightarrow> difc_table),
     secondary = (\<lambda>_. False), cur_max_capability = 0\<rparr>"

section \<open>Registering\<close>

definition verify :: "lsm_config \<Rightarrow> ops_id option \<Rightarrow> lsm \<Rightarrow> lsm \<times> errno" where
  "verify c ops s =
     (case ops of None \<Rightarrow> (s, - EINVAL)
      | Some i \<Rightarrow> (s\<lparr>hooks_of := (hooks_of s)(i := security_fixup_ops c (hooks_of s i))\<rparr>, 0))"

definition register_security :: "lsm_config \<Rightarrow> ops_id option \<Rightarrow> lsm \<Rightarrow> lsm \<times> errno" where
  "register_security c ops s =
     (case verify c ops s of (s1, rv) \<Rightarrow>
      if rv \<noteq> 0 then (s1, - EINVAL)
      else if security_ops s1 \<noteq> Some dummy_security_ops then (s1, - EAGAIN)
      else (s1\<lparr>security_ops := ops\<rparr>, 0))"

definition unregister_security :: "ops_id option \<Rightarrow> lsm \<Rightarrow> lsm \<times> errno" where
  "unregister_security ops s =
     (if ops \<noteq> security_ops s then (s, - EINVAL)
      else (s\<lparr>security_ops := Some dummy_security_ops\<rparr>, 0))"

text \<open>A call through \<open>security_ops\<close> that does not test the pointer first.\<close>

definition call_hook :: "lsm \<Rightarrow> string \<Rightarrow> (string \<Rightarrow> 'a) \<Rightarrow> 'a outcome" where
  "call_hook s h run =
     bindO (deref (security_ops s)) (\<lambda>i. bindO (deref (hooks_of s i h)) (\<lambda>f. Ret (run f)))"

text \<open>\<open>dummy_register_security\<close> and \<open>dummy_unregister_security\<close> are the only implementations among
  the modelled modules.\<close>

definition dummy_register_security :: errno where "dummy_register_security = - EINVAL"
definition dummy_unregister_security :: errno where "dummy_unregister_security = - EINVAL"

definition mod_reg_security :: "lsm_config \<Rightarrow> ops_id option \<Rightarrow> lsm \<Rightarrow> (lsm \<times> errno) outcome" where
  "mod_reg_security c ops s =
     (case verify c ops s of (s1, rv) \<Rightarrow>
      if rv \<noteq> 0 then Ret (s1, - EINVAL)
      else if ops = security_ops s1 then Ret (s1, - EINVAL)
      else call_hook s1 ''register_security'' (\<lambda>f. (s1, dummy_register_security)))"

definition mod_unreg_security :: "ops_id option \<Rightarrow> lsm \<Rightarrow> (lsm \<times> errno) outcome" where
  "mod_unreg_security ops s =
     (if ops = security_ops s then Ret (s, - EINVAL)
      else call_hook s ''unregister_security'' (\<lambda>f. (s, dummy_unregister_security)))"

section \<open>The modules\<close>

text \<open>The part the three module initialisers share: register, else stack on the primary.\<close>

definition register_or_stack :: "lsm_config \<Rightarrow> ops_id \<Rightarrow> lsm \<Rightarrow> (lsm \<times> errno) outcome" where
  "register_or_stack c i s =
     (case register_security c (Some i) s of (s1, rv) \<Rightarrow>
      if rv \<noteq> 0 then
        bindO (mod_reg_security c (Some i) s1) (\<lambda>(s2, rv2).
        if rv2 \<noteq> 0 then Ret (s2, - EINVAL)
        else Ret (s2\<lparr>secondary := (secondary s2)(i := True)\<rparr>, 0))
      else Ret (s1, 0))"

definition unregister_or_unstack :: "ops_id \<Rightarrow> lsm \<Rightarrow> lsm outcome" where
  "unregister_or_unstack i s =
     (if secondary s i
      then bindO (mod_unreg_security (Some i) s) (\<lambda>(s1, _). Ret s1)
      else Ret (fst (unregister_security (Some i) s)))"

definition capability_init :: "lsm_config \<Rightarrow> lsm \<Rightarrow> (lsm \<times> errno) outcome" where
  "capability_init c s =
     (if capability_disable c then Ret (s, 0) else register_or_stack c capability_ops s)"

definition capability_exit :: "lsm_config \<Rightarrow> lsm \<Rightarrow> lsm outcome" where
  "capability_exit c s =
     (if capability_disable c then Ret s else unregister_or_unstack capability_ops s)"

definition rootplug_init :: "lsm_config \<Rightarrow> lsm \<Rightarrow> (lsm \<times> errno) outcome" where
  "rootplug_init c s = register_or_stack c rootplug_security_ops s"

definition rootplug_exit :: "lsm \<Rightarrow> lsm outcome" where
  "rootplug_exit s = unregister_or_unstack rootplug_security_ops s"

text \<open>The caches are created with \<open>SLAB_PANIC\<close>, so their creation does not fail. The proc entry
  is dereferenced without a test; \<open>proc_ok\<close> says that it was created.\<close>

definition difc_init :: "lsm_config \<Rightarrow> bool \<Rightarrow> lsm \<Rightarrow> (lsm \<times> errno) outcome" where
  "difc_init c proc_ok s =
     bindO (register_or_stack c difc_security_ops (s\<lparr>cur_max_capability := CAP_START_VAL\<rparr>)) (\<lambda>(s1, rv).
     if rv \<noteq> 0 then Ret (s1, - EINVAL)
     else if \<not> proc_ok then Oops NullDeref
     else Ret (s1, 0))"

definition difc_exit :: "lsm \<Rightarrow> lsm outcome" where
  "difc_exit s = unregister_or_unstack difc_security_ops s"

primrec do_security_initcalls ::
  "(lsm \<Rightarrow> (lsm \<times> errno) outcome) list \<Rightarrow> lsm \<Rightarrow> lsm outcome" where
  "do_security_initcalls [] s = Ret s"
| "do_security_initcalls (call # calls) s =
     bindO (call s) (\<lambda>(s1, _). do_security_initcalls calls s1)"

definition security_init ::
  "lsm_config \<Rightarrow> (lsm \<Rightarrow> (lsm \<times> errno) outcome) list \<Rightarrow> lsm \<Rightarrow> (lsm \<times> errno) outcome" where
  "security_init c calls s =
     (case verify c (Some dummy_security_ops) s of (s1, rv) \<Rightarrow>
      if rv \<noteq> 0 then Ret (s1, - EIO)
      else bindO (do_security_initcalls calls (s1\<lparr>security_ops := Some dummy_security_ops\<rparr>))
                 (\<lambda>s2. Ret (s2, 0)))"

section \<open>The calls into the framework\<close>

text \<open>The system calls of \<^verbatim>\<open>security.c\<close> test the hook and return \<open>-ENOSYS\<close> without one. \<open>run\<close> is
  the call of the function found, with the arguments of the system call.\<close>

definition call_if_present :: "lsm \<Rightarrow> string \<Rightarrow> (string \<Rightarrow> int outcome) \<Rightarrow> int outcome" where
  "call_if_present s h run =
     bindO (deref (security_ops s)) (\<lambda>i.
     case hooks_of s i h of Some f \<Rightarrow> run f | None \<Rightarrow> Ret (- ENOSYS))"

definition sys_alloc_label :: "(string \<Rightarrow> int outcome) \<Rightarrow> lsm \<Rightarrow> int outcome" where
  "sys_alloc_label run s = call_if_present s ''alloc_label'' run"

definition sys_set_task_label :: "(string \<Rightarrow> int outcome) \<Rightarrow> lsm \<Rightarrow> int outcome" where
  "sys_set_task_label run s = call_if_present s ''set_task_label'' run"

definition sys_drop_capabilities :: "(string \<Rightarrow> int outcome) \<Rightarrow> lsm \<Rightarrow> int outcome" where
  "sys_drop_capabilities run s = call_if_present s ''drop_capabilities'' run"

definition sys_resume_capabilities :: "(string \<Rightarrow> int outcome) \<Rightarrow> lsm \<Rightarrow> int outcome" where
  "sys_resume_capabilities run s = call_if_present s ''resume_capabilities'' run"

definition sys_send_capabilities :: "(string \<Rightarrow> int outcome) \<Rightarrow> lsm \<Rightarrow> int outcome" where
  "sys_send_capabilities run s = call_if_present s ''send_capabilities'' run"

definition sys_replace_label_tcb :: "(string \<Rightarrow> int outcome) \<Rightarrow> lsm \<Rightarrow> int outcome" where
  "sys_replace_label_tcb run s = call_if_present s ''replace_label_tcb'' run"

text \<open>The inline wrappers of \<^verbatim>\<open>include/linux/security.h\<close> for the hooks the file system and the
  pipes use; none of them tests the pointer.\<close>

definition security_file_permission :: "(string \<Rightarrow> errno) \<Rightarrow> lsm \<Rightarrow> errno outcome" where
  "security_file_permission run s = call_hook s ''file_permission'' run"

definition security_file_rw_release :: "(string \<Rightarrow> unit) \<Rightarrow> lsm \<Rightarrow> unit outcome" where
  "security_file_rw_release run s = call_hook s ''file_rw_release'' run"

definition security_pipe_full :: "(string \<Rightarrow> int) \<Rightarrow> lsm \<Rightarrow> int outcome" where
  "security_pipe_full run s = call_hook s ''pipe_full'' run"

definition security_copy_user_label ::
  "(string \<Rightarrow> label_struct option) \<Rightarrow> bool \<Rightarrow> lsm \<Rightarrow> label_struct option outcome" where
  "security_copy_user_label run label_given s =
     (if label_given then call_hook s ''copy_user_label'' run else Ret None)"

section \<open>Credential hooks of a table\<close>

definition cred_ops_of :: "hook_table \<Rightarrow> cred_ops" where
  "cred_ops_of t =
     \<lparr>op_capable = (if t ''capable'' = Some ''cap_capable'' then cap_capable else dummy_capable),
      op_capget = (if t ''capget'' = Some ''cap_capget'' then (\<lambda>g. cap_capget) else dummy_capget),
      op_capset_check =
        (if t ''capset_check'' = Some ''cap_capset_check'' then cap_capset_check else dummy_capset_check),
      op_capset_set =
        (if t ''capset_set'' = Some ''cap_capset_set'' then cap_capset_set else dummy_capset_set),
      op_task_setuid = dummy_task_setuid,
      op_task_post_setuid =
        (if t ''task_post_setuid'' = Some ''cap_task_post_setuid'' then cap_task_post_setuid
         else dummy_task_post_setuid),
      op_task_setgid = dummy_task_setgid,
      op_bprm_set_security =
        (if t ''bprm_set_security'' = Some ''cap_bprm_set_security'' then cap_bprm_set_security
         else dummy_bprm_set_security),
      op_bprm_apply_creds =
        (if t ''bprm_apply_creds'' = Some ''cap_bprm_apply_creds''
         then (\<lambda>g b u x. Ret (cap_bprm_apply_creds cap_capable g b u x))
         else if t ''bprm_apply_creds'' = Some ''difc_bprm_apply_creds'' then difc_apply
         else (\<lambda>g b u x. Ret (dummy_bprm_apply_creds dummy_capable g b u x)))\<rparr>"

section \<open>The active table is always complete\<close>

lemma fold_set_to_dummy:
  "fold set_to_dummy_if_null hs t h =
     (case t h of Some f \<Rightarrow> Some f | None \<Rightarrow> if h \<in> set hs then Some (''dummy_'' @ h) else None)"
  by (induction hs arbitrary: t) (auto simp: set_to_dummy_if_null_def split: option.splits)

lemma fixup_lookup:
  "security_fixup_ops c t h =
     (case t h of Some f \<Rightarrow> Some f | None \<Rightarrow> if h \<in> set (fixup_hooks c) then Some (''dummy_'' @ h) else None)"
  by (simp add: security_fixup_ops_def fold_set_to_dummy)

lemma fixup_idem [simp]: "security_fixup_ops c (security_fixup_ops c t) = security_fixup_ops c t"
  by (rule ext) (simp add: fixup_lookup split: option.split)

text \<open>The table of a module is its static initialiser, possibly completed.\<close>

definition lsm_inv :: "lsm_config \<Rightarrow> lsm \<Rightarrow> bool" where
  "lsm_inv c s \<longleftrightarrow>
     (\<forall>i. hooks_of s i = hooks_of boot i \<or> hooks_of s i = security_fixup_ops c (hooks_of boot i)) \<and>
     hooks_of s dummy_security_ops = security_fixup_ops c (hooks_of boot dummy_security_ops) \<and>
     (\<exists>i. security_ops s = Some i \<and> hooks_of s i = security_fixup_ops c (hooks_of boot i))"

inductive lsm_step :: "lsm_config \<Rightarrow> lsm \<Rightarrow> lsm \<Rightarrow> bool" for c where
  load_capability: "capability_init c s = Ret (s', r) \<Longrightarrow> lsm_step c s s'"
| load_rootplug: "rootplug_init c s = Ret (s', r) \<Longrightarrow> lsm_step c s s'"
| load_difc: "difc_init c proc_ok s = Ret (s', r) \<Longrightarrow> lsm_step c s s'"
| unload_capability: "capability_exit c s = Ret s' \<Longrightarrow> lsm_step c s s'"
| unload_rootplug: "rootplug_exit s = Ret s' \<Longrightarrow> lsm_step c s s'"
| unload_difc: "difc_exit s = Ret s' \<Longrightarrow> lsm_step c s s'"

lemma verify_inv:
  assumes "verify c (Some i) s = (s1, rv)" and "lsm_inv c s"
  shows "rv = 0 \<and> lsm_inv c s1 \<and> security_ops s1 = security_ops s \<and>
    hooks_of s1 i = security_fixup_ops c (hooks_of boot i) \<and> secondary s1 = secondary s"
proof -
  have "security_fixup_ops c (hooks_of s i) = security_fixup_ops c (hooks_of boot i)"
    using assms(2) unfolding lsm_inv_def by (metis fixup_idem)
  then show ?thesis using assms by (auto simp: verify_def lsm_inv_def) metis
qed

lemma call_hook_Ret: "call_hook s h run = Ret x \<Longrightarrow> \<exists>f. x = run f"
  by (auto simp: call_hook_def bindO_Ret_iff)

lemma register_inv:
  assumes "register_security c (Some i) s = (s1, rv)" and "lsm_inv c s"
  shows "lsm_inv c s1 \<and> (rv = 0 \<longrightarrow> security_ops s1 = Some i) \<and> (rv \<noteq> 0 \<longrightarrow> security_ops s1 = security_ops s)"
proof -
  obtain s0 r0 where v: "verify c (Some i) s = (s0, r0)" by fastforce
  note w = verify_inv [OF v assms(2)]
  have "lsm_inv c (s0\<lparr>security_ops := Some i\<rparr>)" using w by (simp add: lsm_inv_def)
  then show ?thesis
    using assms(1) v w by (auto simp: register_security_def EAGAIN_def split: if_splits)
qed

lemma mod_reg_inv:
  assumes "mod_reg_security c (Some i) s = Ret (s1, rv)" and "lsm_inv c s"
  shows "lsm_inv c s1 \<and> rv = - EINVAL \<and> security_ops s1 = security_ops s"
proof -
  obtain s0 r0 where v: "verify c (Some i) s = (s0, r0)" by fastforce
  show ?thesis
    using assms(1) v verify_inv [OF v assms(2)]
    by (auto simp: mod_reg_security_def dummy_register_security_def split: if_splits dest!: call_hook_Ret)
qed

text \<open>Stacking never succeeds, so a module is either the primary one or refused.\<close>

lemma register_or_stack_inv:
  assumes "register_or_stack c i s = Ret (s', r)" and "lsm_inv c s"
  shows "lsm_inv c s' \<and> (r = 0 \<longrightarrow> security_ops s' = Some i) \<and>
    (r \<noteq> 0 \<longrightarrow> r = - EINVAL \<and> security_ops s' = security_ops s)"
proof -
  obtain s1 rv where 1: "register_security c (Some i) s = (s1, rv)" by fastforce
  note w = register_inv [OF 1 assms(2)]
  show ?thesis
  proof (cases "rv = 0")
    case True
    then show ?thesis using assms(1) 1 w by (simp add: register_or_stack_def)
  next
    case False
    then obtain s2 rv2 where 2: "mod_reg_security c (Some i) s1 = Ret (s2, rv2)"
      using assms(1) 1 by (auto simp: register_or_stack_def bindO_Ret_iff)
    then show ?thesis
      using mod_reg_inv [OF 2] assms(1) 1 w False by (auto simp: register_or_stack_def EINVAL_def)
  qed
qed

lemma unregister_or_unstack_inv:
  assumes "unregister_or_unstack i s = Ret s'" and "lsm_inv c s"
  shows "lsm_inv c s'"
  using assms
  by (auto simp: unregister_or_unstack_def unregister_security_def mod_unreg_security_def lsm_inv_def
      bindO_Ret_iff split: if_splits dest!: call_hook_Ret)

lemma lsm_step_inv:
  assumes "lsm_step c s s'" and "lsm_inv c s"
  shows "lsm_inv c s'"
  using assms(1)
proof cases
  case (load_difc proc_ok r)
  have "lsm_inv c (s\<lparr>cur_max_capability := CAP_START_VAL\<rparr>)" using assms(2) by (simp add: lsm_inv_def)
  then show ?thesis
    using load_difc register_or_stack_inv
    by (auto simp: difc_init_def bindO_Ret_iff split: if_splits)
qed (use assms(2) in \<open>auto simp: capability_init_def rootplug_init_def capability_exit_def
      rootplug_exit_def difc_exit_def split: if_splits
      dest: register_or_stack_inv unregister_or_unstack_inv\<close>)

lemma security_init_inv:
  assumes "security_init c [] boot = Ret (s, r)"
  shows "lsm_inv c s"
  using assms by (auto simp: security_init_def verify_def lsm_inv_def)

lemma lsm_reachable_inv:
  assumes "(lsm_step c)\<^sup>*\<^sup>* s0 s" and "lsm_inv c s0"
  shows "lsm_inv c s"
  using assms(1) by induction (use assms(2) lsm_step_inv in auto)

section \<open>What the active table answers\<close>

lemmas fixup_lists = fixup_hooks_def fixup_core_def fixup_network_def fixup_xfrm_def fixup_keys_def
  fixup_laminar_def

lemma fixup_members:
  "''register_security'' \<in> set (fixup_hooks c)" "''unregister_security'' \<in> set (fixup_hooks c)"
  "''capable'' \<in> set (fixup_hooks c)" "''capget'' \<in> set (fixup_hooks c)"
  "''file_permission'' \<in> set (fixup_hooks c)" "''file_rw_release'' \<in> set (fixup_hooks c)"
  by (simp_all add: fixup_lists)

lemma fixup_missing:
  "''pipe_full'' \<notin> set (fixup_hooks c)" "''alloc_label'' \<notin> set (fixup_hooks c)"
  by (simp_all add: fixup_lists)

lemma boot_hooks:
  "hooks_of boot dummy_security_ops = Map.empty" "hooks_of boot capability_ops = capability_table"
  "hooks_of boot rootplug_security_ops = rootplug_table" "hooks_of boot difc_security_ops = difc_table"
  by (simp_all add: boot_def)

lemmas module_tables = capability_table_def rootplug_table_def difc_table_def

lemma laminar_hooks:
  "hooks_of boot i ''pipe_full'' = (if i = difc_security_ops then Some ''difc_pipe_full'' else None)"
  "hooks_of boot i ''alloc_label'' = (if i = difc_security_ops then Some ''difc_alloc_label'' else None)"
  "hooks_of boot i ''register_security'' = None"
  by (cases i; simp add: boot_hooks module_tables)+

definition module_creds :: "ops_id \<Rightarrow> cred_ops" where
  "module_creds i =
     (case i of dummy_security_ops \<Rightarrow> dummy_cred_ops | capability_ops \<Rightarrow> capability_cred_ops
      | rootplug_security_ops \<Rightarrow> capability_cred_ops | difc_security_ops \<Rightarrow> difc_cred_ops)"

lemma fixup_creds: "cred_ops_of (security_fixup_ops c (hooks_of boot i)) = module_creds i"
  by (cases i)
     (simp_all add: cred_ops_of_def fixup_lookup boot_hooks module_tables module_creds_def cred_ops_defs)

lemma sys_alloc_label_active:
  assumes "lsm_inv c s" and "security_ops s = Some i"
  shows "sys_alloc_label alloc s =
    (if i = difc_security_ops then alloc ''difc_alloc_label'' else Ret (- ENOSYS))"
  using assms
  by (auto simp: lsm_inv_def sys_alloc_label_def call_if_present_def fixup_lookup laminar_hooks fixup_missing)

text \<open>C34: The framework after \<open>security_init\<close> and any sequence of module loads and unloads. There is an
  active table; every hook of the fallback list is set in it, so no call of one of those can
  go through a null pointer; its credential hooks are those of the module. The hook
  \<open>pipe_full\<close> is not on the fallback list and its wrapper does not test it: unless DIFC is
  the active module, asking it is a call of a null pointer, while \<open>sys_alloc_label\<close> just
  answers \<open>-ENOSYS\<close>.
\<close>

theorem lsm_active_table:
  assumes "security_init c [] boot = Ret (s0, 0)" and "(lsm_step c)\<^sup>*\<^sup>* s0 s"
  shows "\<exists>i. security_ops s = Some i \<and>
    (\<forall>h \<in> set (fixup_hooks c). returns (call_hook s h run)) \<and>
    cred_ops_of (hooks_of s i) = module_creds i \<and>
    security_pipe_full full s =
      (if i = difc_security_ops then Ret (full ''difc_pipe_full'') else Oops NullDeref) \<and>
    sys_alloc_label alloc s =
      (if i = difc_security_ops then alloc ''difc_alloc_label'' else Ret (- ENOSYS))"
proof -
  have inv: "lsm_inv c s" using lsm_reachable_inv [OF assms(2)] security_init_inv [OF assms(1)] .
  then obtain i where i: "security_ops s = Some i"
    and t: "hooks_of s i = security_fixup_ops c (hooks_of boot i)"
    unfolding lsm_inv_def by blast
  have "returns (call_hook s h run)" if "h \<in> set (fixup_hooks c)" for h
    using that by (simp add: call_hook_def i t fixup_lookup split: option.split)
  moreover have "cred_ops_of (hooks_of s i) = module_creds i" by (simp add: t fixup_creds)
  ultimately show ?thesis
    using i sys_alloc_label_active [OF inv i]
    by (auto simp: security_pipe_full_def call_hook_def t fixup_lookup laminar_hooks fixup_missing)
qed

definition sample_config :: lsm_config where
  "sample_config = \<lparr>security_network = True, security_network_xfrm = False, config_keys = True,
     capability_disable = True\<rparr>"

lemma security_init_returns: "\<exists>s. security_init c [] boot = Ret (s, 0) \<and> lsm_inv c s \<and>
    security_ops s = Some dummy_security_ops \<and> secondary s = secondary boot"
  by (simp add: security_init_def verify_def lsm_inv_def)

lemma register_first:
  assumes "lsm_inv c s" and "security_ops s = Some dummy_security_ops"
  shows "\<exists>s'. register_or_stack c i s = Ret (s', 0)"
  using assms by (auto simp: register_or_stack_def register_security_def verify_def)

lemma register_second:
  assumes "lsm_inv c s" and "security_ops s = Some j" and "j \<noteq> dummy_security_ops"
  shows "\<exists>s'. register_or_stack c i s = Ret (s', - EINVAL)"
proof -
  obtain s1 r1 where 1: "verify c (Some i) s = (s1, r1)" by fastforce
  note v1 = verify_inv [OF 1 assms(1)]
  then have r: "register_security c (Some i) s = (s1, - EAGAIN)"
    using 1 assms(2,3) by (simp add: register_security_def)
  obtain s2 r2 where 2: "verify c (Some i) s1 = (s2, r2)" by fastforce
  have inv: "lsm_inv c s1" using v1 by blast
  note v2 = verify_inv [OF 2 inv]
  have "\<exists>f. hooks_of s2 j ''register_security'' = Some f"
    using v1 v2 assms(2) unfolding lsm_inv_def by (auto simp: fixup_lookup laminar_hooks fixup_members)
  then have "mod_reg_security c (Some i) s1 = Ret (s2, - EINVAL)"
    using 2 v1 v2 assms(2) by (auto simp: mod_reg_security_def call_hook_def dummy_register_security_def)
  then show ?thesis using r by (simp add: register_or_stack_def EAGAIN_def EINVAL_def)
qed

theorem lsm_active_table_witness:
  "\<exists>s0 s. security_init sample_config [] boot = Ret (s0, 0) \<and> lsm_step sample_config s0 s \<and>
     security_pipe_full (\<lambda>f. 1) s0 = Oops NullDeref \<and> security_pipe_full (\<lambda>f. 1) s = Ret 1"
proof -
  obtain s0 where 0: "security_init sample_config [] boot = Ret (s0, 0)" "lsm_inv sample_config s0"
    "security_ops s0 = Some dummy_security_ops"
    using security_init_returns by blast
  let ?s1 = "s0\<lparr>cur_max_capability := CAP_START_VAL\<rparr>"
  have inv: "lsm_inv sample_config ?s1" using 0 by (simp add: lsm_inv_def)
  then obtain s where r: "register_or_stack sample_config difc_security_ops ?s1 = Ret (s, 0)"
    using register_first [OF inv] 0(3) by auto
  then have st: "lsm_step sample_config s0 s"
    by (intro load_difc [of sample_config True s0 s 0]) (simp add: difc_init_def)
  have "security_ops s = Some difc_security_ops" using register_or_stack_inv [OF r inv] by simp
  then have "security_pipe_full (\<lambda>f. 1) s = Ret 1"
    using lsm_active_table [OF 0(1) r_into_rtranclp [of "lsm_step sample_config", OF st], where full = "\<lambda>f. 1"] by auto
  moreover have "security_pipe_full (\<lambda>f. 1) s0 = Oops NullDeref"
    using lsm_active_table [OF 0(1) rtranclp.rtrancl_refl, where full = "\<lambda>f. 1"] 0(3) by auto
  ultimately show ?thesis using 0(1) st by blast
qed

lemma security_init_calls:
  "security_init c [] boot = Ret (s0, 0) \<Longrightarrow>
   security_init c calls boot = bindO (do_security_initcalls calls s0) (\<lambda>s. Ret (s, 0))"
  by (simp add: security_init_def verify_def)

lemma module_init_runs:
  assumes "lsm_inv c s" and "security_ops s = Some j" and "\<not> capability_disable c"
  shows "\<exists>s' r. capability_init c s = Ret (s', r) \<and> lsm_inv c s' \<and>
           security_ops s' = Some (if j = dummy_security_ops then capability_ops else j)"
    and "\<exists>s' r. difc_init c True s = Ret (s', r) \<and> lsm_inv c s' \<and>
           security_ops s' = Some (if j = dummy_security_ops then difc_security_ops else j)"
proof -
  have reg: "\<exists>s' r. register_or_stack c i x = Ret (s', r) \<and> lsm_inv c s' \<and>
      security_ops s' = Some (if j = dummy_security_ops then i else j)"
    if x: "lsm_inv c x" "security_ops x = Some j" for i x
  proof (cases "j = dummy_security_ops")
    case True
    then obtain s' where r: "register_or_stack c i x = Ret (s', 0)" using register_first x by metis
    show ?thesis using register_or_stack_inv [OF r x(1)] r True by auto
  next
    case False
    then obtain s' where r: "register_or_stack c i x = Ret (s', - EINVAL)" using register_second x by metis
    show ?thesis using register_or_stack_inv [OF r x(1)] r False x(2) by (auto simp: EINVAL_def)
  qed
  show "\<exists>s' r. capability_init c s = Ret (s', r) \<and> lsm_inv c s' \<and>
           security_ops s' = Some (if j = dummy_security_ops then capability_ops else j)"
    using reg [OF assms(1,2)] assms(3) by (simp add: capability_init_def)
  have "lsm_inv c (s\<lparr>cur_max_capability := CAP_START_VAL\<rparr>)" using assms(1) by (simp add: lsm_inv_def)
  then obtain s' r where "register_or_stack c difc_security_ops (s\<lparr>cur_max_capability := CAP_START_VAL\<rparr>) = Ret (s', r)"
    "lsm_inv c s'" "security_ops s' = Some (if j = dummy_security_ops then difc_security_ops else j)"
    using reg [of "s\<lparr>cur_max_capability := CAP_START_VAL\<rparr>" difc_security_ops] assms(2) by auto
  then show "\<exists>s' r. difc_init c True s = Ret (s', r) \<and> lsm_inv c s' \<and>
           security_ops s' = Some (if j = dummy_security_ops then difc_security_ops else j)"
    by (auto simp: difc_init_def)
qed

text \<open>The first module to register is the only one. With the capability module linked before
  DIFC, as the makefile orders them, \<open>security_init\<close> returns 0 with the capability module
  active and DIFC refused: every DIFC system call answers \<open>-ENOSYS\<close>. In the opposite order
  DIFC is active and its calls are served.
\<close>

lemma capability_keeps_difc_out:
  assumes "\<not> capability_disable c"
  shows "(\<exists>s. security_init c [capability_init c, difc_init c True] boot = Ret (s, 0) \<and>
            security_ops s = Some capability_ops \<and> sys_alloc_label alloc s = Ret (- ENOSYS)) \<and>
         (\<exists>s. security_init c [difc_init c True, capability_init c] boot = Ret (s, 0) \<and>
            security_ops s = Some difc_security_ops \<and> sys_alloc_label alloc s = alloc ''difc_alloc_label'')"
proof -
  obtain s0 where 0: "security_init c [] boot = Ret (s0, 0)" "lsm_inv c s0"
    "security_ops s0 = Some dummy_security_ops"
    using security_init_returns by blast
  obtain s1 r1 where 1: "capability_init c s0 = Ret (s1, r1)" "lsm_inv c s1" "security_ops s1 = Some capability_ops"
    using module_init_runs(1) [OF 0(2,3) assms] by auto
  obtain s2 r2 where 2: "difc_init c True s1 = Ret (s2, r2)" "lsm_inv c s2" "security_ops s2 = Some capability_ops"
    using module_init_runs(2) [OF 1(2,3) assms] by auto
  obtain s3 r3 where 3: "difc_init c True s0 = Ret (s3, r3)" "lsm_inv c s3" "security_ops s3 = Some difc_security_ops"
    using module_init_runs(2) [OF 0(2,3) assms] by auto
  obtain s4 r4 where 4: "capability_init c s3 = Ret (s4, r4)" "lsm_inv c s4" "security_ops s4 = Some difc_security_ops"
    using module_init_runs(1) [OF 3(2,3) assms] by auto
  show ?thesis
    using sys_alloc_label_active [OF 2(2,3)] sys_alloc_label_active [OF 4(2,3)] 1 2 3 4
    by (simp add: security_init_calls [OF 0(1)])
qed

lemma capability_keeps_difc_out_example:
  "\<exists>s. security_init (sample_config\<lparr>capability_disable := False\<rparr>)
         [capability_init (sample_config\<lparr>capability_disable := False\<rparr>),
          difc_init (sample_config\<lparr>capability_disable := False\<rparr>) True] boot = Ret (s, 0) \<and>
       sys_alloc_label (\<lambda>f. Ret 7) s = Ret (- ENOSYS)"
  using capability_keeps_difc_out [of "sample_config\<lparr>capability_disable := False\<rparr>" "\<lambda>f. Ret 7"] by auto

end
