(* ===== verification/Region_Refine.thy ===== *)
theory Region_Refine
  imports Regions
begin

text \<open>
  What the secure regions promise. The specification \<open>regions\<close> is a stack of regions, each with
  two sets of labels and two sets of capabilities, and says for every request when it is
  granted and what it changes. The operations of \<open>DIFC.java\<close> refine it, and statements about
  runs of a program are proved on the specification.
\<close>

section \<open>Label sets as objects\<close>

definition objs_ok :: "LabelSet list \<Rightarrow> bool" where
  "objs_ok A \<longleftrightarrow> A \<noteq> [] \<and> A ! 0 = EMPTY \<and> (\<forall>n < length A. ident (A ! n) = n \<and> wf_set (A ! n))"

lemma objs_mem:
  assumes "objs_ok A" "l \<in> set A"
  shows "wf_set l" "A ! ident l = l" "ident l < length A"
  using assms by (auto simp: objs_ok_def in_set_conv_nth)

lemma objs_EMPTY: "objs_ok A \<Longrightarrow> EMPTY \<in> set A"
  by (metis objs_ok_def length_greater_0_conv nth_mem)

lemma objs_coherent: "objs_ok A \<Longrightarrow> S \<subseteq> set A \<Longrightarrow> coherent S"
  unfolding coherent_def by (metis objs_mem(2) subsetD)

lemma objs_grow: "objs_ok A \<Longrightarrow> wf_set l \<Longrightarrow> ident l = length A \<Longrightarrow> objs_ok (A @ [l])"
  by (auto simp: objs_ok_def nth_append less_Suc_eq)

lemma objs_subset:
  "objs_ok A \<Longrightarrow> a \<in> set A \<Longrightarrow> b \<in> set A \<Longrightarrow> isSubsetOf a b \<longleftrightarrow> lset a \<subseteq> lset b"
  by (rule isSubsetOf_iff) (auto intro: objs_mem objs_coherent)

lemma objs_union:
  "objs_ok A \<Longrightarrow> a \<in> set A \<Longrightarrow> b \<in> set A \<Longrightarrow> c \<in> set A \<Longrightarrow>
   checkInUnion a b c \<longleftrightarrow> lset a \<subseteq> lset b \<union> lset c"
  by (rule checkInUnion_iff) (auto intro: objs_mem objs_coherent)

lemma objs_is_EMPTY: "objs_ok A \<Longrightarrow> a \<in> set A \<Longrightarrow> is_EMPTY a \<longleftrightarrow> lset a = {}"
  using is_EMPTY_iff objs_mem by simp

text \<open>Every operation that may create a set extends the objects and nothing else.\<close>

lemma keep_spec:
  assumes "objs_ok (objects v)" "wf_set l" "l \<in> set (objects v) \<or> ident l = length (objects v)"
  shows "\<exists>new. keep l v = v\<lparr>objects := objects v @ new\<rparr> \<and> objs_ok (objects v @ new) \<and>
    l \<in> set (objects v @ new)"
proof (cases "ident l = length (objects v)")
  case True
  then show ?thesis using objs_grow assms by (intro exI [of _ "[l]"]) (simp add: keep_def)
next
  case False
  then show ?thesis using assms by (intro exI [of _ "[]"]) (simp add: keep_def)
qed

lemma objs_length: "objs_ok A \<Longrightarrow> length A \<noteq> 0"
  by (simp add: objs_ok_def)

lemma union_in_spec:
  assumes "objs_ok (objects v)" "a \<in> set (objects v)" "b \<in> set (objects v)" "union_in a b v = (l, v')"
  obtains new where "v' = v\<lparr>objects := objects v @ new\<rparr>" "objs_ok (objects v @ new)"
    "l \<in> set (objects v @ new)" "lset l = lset a \<union> lset b"
proof -
  have u: "wf_set l" "lset l = lset a \<union> lset b" "l \<in> set (objects v) \<or> ident l = length (objects v)"
    "v' = keep l v"
    using assms union_set_spec [of a b "length (objects v)"] objs_mem [OF assms(1)] objs_length [OF assms(1)]
      objs_coherent [OF assms(1), of "{a, b}"] by (auto simp: union_in_def Let_def)
  then show ?thesis using that keep_spec [OF assms(1) u(1,3)] by auto
qed

lemma insert_in_spec:
  assumes "objs_ok (objects v)" "a \<in> set (objects v)" "insert_in a x v = (l, v')"
  obtains new where "v' = v\<lparr>objects := objects v @ new\<rparr>" "objs_ok (objects v @ new)"
    "l \<in> set (objects v @ new)" "lset l = insert x (lset a)"
proof -
  have u: "wf_set l" "lset l = insert x (lset a)" "l \<in> set (objects v) \<or> ident l = length (objects v)"
    "v' = keep l v"
    using assms union_label_spec [of a "length (objects v)" x] objs_mem [OF assms(1)] objs_length [OF assms(1)]
    by (auto simp: insert_in_def Let_def)
  then show ?thesis using that keep_spec [OF assms(1) u(1,3)] by auto
qed

lemma minus_in_spec:
  assumes "objs_ok (objects v)" "a \<in> set (objects v)" "b \<in> set (objects v)" "minus_in a b v = (l, v')"
  obtains new where "v' = v\<lparr>objects := objects v @ new\<rparr>" "objs_ok (objects v @ new)"
    "l \<in> set (objects v @ new)" "lset l = lset a - lset b"
proof -
  have u: "wf_set l" "lset l = lset a - lset b" "l \<in> set (objects v) \<or> ident l = length (objects v)"
    "v' = keep l v"
    using assms minus_set_spec [of a b "length (objects v)"] objs_mem [OF assms(1)] objs_length [OF assms(1)]
      objs_coherent [OF assms(1), of "{a, b}"] objs_EMPTY [OF assms(1)] by (auto simp: minus_in_def Let_def)
  then show ?thesis using that keep_spec [OF assms(1) u(1,3)] by auto
qed

section \<open>Invariant and abstraction\<close>

definition state_in :: "LabelSet list \<Rightarrow> SRState \<Rightarrow> bool" where
  "state_in A st \<longleftrightarrow>
     {secrecySet st, integritySet st, plusCapabilitySet st, minusCapabilitySet st} \<subseteq> set A \<and>
     set_option (secrecyAllocLabels st) \<union> set_option (integrityAllocLabels st) \<subseteq> set A"

definition vm_ok :: "'os vm \<Rightarrow> bool" where
  "vm_ok v \<longleftrightarrow> objs_ok (objects v) \<and> cur (thread v) < length (chain (thread v)) \<and>
     (in_SR v \<longrightarrow> 0 < cur (thread v)) \<and> (\<forall>st \<in> set (chain (thread v)). state_in (objects v) st) \<and>
     {commonPlusCapabilitySet v, commonMinusCapabilitySet v} \<subseteq> set (objects v)"

record region =
  r_sec :: "int set"
  r_int :: "int set"
  r_plus :: "int set"
  r_minus :: "int set"

record regions =
  stack :: "region list"
  inside :: bool
  c_plus :: "int set"
  c_minus :: "int set"

definition abs_state :: "SRState \<Rightarrow> region" where
  "abs_state st = \<lparr>r_sec = lset (secrecySet st), r_int = lset (integritySet st),
     r_plus = lset (plusCapabilitySet st), r_minus = lset (minusCapabilitySet st)\<rparr>"

definition abs_vm :: "'os vm \<Rightarrow> regions" where
  "abs_vm v = \<lparr>stack = rev (map abs_state (take (Suc (cur (thread v))) (chain (thread v)))),
     inside = in_SR v, c_plus = lset (commonPlusCapabilitySet v), c_minus = lset (commonMinusCapabilitySet v)\<rparr>"

lemma state_in_mono: "state_in A st \<Longrightarrow> state_in (A @ B) st"
  by (auto simp: state_in_def)

lemma curState_in: "vm_ok v \<Longrightarrow> state_in (objects v) (curState v)"
  by (simp add: vm_ok_def curState_def)

lemma vm_ok_objs: "vm_ok v \<Longrightarrow> objs_ok (objects v)"
  by (simp add: vm_ok_def)

lemma abs_stack:
  "vm_ok v \<Longrightarrow> stack (abs_vm v) =
    abs_state (curState v) # rev (map abs_state (take (cur (thread v)) (chain (thread v))))"
  by (simp add: vm_ok_def abs_vm_def curState_def take_Suc_conv_app_nth)

lemma vm_ok_grow:
  "vm_ok v \<Longrightarrow> objs_ok (objects v @ new) \<Longrightarrow> vm_ok (v\<lparr>objects := objects v @ new\<rparr>)"
  by (auto simp: vm_ok_def in_SR_def intro: state_in_mono)

lemma abs_vm_ext [simp]:
  "abs_vm (v\<lparr>objects := A\<rparr>) = abs_vm v" "abs_vm (v\<lparr>os := s\<rparr>) = abs_vm v"
  "abs_vm (v\<lparr>secureRegionCount := n\<rparr>) = abs_vm v"
  by (simp_all add: abs_vm_def in_SR_def)

lemma vm_ok_ext [simp]:
  "vm_ok (v\<lparr>os := s\<rparr>) = vm_ok v" "vm_ok (v\<lparr>secureRegionCount := n\<rparr>) = vm_ok v"
  by (simp_all add: vm_ok_def in_SR_def)

lemma take_push:
  assumes "c < length xs"
  shows "Suc c < length xs \<Longrightarrow> take (Suc (Suc c)) (xs[Suc c := x]) = take (Suc c) xs @ [x]"
    "\<not> Suc c < length xs \<Longrightarrow> take (Suc (Suc c)) (xs @ [x]) = take (Suc c) xs @ [x]"
  using assms by (simp_all add: take_Suc_conv_app_nth [of "Suc c"])

lemma push_state_refines:
  assumes "vm_ok v" "state_in (objects v) st"
  shows "vm_ok (push_state st v)"
    "abs_vm (push_state st v) = (abs_vm v)\<lparr>stack := abs_state st # stack (abs_vm v)\<rparr>"
proof -
  have c: "cur (thread v) < length (chain (thread v))" using assms(1) by (simp add: vm_ok_def)
  show "vm_ok (push_state st v)"
    using assms by (auto simp: vm_ok_def push_state_def Let_def in_SR_def dest!: set_update_subset_insert [THEN subsetD])
  show "abs_vm (push_state st v) = (abs_vm v)\<lparr>stack := abs_state st # stack (abs_vm v)\<rparr>"
    using take_push [OF c, of st] by (simp add: abs_vm_def push_state_def Let_def in_SR_def del: take_Suc)
qed

lemma upd_state_ok:
  assumes "vm_ok v" "state_in (objects v) (f (chain (thread v) ! n))"
  shows "vm_ok (upd_state n f v)"
  using assms by (auto simp: vm_ok_def upd_state_def in_SR_def dest!: set_update_subset_insert [THEN subsetD])

text \<open>The region at depth \<open>k\<close> of the stack, the current one at depth 0, is the state at position
  \<open>cur - k\<close>.\<close>

definition on_level :: "nat \<Rightarrow> (region \<Rightarrow> region) \<Rightarrow> regions \<Rightarrow> regions" where
  "on_level k f a = a\<lparr>stack := (stack a)[k := f (stack a ! k)]\<rparr>"

lemma stack_nth:
  "vm_ok v \<Longrightarrow> n \<le> cur (thread v) \<Longrightarrow> stack (abs_vm v) ! (cur (thread v) - n) = abs_state (chain (thread v) ! n)"
  by (simp add: vm_ok_def abs_vm_def rev_nth)

lemma length_stack: "vm_ok v \<Longrightarrow> length (stack (abs_vm v)) = Suc (cur (thread v))"
  by (simp add: vm_ok_def abs_vm_def)

lemma upd_state_refines:
  assumes "vm_ok v" "state_in (objects v) (f (chain (thread v) ! n))" "n \<le> cur (thread v)"
    "abs_state (f (chain (thread v) ! n)) = g (abs_state (chain (thread v) ! n))"
  shows "abs_vm (upd_state n f v) = on_level (cur (thread v) - n) g (abs_vm v)"
proof -
  have "rev (map abs_state (take (Suc (cur (thread v))) ((chain (thread v))[n := x]))) =
      (stack (abs_vm v))[cur (thread v) - n := abs_state x]" for x
    using assms(1,3) by (simp add: abs_vm_def vm_ok_def take_update_swap map_update rev_update)
  then show ?thesis
    using assms(4) stack_nth [OF assms(1,3)] by (simp add: abs_vm_def on_level_def upd_state_def in_SR_def)
qed

lemma upd_state_same [simp]:
  "cur (thread (upd_state n f v)) = cur (thread v)" "in_SR (upd_state n f v) = in_SR v"
  "objects (upd_state n f v) = objects v" "os (upd_state n f v) = os v"
  by (simp_all add: upd_state_def in_SR_def)

lemma abs_state_fields [simp]:
  "r_sec (abs_state st) = lset (secrecySet st)" "r_int (abs_state st) = lset (integritySet st)"
  "r_plus (abs_state st) = lset (plusCapabilitySet st)" "r_minus (abs_state st) = lset (minusCapabilitySet st)"
  "abs_state (secrecySet_update f st) = (abs_state st)\<lparr>r_sec := lset (f (secrecySet st))\<rparr>"
  "abs_state (integritySet_update f st) = (abs_state st)\<lparr>r_int := lset (f (integritySet st))\<rparr>"
  "abs_state (plusCapabilitySet_update f st) = (abs_state st)\<lparr>r_plus := lset (f (plusCapabilitySet st))\<rparr>"
  "abs_state (minusCapabilitySet_update f st) = (abs_state st)\<lparr>r_minus := lset (f (minusCapabilitySet st))\<rparr>"
  "abs_state (st\<lparr>secrecyAllocLabels := x\<rparr>) = abs_state st"
  "abs_state (st\<lparr>integrityAllocLabels := y\<rparr>) = abs_state st"
  "abs_state (st\<lparr>RESTORE_LABELS := b\<rparr>) = abs_state st"
  by (simp_all add: abs_state_def)

lemma abs_vm_fields [simp]:
  "inside (abs_vm v) = in_SR v" "c_plus (abs_vm v) = lset (commonPlusCapabilitySet v)"
  "c_minus (abs_vm v) = lset (commonMinusCapabilitySet v)"
  by (simp_all add: abs_vm_def)

lemma hd_stack: "vm_ok v \<Longrightarrow> hd (stack (abs_vm v)) = abs_state (curState v)"
  by (simp add: abs_stack)

section \<open>The specification\<close>

datatype request =
    Start "LabelSet option" "LabelSet option"
  | StartDecEnd "LabelSet option" "LabelSet option" "LabelSet option" "LabelSet option"
  | End
  | AddSecrecy "LabelSet option"
  | AddIntegrity "LabelSet option"
  | RemoveSecrecy LabelSet
  | RemoveIntegrity LabelSet
  | DropCap LabelSet int
  | DropThreadCap LabelSet int
  | CreateCap int int
  | InitCap LabelSet int
  | SetAlloc bool "LabelSet option" "LabelSet option"
  | ResetAlloc
  | PassLabels
  | NewSet int
  | UnionSets LabelSet LabelSet
  | InsertLabel LabelSet int
  | MinusSets LabelSet LabelSet

definition perform :: "'os sysCall \<Rightarrow> request \<Rightarrow> 'os vm \<Rightarrow> (exn + unit) \<times> 'os vm" where
  "perform S r v =
     (case r of
        Start s i \<Rightarrow> startSecureRegion s i v
      | StartDecEnd s i p m \<Rightarrow> startSecureRegionDecEnd s i p m v
      | End \<Rightarrow> endSecureRegion S v
      | AddSecrecy l \<Rightarrow> addSecrecyLabel l v
      | AddIntegrity l \<Rightarrow> addIntegrityLabel l v
      | RemoveSecrecy l \<Rightarrow> removeSecrecyLabel l v
      | RemoveIntegrity l \<Rightarrow> removeIntegrityLabel l v
      | DropCap l t \<Rightarrow> dropCapability l t v
      | DropThreadCap l t \<Rightarrow> dropThreadCapability l t v
      | CreateCap t g \<Rightarrow> map_prod (map_sum id (\<lambda>_. ())) id (createCapability S t g v)
      | InitCap l t \<Rightarrow> initializeThreadCapability l t v
      | SetAlloc va s i \<Rightarrow> setAllocationLabels va s i v
      | ResetAlloc \<Rightarrow> (Inr (), resetAllocationLabels v)
      | PassLabels \<Rightarrow> (Inr (), snd (OSpassCurrentLabels S v))
      | NewSet x \<Rightarrow> (Inr (), keep (getLabelSet (length (objects v)) x) v)
      | UnionSets a b \<Rightarrow> (Inr (), snd (union_in a b v))
      | InsertLabel a x \<Rightarrow> (Inr (), snd (insert_in a x v))
      | MinusSets a b \<Rightarrow> (Inr (), snd (minus_in a b v)))"

text \<open>A program can only pass sets that exist.\<close>

fun request_sets :: "request \<Rightarrow> LabelSet set" where
  "request_sets (Start s i) = set_option s \<union> set_option i"
| "request_sets (StartDecEnd s i p m) = set_option s \<union> set_option i \<union> set_option p \<union> set_option m"
| "request_sets (AddSecrecy l) = set_option l"
| "request_sets (AddIntegrity l) = set_option l"
| "request_sets (RemoveSecrecy l) = {l}"
| "request_sets (RemoveIntegrity l) = {l}"
| "request_sets (DropCap l t) = {l}"
| "request_sets (DropThreadCap l t) = {l}"
| "request_sets (InitCap l t) = {l}"
| "request_sets (SetAlloc va s i) = set_option s \<union> set_option i"
| "request_sets (UnionSets a b) = {a, b}"
| "request_sets (InsertLabel a x) = {a}"
| "request_sets (MinusSets a b) = {a, b}"
| "request_sets _ = {}"

definition is_type :: "int \<Rightarrow> bool" where
  "is_type t \<longleftrightarrow> t = PLUS_CAPABILITY \<or> t = MINUS_CAPABILITY \<or> t = BOTH_CAPABILITY"

definition for_plus :: "int \<Rightarrow> bool" where
  "for_plus t \<longleftrightarrow> t = PLUS_CAPABILITY \<or> t = BOTH_CAPABILITY"

definition for_minus :: "int \<Rightarrow> bool" where
  "for_minus t \<longleftrightarrow> t = MINUS_CAPABILITY \<or> t = BOTH_CAPABILITY"

definition a_start :: "int set \<Rightarrow> int set \<Rightarrow> int set \<Rightarrow> int set \<Rightarrow> regions \<Rightarrow> bool \<times> regions" where
  "a_start p m s i a =
     (let r = hd (stack a);
          P = r_plus r \<union> (if inside a then {} else c_plus a);
          M = r_minus r \<union> (if inside a then {} else c_minus a)
      in if s \<subseteq> P \<union> r_sec r \<and> r_sec r \<subseteq> M \<union> s \<and> i \<subseteq> P \<union> r_int r \<and> r_int r \<subseteq> M \<union> i \<and> p \<subseteq> P \<and> m \<subseteq> M
         then (True, a\<lparr>stack := \<lparr>r_sec = s, r_int = i, r_plus = p, r_minus = m\<rparr> # stack a, inside := True\<rparr>)
         else (False, a\<lparr>stack := \<lparr>r_sec = {}, r_int = {}, r_plus = {}, r_minus = {}\<rparr> # stack a\<rparr>))"

definition a_end :: "regions \<Rightarrow> bool \<times> regions" where
  "a_end a = (if inside a then (True, a\<lparr>stack := tl (stack a), inside := (length (stack a) \<noteq> 2)\<rparr>) else (True, a))"

definition a_drop :: "int \<Rightarrow> int set \<Rightarrow> region \<Rightarrow> region" where
  "a_drop t L r = r\<lparr>r_plus := (if for_plus t then r_plus r - L else r_plus r),
     r_minus := (if for_minus t then r_minus r - L else r_minus r)\<rparr>"

definition a_add :: "int \<Rightarrow> int \<Rightarrow> region \<Rightarrow> region" where
  "a_add t x r = r\<lparr>r_plus := (if for_plus t then insert x (r_plus r) else r_plus r),
     r_minus := (if for_minus t then insert x (r_minus r) else r_minus r)\<rparr>"

definition a_share :: "int \<Rightarrow> int \<Rightarrow> regions \<Rightarrow> regions" where
  "a_share t x a = a\<lparr>c_plus := (if for_plus t then insert x (c_plus a) else c_plus a),
     c_minus := (if for_minus t then insert x (c_minus a) else c_minus a)\<rparr>"

definition a_set :: "int \<Rightarrow> int set \<Rightarrow> region \<Rightarrow> region" where
  "a_set t L r = r\<lparr>r_plus := (if for_plus t then L else r_plus r),
     r_minus := (if for_minus t then L else r_minus r)\<rparr>"

definition olset :: "LabelSet option \<Rightarrow> int set" where
  "olset l = lset (or_EMPTY l)"

text \<open>The argument \<open>x\<close> is the label the operating system returns for a new capability.\<close>

fun a_perform :: "int \<Rightarrow> request \<Rightarrow> regions \<Rightarrow> bool \<times> regions" where
  "a_perform x (Start s i) a = a_start {} {} (olset s) (olset i) a"
| "a_perform x (StartDecEnd s i p m) a = a_start (olset p) (olset m) (olset s) (olset i) a"
| "a_perform x End a = a_end a"
| "a_perform x (AddSecrecy l) a =
     (if l = None then (True, a)
      else if inside a \<and> olset l \<subseteq> r_plus (hd (stack a))
      then (True, on_level 0 (\<lambda>r. r\<lparr>r_sec := r_sec r \<union> olset l\<rparr>) a) else (False, a))"
| "a_perform x (AddIntegrity l) a =
     (if l = None then (True, a)
      else if inside a \<and> olset l \<subseteq> r_plus (hd (stack a))
      then (True, on_level 0 (\<lambda>r. r\<lparr>r_int := r_int r \<union> olset l\<rparr>) a) else (False, a))"
| "a_perform x (RemoveSecrecy l) a =
     (if inside a \<and> lset l \<subseteq> r_minus (hd (stack a))
      then (True, on_level 0 (\<lambda>r. r\<lparr>r_sec := r_sec r - lset l\<rparr>) a) else (False, a))"
| "a_perform x (RemoveIntegrity l) a =
     (if inside a \<and> lset l \<subseteq> r_minus (hd (stack a))
      then (True, on_level 0 (\<lambda>r. r\<lparr>r_int := r_int r - lset l\<rparr>) a) else (False, a))"
| "a_perform x (DropCap l t) a =
     (if is_type t then (True, on_level 0 (a_drop t (lset l)) a) else (False, a))"
| "a_perform x (DropThreadCap l t) a =
     (if r_sec (hd (stack a)) = {} \<and> is_type t
      then (True, (if inside a then on_level 1 (a_drop t (lset l)) else id) (on_level 0 (a_drop t (lset l)) a))
      else (False, a))"
| "a_perform x (CreateCap t g) a =
     (if r_sec (hd (stack a)) = {} \<and> is_type t \<and> 0 < x
      then (True, (if g = SR_REGION_GROUP then a_share t x else id)
             ((if inside a \<and> g = SR_REGION_SELF then on_level 1 (a_add t x) else id) (on_level 0 (a_add t x) a)))
      else (False, a))"
| "a_perform x (InitCap l t) a =
     (if inside a then (False, a) else (True, on_level 0 (a_set t (lset l)) a))"
| "a_perform x (SetAlloc va s i) a =
     (\<not> va \<or> s \<noteq> None \<and> i \<noteq> None \<and> olset s \<noteq> {} \<and> olset i \<noteq> {}, a)"
| "a_perform x _ a = (True, a)"

section \<open>Refinement\<close>

lemma state_in_fields:
  assumes "state_in A st"
  shows "secrecySet st \<in> set A" "integritySet st \<in> set A" "plusCapabilitySet st \<in> set A"
    "minusCapabilitySet st \<in> set A"
  using assms by (auto simp: state_in_def)

lemma clearState_in: "objs_ok A \<Longrightarrow> state_in A clearState"
  by (simp add: clearState_def setState_def state_in_def objs_EMPTY)

lemma abs_clearState: "abs_state clearState = \<lparr>r_sec = {}, r_int = {}, r_plus = {}, r_minus = {}\<rparr>"
  by (simp add: clearState_def setState_def abs_state_def)

lemma or_EMPTY_in: "objs_ok A \<Longrightarrow> set_option l \<subseteq> set A \<Longrightarrow> or_EMPTY l \<in> set A"
  by (auto simp: or_EMPTY_def objs_EMPTY split: option.split)

definition refined :: "(exn + unit) \<times> 'os vm \<Rightarrow> bool \<times> regions \<Rightarrow> bool" where
  "refined p q \<longleftrightarrow> vm_ok (snd p) \<and> abs_vm (snd p) = snd q \<and> (isl (fst p) \<longleftrightarrow> \<not> fst q)"

lemma grow_thread [simp]:
  "thread (v\<lparr>objects := A\<rparr>) = thread v" "curState (v\<lparr>objects := A\<rparr>) = curState v"
  "in_SR (v\<lparr>objects := A\<rparr>) = in_SR v"
  by (simp_all add: curState_def in_SR_def)

lemma start_caps:
  assumes "vm_ok v" "a \<in> set (objects v)" "c \<in> set (objects v)"
    "(if \<not> b then union_in a c v else (a, v)) = (l, v')"
  obtains new where "v' = v\<lparr>objects := objects v @ new\<rparr>" "vm_ok v'" "l \<in> set (objects v')"
    "lset l = lset a \<union> (if b then {} else lset c)"
proof (cases b)
  case True
  then show ?thesis using assms that [of "[]"] by simp
next
  case False
  then have "union_in a c v = (l, v')" using assms(4) by simp
  then obtain new where "v' = v\<lparr>objects := objects v @ new\<rparr>" "objs_ok (objects v @ new)"
    "l \<in> set (objects v @ new)" "lset l = lset a \<union> lset c"
    using union_in_spec vm_ok_objs assms(1-3) by blast
  then show ?thesis using that [of new] vm_ok_grow [OF assms(1), of new] False by simp
qed

lemma throwStartError_refines:
  "vm_ok v \<Longrightarrow> refined (throwStartError e v)
     (False, (abs_vm v)\<lparr>stack := \<lparr>r_sec = {}, r_int = {}, r_plus = {}, r_minus = {}\<rparr> # stack (abs_vm v)\<rparr>)"
  using push_state_refines [OF _ clearState_in] vm_ok_objs
  by (auto simp: refined_def throwStartError_def abs_clearState)

lemma refined_checks:
  assumes "\<And>e. refined (t e) y" "refined ok x"
  shows "refined (if \<not> c1 then t e1 else if \<not> c2 then t e2 else if \<not> c3 then t e3 else if \<not> c4 then t e4
      else if \<not> c5 then t e5 else if \<not> c6 then t e6 else ok)
    (if c1 \<and> c2 \<and> c3 \<and> c4 \<and> c5 \<and> c6 then x else y)"
  using assms by auto

lemma start_push_refines:
  assumes "vm_ok v" "{p, m, s, i} \<subseteq> set (objects v)"
    and that: "v2 = push_state (setState p m s i False None None) v"
  shows "vm_ok (v2\<lparr>thread := (thread v2)\<lparr>inSecureRegion := True\<rparr>, secureRegionCount := n\<rparr>) \<and>
    abs_vm (v2\<lparr>thread := (thread v2)\<lparr>inSecureRegion := True\<rparr>, secureRegionCount := n\<rparr>) =
      (abs_vm v)\<lparr>stack := \<lparr>r_sec = lset s, r_int = lset i, r_plus = lset p, r_minus = lset m\<rparr> # stack (abs_vm v),
        inside := True\<rparr>"
proof -
  have "state_in (objects v) (setState p m s i False None None)"
    using assms(2) by (simp add: state_in_def setState_def)
  note r = push_state_refines [OF assms(1) this, folded that]
  have "0 < cur (thread v2)" using that by (auto simp: push_state_def Let_def)
  then show ?thesis
    using r by (auto simp: vm_ok_def abs_vm_def in_SR_def abs_state_def setState_def)
qed

lemma startSecureRegionHelper_refines:
  assumes "vm_ok v" "{p, m, s, i} \<subseteq> set (objects v)"
  shows "refined (startSecureRegionHelper p m s i v) (a_start (lset p) (lset m) (lset s) (lset i) (abs_vm v))"
proof -
  let ?st = "curState v"
  have st: "plusCapabilitySet ?st \<in> set (objects v)" "minusCapabilitySet ?st \<in> set (objects v)"
    "secrecySet ?st \<in> set (objects v)" "integritySet ?st \<in> set (objects v)"
    using curState_in [OF assms(1)] by (auto simp: state_in_def)
  have cm: "commonPlusCapabilitySet v \<in> set (objects v)" "commonMinusCapabilitySet v \<in> set (objects v)"
    using assms(1) by (auto simp: vm_ok_def)
  obtain P v1 where 1: "(if \<not> in_SR v then union_in (plusCapabilitySet ?st) (commonPlusCapabilitySet v) v
      else (plusCapabilitySet ?st, v)) = (P, v1)" by fastforce
  obtain new1 where v1: "v1 = v\<lparr>objects := objects v @ new1\<rparr>" "vm_ok v1" "P \<in> set (objects v1)"
    "lset P = lset (plusCapabilitySet ?st) \<union> (if in_SR v then {} else lset (commonPlusCapabilitySet v))"
    by (rule start_caps [OF assms(1) st(1) cm(1) 1])
  obtain M w where 2: "(if \<not> in_SR v then union_in (minusCapabilitySet ?st) (commonMinusCapabilitySet v) v1
      else (minusCapabilitySet ?st, v1)) = (M, w)" by fastforce
  have "minusCapabilitySet ?st \<in> set (objects v1)" "commonMinusCapabilitySet v \<in> set (objects v1)"
    using st(2) cm(2) v1(1) by auto
  then obtain new2 where w: "w = v1\<lparr>objects := objects v1 @ new2\<rparr>" "vm_ok w" "M \<in> set (objects w)"
    "lset M = lset (minusCapabilitySet ?st) \<union> (if in_SR v then {} else lset (commonMinusCapabilitySet v))"
    using start_caps [OF v1(2) _ _ 2] by blast
  have mem: "P \<in> set (objects w)" "secrecySet ?st \<in> set (objects w)" "integritySet ?st \<in> set (objects w)"
    "{p, m, s, i} \<subseteq> set (objects w)"
    using v1 w(1) st assms(2) by auto
  have ab: "abs_vm w = abs_vm v" using v1(1) w(1) by simp
  note o = vm_ok_objs [OF w(2)]
  have "checkInUnion s P (secrecySet ?st) \<longleftrightarrow> lset s \<subseteq> lset P \<union> lset (secrecySet ?st)"
    "checkInUnion (secrecySet ?st) M s \<longleftrightarrow> lset (secrecySet ?st) \<subseteq> lset M \<union> lset s"
    "checkInUnion i P (integritySet ?st) \<longleftrightarrow> lset i \<subseteq> lset P \<union> lset (integritySet ?st)"
    "checkInUnion (integritySet ?st) M i \<longleftrightarrow> lset (integritySet ?st) \<subseteq> lset M \<union> lset i"
    "isSubsetOf p P \<longleftrightarrow> lset p \<subseteq> lset P" "isSubsetOf m M \<longleftrightarrow> lset m \<subseteq> lset M"
    using objs_union [OF o] objs_subset [OF o] mem w(3) by auto
  note checks = this [unfolded v1(4) w(4)]
  note fails = throwStartError_refines [OF w(2), unfolded ab]
  note succeeds = start_push_refines [OF w(2) mem(4) refl, unfolded ab]
  show ?thesis
    unfolding startSecureRegionHelper_def Let_def 1 2 prod.case checks a_start_def hd_stack [OF assms(1)]
      abs_vm_fields abs_state_fields
    by (rule refined_checks [OF fails]) (use succeeds in \<open>simp add: refined_def\<close>)
qed

lemma endSecureRegion_refines:
  assumes "vm_ok v"
  shows "refined (endSecureRegion S v) (a_end (abs_vm v))"
proof (cases "in_SR v")
  case False
  then show ?thesis using assms by (simp add: refined_def endSecureRegion_def a_end_def)
next
  case True
  then obtain n where n: "cur (thread v) = Suc n" using assms by (cases "cur (thread v)") (auto simp: vm_ok_def)
  let ?v1 = "if RESTORE_LABELS (curState v) then v\<lparr>os := snd (sysPassLabels S None 0 None 0 (os v))\<rparr> else v"
  have v1: "vm_ok ?v1" "abs_vm ?v1 = abs_vm v" "thread ?v1 = thread v" "objects ?v1 = objects v"
    "commonPlusCapabilitySet ?v1 = commonPlusCapabilitySet v" "commonMinusCapabilitySet ?v1 = commonMinusCapabilitySet v"
    using assms by auto
  have e: "endSecureRegion S v = (Inr (), ?v1\<lparr>thread := (thread v)\<lparr>cur := n, inSecureRegion := n \<noteq> 0\<rparr>\<rparr>)"
    using True n v1(3) by (simp add: endSecureRegion_def Let_def in_SR_def)
  have "rev (map abs_state (take (Suc n) (chain (thread v)))) = tl (stack (abs_vm v))"
    using abs_stack [OF assms] n by simp
  moreover have "length (stack (abs_vm v)) = Suc (Suc n)" using length_stack [OF assms] n by simp
  moreover have "vm_ok (?v1\<lparr>thread := (thread v)\<lparr>cur := n, inSecureRegion := n \<noteq> 0\<rparr>\<rparr>)"
    using v1(1) n unfolding vm_ok_def in_SR_def v1(3) by simp
  ultimately show ?thesis
    unfolding e refined_def a_end_def using True v1(5,6) by (simp add: abs_vm_def in_SR_def)
qed

lemma state_in_update:
  assumes "state_in A st" "u \<in> set A"
  shows "state_in A (secrecySet_update (\<lambda>_. u) st)" "state_in A (integritySet_update (\<lambda>_. u) st)"
    "state_in A (plusCapabilitySet_update (\<lambda>_. u) st)" "state_in A (minusCapabilitySet_update (\<lambda>_. u) st)"
  using assms by (auto simp: state_in_def)

lemma chain_in: "vm_ok v \<Longrightarrow> n \<le> cur (thread v) \<Longrightarrow> state_in (objects v @ B) (chain (thread v) ! n)"
  by (auto simp: vm_ok_def intro: state_in_mono)

text \<open>An assignment to a field after the objects have grown.\<close>

lemma modify_refines:
  assumes "vm_ok v" "objs_ok (objects v @ new)" "n \<le> cur (thread v)"
    "state_in (objects v @ new) (f (chain (thread v) ! n))"
    "abs_state (f (chain (thread v) ! n)) = g (abs_state (chain (thread v) ! n))"
  shows "vm_ok (upd_state n f (v\<lparr>objects := objects v @ new\<rparr>))"
    "abs_vm (upd_state n f (v\<lparr>objects := objects v @ new\<rparr>)) = on_level (cur (thread v) - n) g (abs_vm v)"
proof -
  let ?w = "v\<lparr>objects := objects v @ new\<rparr>"
  have w: "vm_ok ?w" "state_in (objects ?w) (f (chain (thread ?w) ! n))" "n \<le> cur (thread ?w)"
    "abs_state (f (chain (thread ?w) ! n)) = g (abs_state (chain (thread ?w) ! n))"
    using vm_ok_grow [OF assms(1,2)] assms by simp_all
  show "vm_ok (upd_state n f ?w)" using w(1,2) by (rule upd_state_ok)
  show "abs_vm (upd_state n f ?w) = on_level (cur (thread v) - n) g (abs_vm v)"
    using upd_state_refines [where f = f and g = g, OF w] by simp
qed

text \<open>What every update of one field of a state shares: the state remains well formed, the
  position and the flag stay, and the objects only grow.\<close>

definition touched :: "nat \<Rightarrow> (region \<Rightarrow> region) \<Rightarrow> 'os vm \<Rightarrow> 'os vm \<Rightarrow> bool" where
  "touched n g v w \<longleftrightarrow> vm_ok w \<and> abs_vm w = on_level (cur (thread v) - n) g (abs_vm v) \<and>
     cur (thread w) = cur (thread v) \<and> in_SR w = in_SR v \<and> set (objects v) \<subseteq> set (objects w) \<and> os w = os v"

lemma touchedI:
  assumes "vm_ok v" "objs_ok (objects v @ new)" "n \<le> cur (thread v)"
    "state_in (objects v @ new) (f (chain (thread v) ! n))"
    "abs_state (f (chain (thread v) ! n)) = g (abs_state (chain (thread v) ! n))"
  shows "touched n g v (upd_state n f (v\<lparr>objects := objects v @ new\<rparr>))"
  using modify_refines [where f = f and g = g, OF assms] by (simp add: touched_def)

lemma minus_touched:
  assumes "vm_ok v" "l \<in> set (objects v)" "n \<le> cur (thread v)"
  shows "touched n (\<lambda>r. r\<lparr>r_plus := r_plus r - lset l\<rparr>) v (drop_plus l n v)"
    "touched n (\<lambda>r. r\<lparr>r_minus := r_minus r - lset l\<rparr>) v (drop_minus l n v)"
proof -
  note st = chain_in [OF assms(1) assms(3)]
  note o = vm_ok_objs [OF assms(1)]
  note m = state_in_fields [OF st [of "[]", unfolded append_Nil2]]
  obtain u0 w0 where 1: "minus_in (plusCapabilitySet (chain (thread v) ! n)) l v = (u0, w0)" by fastforce
  obtain new0 where a0: "w0 = v\<lparr>objects := objects v @ new0\<rparr>" "objs_ok (objects v @ new0)"
    "u0 \<in> set (objects v @ new0)" "lset u0 = lset (plusCapabilitySet (chain (thread v) ! n)) - lset l"
    by (rule minus_in_spec [OF o m(3) assms(2) 1])
  have "drop_plus l n v = upd_state n (plusCapabilitySet_update (\<lambda>_. u0)) (v\<lparr>objects := objects v @ new0\<rparr>)"
    using 1 a0(1) by (simp add: drop_plus_def)
  then show "touched n (\<lambda>r. r\<lparr>r_plus := r_plus r - lset l\<rparr>) v (drop_plus l n v)"
    using touchedI [of v new0 n "plusCapabilitySet_update (\<lambda>_. u0)" "\<lambda>r. r\<lparr>r_plus := r_plus r - lset l\<rparr>"]
      assms a0(2,4) state_in_update [OF st a0(3)] by simp
  obtain u1 w1 where 2: "minus_in (minusCapabilitySet (chain (thread v) ! n)) l v = (u1, w1)" by fastforce
  obtain new1 where a1: "w1 = v\<lparr>objects := objects v @ new1\<rparr>" "objs_ok (objects v @ new1)"
    "u1 \<in> set (objects v @ new1)" "lset u1 = lset (minusCapabilitySet (chain (thread v) ! n)) - lset l"
    by (rule minus_in_spec [OF o m(4) assms(2) 2])
  have "drop_minus l n v = upd_state n (minusCapabilitySet_update (\<lambda>_. u1)) (v\<lparr>objects := objects v @ new1\<rparr>)"
    using 2 a1(1) by (simp add: drop_minus_def)
  then show "touched n (\<lambda>r. r\<lparr>r_minus := r_minus r - lset l\<rparr>) v (drop_minus l n v)"
    using touchedI [of v new1 n "minusCapabilitySet_update (\<lambda>_. u1)" "\<lambda>r. r\<lparr>r_minus := r_minus r - lset l\<rparr>"]
      assms a1(2,4) state_in_update [OF st a1(3)] by simp
qed

lemma plus_touched:
  assumes "vm_ok v" "n \<le> cur (thread v)"
  shows "touched n (\<lambda>r. r\<lparr>r_plus := insert x (r_plus r)\<rparr>) v (add_plus x n v)"
    "touched n (\<lambda>r. r\<lparr>r_minus := insert x (r_minus r)\<rparr>) v (add_minus x n v)"
proof -
  note st = chain_in [OF assms(1) assms(2)]
  note o = vm_ok_objs [OF assms(1)]
  note m = state_in_fields [OF st [of "[]", unfolded append_Nil2]]
  obtain u0 w0 where 1: "insert_in (plusCapabilitySet (chain (thread v) ! n)) x v = (u0, w0)" by fastforce
  obtain new0 where a0: "w0 = v\<lparr>objects := objects v @ new0\<rparr>" "objs_ok (objects v @ new0)"
    "u0 \<in> set (objects v @ new0)" "lset u0 = insert x (lset (plusCapabilitySet (chain (thread v) ! n)))"
    by (rule insert_in_spec [OF o m(3) 1])
  have "add_plus x n v = upd_state n (plusCapabilitySet_update (\<lambda>_. u0)) (v\<lparr>objects := objects v @ new0\<rparr>)"
    using 1 a0(1) by (simp add: add_plus_def)
  then show "touched n (\<lambda>r. r\<lparr>r_plus := insert x (r_plus r)\<rparr>) v (add_plus x n v)"
    using touchedI [of v new0 n "plusCapabilitySet_update (\<lambda>_. u0)" "\<lambda>r. r\<lparr>r_plus := insert x (r_plus r)\<rparr>"]
      assms a0(2,4) state_in_update [OF st a0(3)] by simp
  obtain u1 w1 where 2: "insert_in (minusCapabilitySet (chain (thread v) ! n)) x v = (u1, w1)" by fastforce
  obtain new1 where a1: "w1 = v\<lparr>objects := objects v @ new1\<rparr>" "objs_ok (objects v @ new1)"
    "u1 \<in> set (objects v @ new1)" "lset u1 = insert x (lset (minusCapabilitySet (chain (thread v) ! n)))"
    by (rule insert_in_spec [OF o m(4) 2])
  have "add_minus x n v = upd_state n (minusCapabilitySet_update (\<lambda>_. u1)) (v\<lparr>objects := objects v @ new1\<rparr>)"
    using 2 a1(1) by (simp add: add_minus_def)
  then show "touched n (\<lambda>r. r\<lparr>r_minus := insert x (r_minus r)\<rparr>) v (add_minus x n v)"
    using touchedI [of v new1 n "minusCapabilitySet_update (\<lambda>_. u1)" "\<lambda>r. r\<lparr>r_minus := insert x (r_minus r)\<rparr>"]
      assms a1(2,4) state_in_update [OF st a1(3)] by simp
qed

lemma touched_trans:
  assumes "vm_ok v" "touched n g v w" "touched n h w x"
  shows "touched n (h \<circ> g) v x"
proof -
  have "cur (thread v) - n < length (stack (abs_vm v))" using length_stack [OF assms(1)] by simp
  then show ?thesis using assms(2,3) by (auto simp: touched_def on_level_def)
qed

lemma touched_refl: "vm_ok v \<Longrightarrow> touched n (\<lambda>r. r) v v"
  by (simp add: touched_def on_level_def)

lemma touched_cong: "touched n g v w \<Longrightarrow> (\<And>r. g r = h r) \<Longrightarrow> touched n h v w"
  by (simp add: touched_def on_level_def)

lemma drop_at_touched:
  assumes "vm_ok v" "l \<in> set (objects v)" "n \<le> cur (thread v)"
  shows "touched n (a_drop t (lset l)) v (drop_at l t n v)"
proof -
  define w where "w = (if for_plus t then drop_plus l n v else v)"
  have 1: "touched n (\<lambda>r. r\<lparr>r_plus := if for_plus t then r_plus r - lset l else r_plus r\<rparr>) v w"
    using minus_touched(1) [OF assms] touched_refl [OF assms(1)] by (simp add: w_def)
  then have w: "vm_ok w" "l \<in> set (objects w)" "n \<le> cur (thread w)" using assms by (auto simp: touched_def)
  have "touched n (\<lambda>r. r\<lparr>r_minus := if for_minus t then r_minus r - lset l else r_minus r\<rparr>) w
      (if for_minus t then drop_minus l n w else w)"
    using minus_touched(2) [OF w] touched_refl [OF w(1)] by simp
  note 2 = touched_trans [OF assms(1) 1 this]
  have "drop_at l t n v = (if for_minus t then drop_minus l n w else w)"
    by (simp add: drop_at_def for_plus_def for_minus_def w_def Let_def)
  then show ?thesis using touched_cong [OF 2, of "a_drop t (lset l)"] by (simp add: a_drop_def)
qed

lemma add_at_touched:
  assumes "vm_ok v" "n \<le> cur (thread v)"
  shows "touched n (a_add t x) v (add_at t x n v)"
proof -
  define w where "w = (if for_plus t then add_plus x n v else v)"
  have 1: "touched n (\<lambda>r. r\<lparr>r_plus := if for_plus t then insert x (r_plus r) else r_plus r\<rparr>) v w"
    using plus_touched(1) [OF assms] touched_refl [OF assms(1)] by (simp add: w_def)
  then have w: "vm_ok w" "n \<le> cur (thread w)" using assms by (auto simp: touched_def)
  have "touched n (\<lambda>r. r\<lparr>r_minus := if for_minus t then insert x (r_minus r) else r_minus r\<rparr>) w
      (if for_minus t then add_minus x n w else w)"
    using plus_touched(2) [OF w] touched_refl [OF w(1)] by simp
  note 2 = touched_trans [OF assms(1) 1 this]
  have "add_at t x n v = (if for_minus t then add_minus x n w else w)"
    by (simp add: add_at_def for_plus_def for_minus_def w_def Let_def)
  then show ?thesis using touched_cong [OF 2, of "a_add t x"] by (simp add: a_add_def)
qed

lemma parent_exists:
  "vm_ok v \<Longrightarrow> in_SR v \<Longrightarrow> \<exists>n. cur (thread v) = Suc n"
  by (cases "cur (thread v)") (auto simp: vm_ok_def)

lemma dropCapability_refines:
  assumes "vm_ok v" "l \<in> set (objects v)"
  shows "refined (dropCapability l t v) (a_perform x (DropCap l t) (abs_vm v))"
  using drop_at_touched [OF assms order_refl, of t] assms(1)
  by (auto simp: refined_def dropCapability_def touched_def is_type_def)

lemma dropThreadCapability_refines:
  assumes "vm_ok v" "l \<in> set (objects v)"
  shows "refined (dropThreadCapability l t v) (a_perform x (DropThreadCap l t) (abs_vm v))"
proof (cases "is_EMPTY (secrecySet (curState v)) \<and> is_type t")
  case False
  then show ?thesis
    using assms(1) hd_stack [OF assms(1)] objs_is_EMPTY [OF vm_ok_objs [OF assms(1)]]
      state_in_fields(1) [OF curState_in [OF assms(1)]]
    by (auto simp: refined_def dropThreadCapability_def dropCapability_def is_type_def)
next
  case True
  let ?w = "drop_at l t (cur (thread v)) v"
  have e: "lset (secrecySet (curState v)) = {}"
    using True objs_is_EMPTY [OF vm_ok_objs [OF assms(1)]] state_in_fields(1) [OF curState_in [OF assms(1)]] by blast
  note w = drop_at_touched [OF assms order_refl, of t]
  have d: "dropCapability l t v = (Inr (), ?w)" using True by (auto simp: dropCapability_def is_type_def)
  show ?thesis
  proof (cases "in_SR v")
    case False
    then show ?thesis
      using True w d e hd_stack [OF assms(1)] by (auto simp: refined_def dropThreadCapability_def touched_def)
  next
    case sr: True
    then obtain n where n: "cur (thread v) = Suc n" using parent_exists [OF assms(1)] by blast
    have "vm_ok ?w" "l \<in> set (objects ?w)" "n \<le> cur (thread ?w)" using w n assms(2) by (auto simp: touched_def)
    from drop_at_touched [OF this, of t] show ?thesis
      using True sr w d e n hd_stack [OF assms(1)]
      by (auto simp: refined_def dropThreadCapability_def touched_def)
  qed
qed

lemma addSecrecyLabel_refines:
  assumes "vm_ok v" "l \<in> set (objects v)"
  shows "refined (addSecrecyLabel (Some l) v) (a_perform x (AddSecrecy (Some l)) (abs_vm v))"
proof -
  note st = chain_in [OF assms(1) order_refl]
  note m = state_in_fields [OF curState_in [OF assms(1)]]
  note o = vm_ok_objs [OF assms(1)]
  obtain u w where 1: "union_in (secrecySet (curState v)) l v = (u, w)" by fastforce
  obtain new where a: "w = v\<lparr>objects := objects v @ new\<rparr>" "objs_ok (objects v @ new)"
    "u \<in> set (objects v @ new)" "lset u = lset (secrecySet (curState v)) \<union> lset l"
    by (rule union_in_spec [OF o m(1) assms(2) 1])
  have "touched (cur (thread v)) (\<lambda>r. r\<lparr>r_sec := r_sec r \<union> lset l\<rparr>) v (upd_cur (secrecySet_update (\<lambda>_. u)) w)"
    unfolding a(1) upd_cur_def grow_thread
    using touchedI [of v new "cur (thread v)" "secrecySet_update (\<lambda>_. u)" "\<lambda>r. r\<lparr>r_sec := r_sec r \<union> lset l\<rparr>"]
      assms(1) a(2,4) state_in_update [OF st a(3)] by (simp add: curState_def)
  then show ?thesis
    using assms(1) 1 hd_stack [OF assms(1)] objs_subset [OF o assms(2) m(3)]
    by (auto simp: refined_def addSecrecyLabel_def touched_def olset_def or_EMPTY_def)
qed

lemma addIntegrityLabel_refines:
  assumes "vm_ok v" "l \<in> set (objects v)"
  shows "refined (addIntegrityLabel (Some l) v) (a_perform x (AddIntegrity (Some l)) (abs_vm v))"
proof -
  note st = chain_in [OF assms(1) order_refl]
  note m = state_in_fields [OF curState_in [OF assms(1)]]
  note o = vm_ok_objs [OF assms(1)]
  obtain u w where 1: "union_in (integritySet (curState v)) l v = (u, w)" by fastforce
  obtain new where a: "w = v\<lparr>objects := objects v @ new\<rparr>" "objs_ok (objects v @ new)"
    "u \<in> set (objects v @ new)" "lset u = lset (integritySet (curState v)) \<union> lset l"
    by (rule union_in_spec [OF o m(2) assms(2) 1])
  have "touched (cur (thread v)) (\<lambda>r. r\<lparr>r_int := r_int r \<union> lset l\<rparr>) v (upd_cur (integritySet_update (\<lambda>_. u)) w)"
    unfolding a(1) upd_cur_def grow_thread
    using touchedI [of v new "cur (thread v)" "integritySet_update (\<lambda>_. u)" "\<lambda>r. r\<lparr>r_int := r_int r \<union> lset l\<rparr>"]
      assms(1) a(2,4) state_in_update [OF st a(3)] by (simp add: curState_def)
  then show ?thesis
    using assms(1) 1 hd_stack [OF assms(1)] objs_subset [OF o assms(2) m(3)]
    by (auto simp: refined_def addIntegrityLabel_def touched_def olset_def or_EMPTY_def)
qed

lemma removeSecrecyLabel_refines:
  assumes "vm_ok v" "l \<in> set (objects v)"
  shows "refined (removeSecrecyLabel l v) (a_perform x (RemoveSecrecy l) (abs_vm v))"
proof -
  note st = chain_in [OF assms(1) order_refl]
  note m = state_in_fields [OF curState_in [OF assms(1)]]
  note o = vm_ok_objs [OF assms(1)]
  obtain u w where 1: "minus_in (secrecySet (curState v)) l v = (u, w)" by fastforce
  obtain new where a: "w = v\<lparr>objects := objects v @ new\<rparr>" "objs_ok (objects v @ new)"
    "u \<in> set (objects v @ new)" "lset u = lset (secrecySet (curState v)) - lset l"
    by (rule minus_in_spec [OF o m(1) assms(2) 1])
  have "touched (cur (thread v)) (\<lambda>r. r\<lparr>r_sec := r_sec r - lset l\<rparr>) v (upd_cur (secrecySet_update (\<lambda>_. u)) w)"
    unfolding a(1) upd_cur_def grow_thread
    using touchedI [of v new "cur (thread v)" "secrecySet_update (\<lambda>_. u)" "\<lambda>r. r\<lparr>r_sec := r_sec r - lset l\<rparr>"]
      assms(1) a(2,4) state_in_update [OF st a(3)] by (simp add: curState_def)
  then show ?thesis
    using assms(1) 1 hd_stack [OF assms(1)] objs_subset [OF o assms(2) m(4)]
    by (auto simp: refined_def removeSecrecyLabel_def touched_def olset_def or_EMPTY_def)
qed

lemma removeIntegrityLabel_refines:
  assumes "vm_ok v" "l \<in> set (objects v)"
  shows "refined (removeIntegrityLabel l v) (a_perform x (RemoveIntegrity l) (abs_vm v))"
proof -
  note st = chain_in [OF assms(1) order_refl]
  note m = state_in_fields [OF curState_in [OF assms(1)]]
  note o = vm_ok_objs [OF assms(1)]
  obtain u w where 1: "minus_in (integritySet (curState v)) l v = (u, w)" by fastforce
  obtain new where a: "w = v\<lparr>objects := objects v @ new\<rparr>" "objs_ok (objects v @ new)"
    "u \<in> set (objects v @ new)" "lset u = lset (integritySet (curState v)) - lset l"
    by (rule minus_in_spec [OF o m(2) assms(2) 1])
  have "touched (cur (thread v)) (\<lambda>r. r\<lparr>r_int := r_int r - lset l\<rparr>) v (upd_cur (integritySet_update (\<lambda>_. u)) w)"
    unfolding a(1) upd_cur_def grow_thread
    using touchedI [of v new "cur (thread v)" "integritySet_update (\<lambda>_. u)" "\<lambda>r. r\<lparr>r_int := r_int r - lset l\<rparr>"]
      assms(1) a(2,4) state_in_update [OF st a(3)] by (simp add: curState_def)
  then show ?thesis
    using assms(1) 1 hd_stack [OF assms(1)] objs_subset [OF o assms(2) m(4)]
    by (auto simp: refined_def removeIntegrityLabel_def touched_def olset_def or_EMPTY_def)
qed

lemma add_common_refines:
  assumes "vm_ok v"
  shows "vm_ok (add_common t x v) \<and> abs_vm (add_common t x v) = a_share t x (abs_vm v)"
proof -
  define w where "w = (if for_plus t then let (u, w) = insert_in (commonPlusCapabilitySet v) x v
    in w\<lparr>commonPlusCapabilitySet := u\<rparr> else v)"
  obtain u1 w1 where 1: "insert_in (commonPlusCapabilitySet v) x v = (u1, w1)" by fastforce
  have "commonPlusCapabilitySet v \<in> set (objects v)" using assms by (simp add: vm_ok_def)
  then obtain new1 where a: "w1 = v\<lparr>objects := objects v @ new1\<rparr>" "objs_ok (objects v @ new1)"
    "u1 \<in> set (objects v @ new1)" "lset u1 = insert x (lset (commonPlusCapabilitySet v))"
    using insert_in_spec [OF vm_ok_objs [OF assms] _ 1] by blast
  have w: "vm_ok w \<and> abs_vm w = (abs_vm v)\<lparr>c_plus := if for_plus t then insert x (c_plus (abs_vm v)) else c_plus (abs_vm v)\<rparr>"
    using vm_ok_grow [OF assms a(2)] assms a 1 by (auto simp: w_def vm_ok_def abs_vm_def in_SR_def)
  obtain u2 w2 where 2: "insert_in (commonMinusCapabilitySet w) x w = (u2, w2)" by fastforce
  have "commonMinusCapabilitySet w \<in> set (objects w)" using w by (simp add: vm_ok_def)
  then obtain new2 where b: "w2 = w\<lparr>objects := objects w @ new2\<rparr>" "objs_ok (objects w @ new2)"
    "u2 \<in> set (objects w @ new2)" "lset u2 = insert x (lset (commonMinusCapabilitySet w))"
    using insert_in_spec [OF _ _ 2] w vm_ok_objs by blast
  have e: "add_common t x v = (if for_minus t then w2\<lparr>commonMinusCapabilitySet := u2\<rparr> else w)"
    using 2 by (simp add: add_common_def w_def for_plus_def for_minus_def Let_def)
  have "vm_ok (w2\<lparr>commonMinusCapabilitySet := u2\<rparr>)" 
    using vm_ok_grow [OF conjunct1 [OF w] b(2)] b by (auto simp: vm_ok_def in_SR_def)
  moreover have "abs_vm (w2\<lparr>commonMinusCapabilitySet := u2\<rparr>) = (abs_vm w)\<lparr>c_minus := insert x (c_minus (abs_vm w))\<rparr>"
    using b by (simp add: abs_vm_def in_SR_def)
  ultimately show ?thesis
    unfolding e using w by (auto simp: a_share_def)
qed

lemma createCapability_refines:
  assumes "vm_ok v" "x = fst (OScreateLabel S t g (os v))"
  shows "refined (map_prod (map_sum id (\<lambda>_. ())) id (createCapability S t g v)) (a_perform x (CreateCap t g) (abs_vm v))"
proof (cases "is_EMPTY (secrecySet (curState v)) \<and> is_type t \<and> 0 < x")
  case False
  obtain s where s: "OScreateLabel S t g (os v) = (x, s)" using assms(2) by (metis prod.collapse)
  have e: "is_EMPTY (secrecySet (curState v)) \<longleftrightarrow> r_sec (hd (stack (abs_vm v))) = {}"
    using hd_stack [OF assms(1)] objs_is_EMPTY [OF vm_ok_objs [OF assms(1)]]
      state_in_fields(1) [OF curState_in [OF assms(1)]] by simp
  have "\<exists>m s. createCapability S t g v = (Inl (DIFCException m), v\<lparr>os := s\<rparr>)"
  proof (cases "is_EMPTY (secrecySet (curState v)) \<and> is_type t")
    case True
    then show ?thesis
      using False s by (intro exI [of _ "''OS capability creation failed''"] exI [of _ s])
        (simp add: createCapability_def is_type_def)
  next
    case False
    then have "\<exists>m. createCapability S t g v = (Inl (DIFCException m), v)"
      by (cases "is_EMPTY (secrecySet (curState v))") (simp_all add: createCapability_def is_type_def)
    moreover have "v = v\<lparr>os := os v\<rparr>" by simp
    ultimately show ?thesis by metis
  qed
  then show ?thesis using False e assms(1) by (auto simp: refined_def)
next
  case True
  have e: "lset (secrecySet (curState v)) = {}"
    using True objs_is_EMPTY [OF vm_ok_objs [OF assms(1)]] state_in_fields(1) [OF curState_in [OF assms(1)]] by blast
  obtain s where s: "OScreateLabel S t g (os v) = (x, s)" using assms(2) by (metis prod.collapse)
  define v0 where "v0 = v\<lparr>os := s\<rparr>"
  have v0: "vm_ok v0" "abs_vm v0 = abs_vm v" "in_SR v0 = in_SR v" "cur (thread v0) = cur (thread v)"
    using assms(1) by (simp_all add: v0_def in_SR_def)
  define v1 where "v1 = add_at t x (cur (thread v0)) v0"
  have v1: "vm_ok v1" "abs_vm v1 = on_level 0 (a_add t x) (abs_vm v)" "cur (thread v1) = cur (thread v)"
    using add_at_touched [OF v0(1) order_refl, of t x] v0 by (simp_all add: touched_def v1_def)
  define v2 where "v2 = (if in_SR v \<and> g = SR_REGION_SELF then add_at t x (cur (thread v) - 1) v1 else v1)"
  have v2: "vm_ok v2"
    "abs_vm v2 = (if in_SR v \<and> g = SR_REGION_SELF then on_level 1 (a_add t x) else id) (abs_vm v1)"
    using add_at_touched [OF v1(1), of "cur (thread v) - 1" t x] v1 parent_exists [OF assms(1)]
    by (auto simp: touched_def v2_def)
  have "addThreadCapability t x True v0 = (Inr (), v1)" by (simp add: addThreadCapability_def v1_def)
  moreover have "(if in_SR v0 \<and> g = SR_REGION_SELF then addThreadCapability t x False v1 else (Inr (), v1)) = (Inr (), v2)"
    using parent_exists [OF assms(1)] v0(3) v1(3) by (auto simp: addThreadCapability_def v2_def)
  ultimately have "createCapability S t g v = (Inr x, if g = SR_REGION_GROUP then add_common t x v2 else v2)"
    using True s by (simp add: createCapability_def is_type_def v0_def [symmetric])
  then show ?thesis
    using True e hd_stack [OF assms(1)] v1 v2 add_common_refines [OF v2(1), of t x]
    by (simp add: refined_def)
qed

lemma upd_cur_same:
  assumes "vm_ok v" "state_in (objects v) (f (curState v))" "abs_state (f (curState v)) = abs_state (curState v)"
  shows "vm_ok (upd_cur f v)" "abs_vm (upd_cur f v) = abs_vm v"
proof -
  have o: "objs_ok (objects v @ [])" using vm_ok_objs [OF assms(1)] by simp
  have a: "state_in (objects v @ []) (f (chain (thread v) ! cur (thread v)))"
    "abs_state (f (chain (thread v) ! cur (thread v))) = (\<lambda>r. r) (abs_state (chain (thread v) ! cur (thread v)))"
    using assms(2,3) by (simp_all add: curState_def)
  note m = modify_refines [where f = f and g = "\<lambda>r. r", OF assms(1) o order_refl a]
  show "vm_ok (upd_cur f v)" "abs_vm (upd_cur f v) = abs_vm v"
    using m by (simp_all add: upd_cur_def on_level_def)
qed

lemma initializeThreadCapability_refines:
  assumes "vm_ok v" "l \<in> set (objects v)"
  shows "refined (initializeThreadCapability l t v) (a_perform x (InitCap l t) (abs_vm v))"
proof -
  note o = vm_ok_objs [OF assms(1)]
  let ?n = "cur (thread v)"
  have up: "touched ?n g w (upd_cur f w)"
    if "vm_ok w" "cur (thread w) = ?n" "state_in (objects w) (f (chain (thread w) ! ?n))"
      "abs_state (f (chain (thread w) ! ?n)) = g (abs_state (chain (thread w) ! ?n))" for f g and w :: "'a vm"
    using touchedI [of w "[]" ?n f g] that vm_ok_objs [OF that(1)] by (simp add: upd_cur_def)
  define w where "w = (if for_plus t then upd_cur (plusCapabilitySet_update (\<lambda>_. l)) v else v)"
  have 1: "touched ?n (\<lambda>r. r\<lparr>r_plus := if for_plus t then lset l else r_plus r\<rparr>) v w"
    using up [of v "plusCapabilitySet_update (\<lambda>_. l)" "\<lambda>r. r\<lparr>r_plus := lset l\<rparr>"] assms
      state_in_update(3) [OF chain_in [OF assms(1) order_refl, of "[]"]] touched_refl [OF assms(1)]
    by (simp add: w_def)
  then have w: "vm_ok w" "cur (thread w) = ?n" "l \<in> set (objects w)" using assms(2) by (auto simp: touched_def)
  have "touched ?n (\<lambda>r. r\<lparr>r_minus := if for_minus t then lset l else r_minus r\<rparr>) w
      (if for_minus t then upd_cur (minusCapabilitySet_update (\<lambda>_. l)) w else w)"
    using up [of w "minusCapabilitySet_update (\<lambda>_. l)" "\<lambda>r. r\<lparr>r_minus := lset l\<rparr>"] w
      state_in_update(4) [OF chain_in [OF w(1) order_refl, of "[]"]] touched_refl [OF w(1)] by simp
  note 2 = touched_cong [OF touched_trans [OF assms(1) 1 this], of "a_set t (lset l)"]
  have "\<not> in_SR v \<Longrightarrow> initializeThreadCapability l t v =
      (Inr (), if for_minus t then upd_cur (minusCapabilitySet_update (\<lambda>_. l)) w else w)"
    by (simp add: initializeThreadCapability_def for_plus_def for_minus_def w_def Let_def)
  moreover have "in_SR v \<Longrightarrow> isl (fst (initializeThreadCapability l t v)) \<and> snd (initializeThreadCapability l t v) = v"
    by (simp add: initializeThreadCapability_def)
  ultimately show ?thesis using 2 assms(1) by (auto simp: refined_def touched_def a_set_def)
qed

lemma setAllocationLabels_refines:
  assumes "vm_ok v" "set_option s \<union> set_option i \<subseteq> set (objects v)"
  shows "refined (setAllocationLabels va s i v) (a_perform x (SetAlloc va s i) (abs_vm v))"
proof -
  have "state_in (objects v) ((curState v)\<lparr>secrecyAllocLabels := s, integrityAllocLabels := i\<rparr>)"
    using curState_in [OF assms(1)] assms(2) by (auto simp: state_in_def)
  note u = upd_cur_same [where f = "\<lambda>st. st\<lparr>secrecyAllocLabels := s, integrityAllocLabels := i\<rparr>", OF assms(1) this]
  have "is_EMPTY_ref s \<longleftrightarrow> s \<noteq> None \<and> olset s = {}" "is_EMPTY_ref i \<longleftrightarrow> i \<noteq> None \<and> olset i = {}"
    using objs_is_EMPTY [OF vm_ok_objs [OF assms(1)]] assms(2)
    by (auto simp: is_EMPTY_ref_def olset_def or_EMPTY_def split: option.splits)
  then show ?thesis
    using u assms(1) by (auto simp: refined_def setAllocationLabels_def setAllocationLabelsInternal_def)
qed

lemma OSpassCurrentLabels_refines:
  assumes "vm_ok v"
  shows "vm_ok (snd (OSpassCurrentLabels S v)) \<and> abs_vm (snd (OSpassCurrentLabels S v)) = abs_vm v"
proof -
  have "vm_ok (upd_cur (RESTORE_LABELS_update (\<lambda>_. True)) (v\<lparr>os := s\<rparr>)) \<and>
      abs_vm (upd_cur (RESTORE_LABELS_update (\<lambda>_. True)) (v\<lparr>os := s\<rparr>)) = abs_vm v" for s
    using upd_cur_same [of "v\<lparr>os := s\<rparr>" "RESTORE_LABELS_update (\<lambda>_. True)"] curState_in [OF assms] assms
    by (simp add: state_in_def curState_def)
  then show ?thesis
    using assms by (auto simp: OSpassCurrentLabels_def Let_def split: prod.split)
qed

lemma sets_refine:
  assumes "vm_ok v" "a \<in> set (objects v)" "b \<in> set (objects v)"
  shows "vm_ok (snd (union_in a b v)) \<and> abs_vm (snd (union_in a b v)) = abs_vm v"
    "vm_ok (snd (minus_in a b v)) \<and> abs_vm (snd (minus_in a b v)) = abs_vm v"
    "vm_ok (snd (insert_in a y v)) \<and> abs_vm (snd (insert_in a y v)) = abs_vm v"
proof -
  note o = vm_ok_objs [OF assms(1)]
  have grown: "vm_ok w \<and> abs_vm w = abs_vm v"
    if "w = v\<lparr>objects := objects v @ new\<rparr>" "objs_ok (objects v @ new)" for w new
    using vm_ok_grow [OF assms(1) that(2)] that(1) by simp
  show "vm_ok (snd (union_in a b v)) \<and> abs_vm (snd (union_in a b v)) = abs_vm v"
    by (rule union_in_spec [OF o assms(2,3) surjective_pairing]) (rule grown)
  show "vm_ok (snd (minus_in a b v)) \<and> abs_vm (snd (minus_in a b v)) = abs_vm v"
    by (rule minus_in_spec [OF o assms(2,3) surjective_pairing]) (rule grown)
  show "vm_ok (snd (insert_in a y v)) \<and> abs_vm (snd (insert_in a y v)) = abs_vm v"
    by (rule insert_in_spec [OF o assms(2) surjective_pairing]) (rule grown)
qed

lemma new_set_refines:
  assumes "vm_ok v"
  shows "vm_ok (keep (getLabelSet (length (objects v)) y) v) \<and> abs_vm (keep (getLabelSet (length (objects v)) y) v) = abs_vm v"
proof -
  note o = vm_ok_objs [OF assms]
  have "wf_set (getLabelSet (length (objects v)) y)" "ident (getLabelSet (length (objects v)) y) = length (objects v)"
    using getLabelSet_spec objs_length [OF o] by (auto simp: getLabelSet_def new_LabelSet_def)
  then obtain new where "keep (getLabelSet (length (objects v)) y) v = v\<lparr>objects := objects v @ new\<rparr>"
    "objs_ok (objects v @ new)" using keep_spec [OF o] by blast
  then show ?thesis using vm_ok_grow [OF assms, of new] by simp
qed

section \<open>Runs of a program\<close>

definition new_label :: "'os sysCall \<Rightarrow> request \<Rightarrow> 'os vm \<Rightarrow> int" where
  "new_label S r v = (case r of CreateCap t g \<Rightarrow> fst (OScreateLabel S t g (os v)) | _ \<Rightarrow> 0)"

lemma perform_refined:
  assumes "vm_ok v" "request_sets r \<subseteq> set (objects v)"
  shows "refined (perform S r v) (a_perform (new_label S r v) r (abs_vm v))"
proof (cases r)
  case (Start s i)
  then show ?thesis
    using assms startSecureRegionHelper_refines [OF assms(1), of EMPTY EMPTY "or_EMPTY s" "or_EMPTY i"]
      or_EMPTY_in [OF vm_ok_objs [OF assms(1)]] objs_EMPTY [OF vm_ok_objs [OF assms(1)]]
    by (simp add: perform_def startSecureRegion_def olset_def)
next
  case (StartDecEnd s i p m)
  then show ?thesis
    using assms startSecureRegionHelper_refines [OF assms(1), of "or_EMPTY p" "or_EMPTY m" "or_EMPTY s" "or_EMPTY i"]
      or_EMPTY_in [OF vm_ok_objs [OF assms(1)]]
    by (simp add: perform_def startSecureRegionDecEnd_def olset_def)
next
  case End
  then show ?thesis using endSecureRegion_refines [OF assms(1)] by (simp add: perform_def)
next
  case (AddSecrecy l)
  then show ?thesis
    using assms addSecrecyLabel_refines [OF assms(1)]
    by (cases l) (simp_all add: perform_def addSecrecyLabel_def [of None] refined_def)
next
  case (AddIntegrity l)
  then show ?thesis
    using assms addIntegrityLabel_refines [OF assms(1)]
    by (cases l) (simp_all add: perform_def addIntegrityLabel_def [of None] refined_def)
next
  case (RemoveSecrecy l)
  then show ?thesis using assms removeSecrecyLabel_refines [OF assms(1), of l] by (simp add: perform_def)
next
  case (RemoveIntegrity l)
  then show ?thesis using assms removeIntegrityLabel_refines [OF assms(1), of l] by (simp add: perform_def)
next
  case (DropCap l t)
  then show ?thesis using assms dropCapability_refines [OF assms(1), of l] by (simp add: perform_def)
next
  case (DropThreadCap l t)
  then show ?thesis using assms dropThreadCapability_refines [OF assms(1), of l] by (simp add: perform_def)
next
  case (CreateCap t g)
  then show ?thesis
    using createCapability_refines [OF assms(1) refl, of S t g] by (simp add: perform_def new_label_def)
next
  case (InitCap l t)
  then show ?thesis using assms initializeThreadCapability_refines [OF assms(1), of l] by (simp add: perform_def)
next
  case (SetAlloc va s i)
  then show ?thesis using assms setAllocationLabels_refines [OF assms(1), of s i] by (simp add: perform_def)
next
  case ResetAlloc
  then show ?thesis
    using setAllocationLabels_refines [OF assms(1), of None None False]
    by (simp add: perform_def resetAllocationLabels_def setAllocationLabels_def refined_def)
next
  case PassLabels
  then show ?thesis using OSpassCurrentLabels_refines [OF assms(1)] by (simp add: perform_def refined_def)
next
  case (NewSet y)
  then show ?thesis using new_set_refines [OF assms(1)] by (simp add: perform_def refined_def)
qed (use assms sets_refine [OF assms(1)] in \<open>simp_all add: perform_def refined_def\<close>)

text \<open>A run records each request with the label the system returned and whether it was granted.
  Exceptions are caught by the program, which goes on from the state they leave.\<close>

inductive vm_run :: "'os sysCall \<Rightarrow> 'os vm \<Rightarrow> (request \<times> int \<times> bool) list \<Rightarrow> 'os vm \<Rightarrow> bool" for S v where
  run_start: "vm_run S v [] v"
| run_step: "vm_run S v tr w \<Longrightarrow> request_sets r \<subseteq> set (objects w) \<Longrightarrow> perform S r w = (res, w') \<Longrightarrow>
    vm_run S v (tr @ [(r, new_label S r w, \<not> isl res)]) w'"

fun a_run :: "regions \<Rightarrow> (request \<times> int \<times> bool) list \<Rightarrow> regions option" where
  "a_run a [] = Some a"
| "a_run a ((r, x, b) # tr) =
     (case a_perform x r a of (b', a') \<Rightarrow> if b' = b then a_run a' tr else None)"

lemma a_run_append: "a_run a (tr @ us) = Option.bind (a_run a tr) (\<lambda>a'. a_run a' us)"
  by (induction a tr rule: a_run.induct) (auto split: prod.split)

lemma vm_run_refined:
  assumes "vm_run S v tr w" "vm_ok v"
  shows "vm_ok w \<and> a_run (abs_vm v) tr = Some (abs_vm w)"
  using assms
proof (induction rule: vm_run.induct)
  case (run_step tr w r res w')
  then show ?case
    using perform_refined [of w r S] by (auto simp: refined_def a_run_append split: prod.split)
qed simp

end
