(* ===== verification/Region_Props.thy ===== *)
theory Region_Props
  imports Region_Refine
begin

text \<open>
  Properties of runs of a program with secure regions: the refinement as a whole, the
  confinement of labels and capabilities by what a thread holds at the beginning, and what
  a refused start of a region leaves behind.
\<close>

section \<open>Confinement on the specification\<close>

definition within :: "int set \<Rightarrow> int set \<Rightarrow> region \<Rightarrow> bool" where
  "within P M r \<longleftrightarrow> r_sec r \<subseteq> P \<and> r_int r \<subseteq> P \<and> r_plus r \<subseteq> P \<and> r_minus r \<subseteq> M"

definition confined :: "int set \<Rightarrow> int set \<Rightarrow> regions \<Rightarrow> bool" where
  "confined P M a \<longleftrightarrow> (\<forall>r \<in> set (stack a). within P M r) \<and> c_plus a \<subseteq> P \<and> c_minus a \<subseteq> M \<and>
     stack a \<noteq> [] \<and> (inside a \<longrightarrow> 2 \<le> length (stack a))"

text \<open>Requests that give the program capabilities it did not have, and requests that start a
  region.\<close>

fun gives :: "request \<Rightarrow> bool" where
  "gives (CreateCap t g) = True"
| "gives (InitCap l t) = True"
| "gives _ = False"

fun is_start :: "request \<Rightarrow> bool" where
  "is_start (Start s i) = True"
| "is_start (StartDecEnd s i p m) = True"
| "is_start _ = False"

text \<open>No label of an enclosing region is missing further inside unless it can be removed.\<close>

fun nested :: "int set \<Rightarrow> region list \<Rightarrow> bool" where
  "nested M (c # p # rs) \<longleftrightarrow> r_sec p \<subseteq> r_sec c \<union> M \<and> r_int p \<subseteq> r_int c \<union> M \<and> nested M (p # rs)"
| "nested M _ \<longleftrightarrow> True"

lemma confined_level:
  assumes "confined P M a" "\<And>r. r \<in> set (stack a) \<Longrightarrow> within P M r \<Longrightarrow> within P M (f r)"
  shows "confined P M (on_level k f a)"
proof (cases "k < length (stack a)")
  case True
  then have "within P M (f (stack a ! k))" using assms by (simp add: confined_def)
  then show ?thesis
    using assms(1) by (auto simp: confined_def on_level_def dest!: set_update_subset_insert [THEN subsetD])
qed (use assms(1) in \<open>simp add: on_level_def list_update_beyond\<close>)

lemma within_drop: "within P M r \<Longrightarrow> within P M (a_drop t L r)"
  by (auto simp: within_def a_drop_def)

lemma hd_within: "confined P M a \<Longrightarrow> within P M (hd (stack a))"
  by (simp add: confined_def)

lemma a_start_confined:
  assumes "confined P M a"
  shows "confined P M (snd (a_start p m s i a))"
proof -
  have h: "within P M (hd (stack a))" "c_plus a \<subseteq> P" "c_minus a \<subseteq> M" "stack a \<noteq> []"
    using assms by (simp_all add: confined_def)
  have e: "within P M \<lparr>r_sec = {}, r_int = {}, r_plus = {}, r_minus = {}\<rparr>" by (simp add: within_def)
  have "within P M \<lparr>r_sec = s, r_int = i, r_plus = p, r_minus = m\<rparr>" if "fst (a_start p m s i a)"
    using that h by (auto simp: a_start_def Let_def within_def split: if_splits)
  then show ?thesis
    using assms h(4) e by (auto simp: a_start_def Let_def confined_def Suc_le_eq)
qed

lemma a_end_confined:
  assumes "confined P M a"
  shows "confined P M (snd (a_end a))"
proof (cases "inside a")
  case True
  then obtain c p rs where "stack a = c # p # rs"
    using assms by (auto simp: confined_def Suc_le_length_iff numeral_2_eq_2)
  then show ?thesis using assms True by (cases rs) (auto simp: a_end_def confined_def)
qed (use assms in \<open>simp add: a_end_def\<close>)

lemma a_perform_confined:
  assumes "confined P M a" "\<not> gives r"
  shows "confined P M (snd (a_perform x r a))"
proof -
  note h = hd_within [OF assms(1)]
  have sec: "confined P M (on_level 0 (\<lambda>r. r\<lparr>r_sec := r_sec r \<union> L\<rparr>) a)"
    "confined P M (on_level 0 (\<lambda>r. r\<lparr>r_int := r_int r \<union> L\<rparr>) a)" if "L \<subseteq> r_plus (hd (stack a))" for L
    using that h by (auto intro!: confined_level assms(1) simp: within_def)
  have rem: "confined P M (on_level 0 (\<lambda>r. r\<lparr>r_sec := r_sec r - L\<rparr>) a)"
    "confined P M (on_level 0 (\<lambda>r. r\<lparr>r_int := r_int r - L\<rparr>) a)" for L
    by (auto intro!: confined_level assms(1) simp: within_def)
  note drop = confined_level [OF assms(1) within_drop] confined_level [OF confined_level [OF assms(1) within_drop] within_drop]
  show ?thesis
    using assms a_start_confined a_end_confined sec rem drop by (cases r) auto
qed

lemma nested_level:
  assumes "nested M (stack a)" "\<And>r. r_sec (f r) = r_sec r" "\<And>r. r_int (f r) = r_int r"
  shows "nested M (stack (on_level k f a))"
proof -
  have "nested M (rs[k := f (rs ! k)])" if "nested M rs" for rs k
    using that
  proof (induction M rs arbitrary: k rule: nested.induct)
    case (1 M c p rs)
    show ?case
    proof (cases k)
      case 0
      then show ?thesis using 1(2) assms(2,3) by simp
    next
      case (Suc j)
      have "nested M ((p # rs)[j := f ((p # rs) ! j)])" using 1 by simp
      then show ?thesis using 1(2) assms(2,3) Suc by (cases j) auto
    qed
  qed (simp_all split: nat.split)
  then show ?thesis using assms(1) by (simp add: on_level_def)
qed

lemma nested_top:
  "nested M (c # rs) \<Longrightarrow> r_sec c \<subseteq> r_sec c' \<union> M \<Longrightarrow> r_int c \<subseteq> r_int c' \<union> M \<Longrightarrow> nested M (c' # rs)"
  by (cases rs) auto

lemma nested_hd:
  "nested M (c # rs) \<Longrightarrow> r \<in> set (c # rs) \<Longrightarrow> r_sec r \<subseteq> r_sec c \<union> M \<and> r_int r \<subseteq> r_int c \<union> M"
proof (induction rs arbitrary: c)
  case (Cons p rs)
  show ?case
  proof (cases "r = c")
    case False
    then have "r_sec r \<subseteq> r_sec p \<union> M" "r_int r \<subseteq> r_int p \<union> M" using Cons by auto
    then show ?thesis using Cons(2) by auto
  qed simp
qed simp

lemma nested_current:
  assumes "vm_ok v" "nested M (stack (abs_vm v))" "r \<in> set (stack (abs_vm v))"
  shows "r_sec r \<subseteq> lset (secrecySet (curState v)) \<union> M \<and> r_int r \<subseteq> lset (integritySet (curState v)) \<union> M"
  using nested_hd [of M "abs_state (curState v)" _ r] assms(2,3) unfolding abs_stack [OF assms(1)] by simp

lemma a_perform_nested:
  assumes "confined P M a" "nested M (stack a)" "\<not> gives r" "is_start r \<Longrightarrow> fst (a_perform x r a)"
  shows "nested M (stack (snd (a_perform x r a)))"
proof -
  obtain c rs where st: "stack a = c # rs" using assms(1) by (cases "stack a") (auto simp: confined_def)
  have c: "r_minus c \<subseteq> M" "c_minus a \<subseteq> M" using assms(1) st by (auto simp: confined_def within_def)
  have start: "nested M (stack (snd (a_start p m s i a)))" if "fst (a_start p m s i a)" for p m s i
    using that assms(2) st c by (auto simp: a_start_def Let_def split: if_splits)
  have "end": "nested M (stack (snd (a_end a)))"
    using assms(2) st by (cases rs) (auto simp: a_end_def)
  have top: "nested M (stack (on_level 0 f a))"
    if "r_sec c \<subseteq> r_sec (f c) \<union> M" "r_int c \<subseteq> r_int (f c) \<union> M" for f
    using nested_top [of M c rs "f c"] that assms(2) st by (simp add: on_level_def)
  have add: "nested M (stack (on_level 0 (\<lambda>r. r\<lparr>r_sec := r_sec r \<union> L\<rparr>) a))"
    "nested M (stack (on_level 0 (\<lambda>r. r\<lparr>r_int := r_int r \<union> L\<rparr>) a))" for L
    by (auto intro!: top)
  have rem: "nested M (stack (on_level 0 (\<lambda>r. r\<lparr>r_sec := r_sec r - L\<rparr>) a))"
    "nested M (stack (on_level 0 (\<lambda>r. r\<lparr>r_int := r_int r - L\<rparr>) a))" if "L \<subseteq> r_minus c" for L
    using that c by (auto intro!: top)
  have d: "r_sec (a_drop t L q) = r_sec q" "r_int (a_drop t L q) = r_int q" for t L q
    by (simp_all add: a_drop_def)
  note drop = nested_level [OF assms(2) d, of 0] nested_level [OF nested_level [OF assms(2) d, of 0] d, of 1]
  show ?thesis
    using assms(2,3,4) st start "end" add rem drop by (cases r) auto
qed

lemma confined_ok:
  assumes "vm_ok v" "\<forall>r \<in> set (stack (abs_vm v)). within P M r"
    "lset (commonPlusCapabilitySet v) \<subseteq> P" "lset (commonMinusCapabilitySet v) \<subseteq> M"
  shows "confined P M (abs_vm v)"
proof -
  have "length (stack (abs_vm v)) = Suc (cur (thread v))" using length_stack assms(1) by blast
  moreover have "in_SR v \<longrightarrow> 0 < cur (thread v)" using assms(1) by (simp add: vm_ok_def)
  moreover from calculation have "stack (abs_vm v) \<noteq> []" by auto
  ultimately show ?thesis using assms(2-4) by (auto simp: confined_def)
qed

lemma a_run_confined:
  assumes "a_run a tr = Some b" "confined P M a" "\<forall>(r, x, g) \<in> set tr. \<not> gives r"
  shows "confined P M b"
  using assms
proof (induction a tr rule: a_run.induct)
  case (2 a r x g tr)
  obtain b' a' where p: "a_perform x r a = (b', a')" by fastforce
  have "confined P M a'" using a_perform_confined [OF 2(3), of r x] 2(4) p by auto
  then show ?case using 2 p by (auto split: if_splits)
qed simp

lemma a_run_nested:
  assumes "a_run a tr = Some b" "confined P M a" "\<forall>(r, x, g) \<in> set tr. \<not> gives r"
    "\<forall>(r, x, g) \<in> set tr. is_start r \<longrightarrow> g" "nested M (stack a)"
  shows "nested M (stack b)"
  using assms
proof (induction a tr rule: a_run.induct)
  case (2 a r x g tr)
  obtain b' a' where p: "a_perform x r a = (b', a')" by fastforce
  then have b: "b' = g" "a_run a' tr = Some b" using 2(2) by (auto split: if_splits)
  have "confined P M a'" using a_perform_confined [OF 2(3), of r x] 2(4) p by auto
  moreover have "nested M (stack a')"
    using a_perform_nested [OF 2(3) 2(6), of r x] 2(4,5) p b(1) by auto
  ultimately show ?case using 2 p b by auto
qed simp

section \<open>A concrete run\<close>

text \<open>A system that accepts every call, and the first requests of a program that creates a set,
  is given both capabilities for it and enters a region with it as secrecy label.\<close>

definition demo_sys :: "unit sysCall" where
  "demo_sys = \<lparr>sysPassLabels = (\<lambda>_ _ _ _ s. (0, s)), sysCreateAndAddLabel = (\<lambda>_ _ s. (7, s)),
     sysDropCapability = (\<lambda>_ _ _ _ s. (0, s)), sysCreateLabeledDirectory = (\<lambda>_ _ _ _ _ _ s. (0, s)),
     sysCreateLabeledFile = (\<lambda>_ _ _ _ _ _ s. (0, s))\<rparr>"

definition demo_set :: LabelSet where
  "demo_set = getLabelSet 1 5"

definition demo_region :: SRState where
  "demo_region = setState EMPTY EMPTY demo_set EMPTY False None None"

definition demo_inside :: "unit vm" where
  "demo_inside = (boot_vm ())\<lparr>thread := \<lparr>chain = [(new_SRState (Some EMPTY) (Some EMPTY))
       \<lparr>plusCapabilitySet := demo_set\<rparr>, demo_region], cur = 1, inSecureRegion = True\<rparr>,
     secureRegionCount := 1, objects := [EMPTY, demo_set]\<rparr>"

lemma boot_ok: "vm_ok (boot_vm s)"
  by (simp add: boot_vm_def init_def vm_ok_def new_GreenThread_def new_SRState_def clearState_def setState_def
      objs_ok_def state_in_def in_SR_def EMPTY_def wf_set_def elems_def)

lemma demo_set_eq: "demo_set = \<lparr>ident = 1, arr = [5], len = 1\<rparr>"
  by (simp add: demo_set_def getLabelSet_def new_LabelSet_def)

lemmas demo_defs = demo_set_eq demo_region_def demo_inside_def demo_sys_def boot_vm_def init_def new_GreenThread_def
  new_SRState_def clearState_def setState_def perform_def keep_def getLabelSet_def new_LabelSet_def EMPTY_def
  initializeThreadCapability_def capability_types in_SR_def curState_def upd_cur_def upd_state_def
  startSecureRegion_def startSecureRegionHelper_def or_EMPTY_def union_in_def union_set_def is_EMPTY_def same_def
  checkInUnion_def isSubsetOf_def push_state_def new_label_def Let_def

lemma demo_run:
  "vm_run demo_sys (boot_vm ())
     [(NewSet 5, 0, True), (InitCap demo_set PLUS_CAPABILITY, 0, True), (Start (Some demo_set) None, 0, True)]
     demo_inside"
proof -
  let ?v1 = "(boot_vm ())\<lparr>objects := [EMPTY, demo_set]\<rparr>"
  let ?v2 = "upd_cur (plusCapabilitySet_update (\<lambda>_. demo_set)) ?v1"
  have 1: "perform demo_sys (NewSet 5) (boot_vm ()) = (Inr (), ?v1)" "new_label demo_sys (NewSet 5) (boot_vm ()) = 0"
    by (simp_all add: demo_defs)
  have 2: "perform demo_sys (InitCap demo_set PLUS_CAPABILITY) ?v1 = (Inr (), ?v2)"
    "new_label demo_sys (InitCap demo_set PLUS_CAPABILITY) ?v1 = 0"
    by (simp_all add: demo_defs)
  have 3: "perform demo_sys (Start (Some demo_set) None) ?v2 = (Inr (), demo_inside)"
    "new_label demo_sys (Start (Some demo_set) None) ?v2 = 0"
    by (simp_all add: demo_defs)
  have "vm_run demo_sys (boot_vm ()) [(NewSet 5, 0, True)] ?v1"
    using run_step [OF run_start, of "NewSet 5" "boot_vm ()" demo_sys] 1 by simp
  then have "vm_run demo_sys (boot_vm ()) [(NewSet 5, 0, True), (InitCap demo_set PLUS_CAPABILITY, 0, True)] ?v2"
    using run_step [of demo_sys "boot_vm ()" _ ?v1 "InitCap demo_set PLUS_CAPABILITY"] 2 by fastforce
  then show ?thesis
    using run_step [of demo_sys "boot_vm ()" _ ?v2 "Start (Some demo_set) None"] 3 
    by (fastforce simp: upd_cur_def)
qed

section \<open>Properties\<close>

text \<open>C8: The secure regions of the virtual machine implement the specification. From a
  well-formed state, every run of requests, granted or refused, corresponds to a run of the
  specification that grants the same requests and ends in the abstraction of the state
  reached, which is again well formed. In particular no operation of the run dereferences a
  missing parent, and no set is mistaken for another because of the comparisons of
  references.\<close>

theorem regions_refine_spec:
  assumes "vm_run S v tr w" "vm_ok v"
  shows "vm_ok w \<and> a_run (abs_vm v) tr = Some (abs_vm w)"
  by (rule vm_run_refined [OF assms])

theorem regions_refine_spec_witness:
  "a_run (abs_vm (boot_vm ())) [(NewSet 5, 0, True), (InitCap demo_set PLUS_CAPABILITY, 0, True),
     (Start (Some demo_set) None, 0, True)] = Some (abs_vm demo_inside) \<and> inside (abs_vm demo_inside)"
  using regions_refine_spec [OF demo_run boot_ok] by (simp add: demo_inside_def in_SR_def)

text \<open>C9: A program cannot exceed what its thread holds. In a run without requests that create or
  initialise capabilities, every live region has labels and plus capabilities among the plus
  capabilities \<open>P\<close> the regions and the shared set held at the beginning, and minus
  capabilities among the minus capabilities \<open>M\<close>. If moreover no start of a region was refused,
  the current region still has every secrecy and integrity label of each region it is
  nested in, except labels in \<open>M\<close>.\<close>

theorem regions_confined:
  assumes "vm_run S v tr w" "vm_ok v"
    "\<forall>r \<in> set (stack (abs_vm v)). within P M r" "nested M (stack (abs_vm v))"
    "lset (commonPlusCapabilitySet v) \<subseteq> P" "lset (commonMinusCapabilitySet v) \<subseteq> M"
    "\<forall>(r, x, g) \<in> set tr. \<not> gives r"
  shows "(\<forall>r \<in> set (stack (abs_vm w)). within P M r) \<and>
    ((\<forall>(r, x, g) \<in> set tr. is_start r \<longrightarrow> g) \<longrightarrow>
      (\<forall>r \<in> set (stack (abs_vm w)). r_sec r \<subseteq> lset (secrecySet (curState w)) \<union> M \<and>
         r_int r \<subseteq> lset (integritySet (curState w)) \<union> M))"
proof -
  have w: "vm_ok w" "a_run (abs_vm v) tr = Some (abs_vm w)" using vm_run_refined [OF assms(1,2)] by auto
  note c = confined_ok [where P = P and M = M, OF assms(2,3,5,6)]
  have "confined P M (abs_vm w)" using a_run_confined [OF w(2) c assms(7)] .
  moreover have "nested M (stack (abs_vm w))" if "\<forall>(r, x, g) \<in> set tr. is_start r \<longrightarrow> g"
    using a_run_nested [OF w(2) c assms(7) that assms(4)] .
  ultimately show ?thesis using nested_current [OF w(1), of M] by (auto simp: confined_def)
qed

theorem regions_confined_witness:
  "within {5} {} (hd (stack (abs_vm (snd (perform demo_sys End demo_inside)))))"
proof -
  let ?w = "snd (perform demo_sys End demo_inside)"
  have ok: "vm_ok demo_inside" using vm_run_refined [OF demo_run boot_ok] by simp
  have p: "perform demo_sys End demo_inside = (Inr (), ?w)"
    by (simp add: demo_defs endSecureRegion_def)
  have run: "vm_run demo_sys demo_inside [(End, 0, True)] ?w"
    using run_step [OF run_start, of End demo_inside demo_sys "Inr ()" ?w] p by (simp add: new_label_def)
  have st: "stack (abs_vm demo_inside) = [\<lparr>r_sec = {5}, r_int = {}, r_plus = {}, r_minus = {}\<rparr>,
      \<lparr>r_sec = {}, r_int = {}, r_plus = {5}, r_minus = {}\<rparr>]"
    by (simp add: demo_defs abs_vm_def abs_state_def elems_def)
  have a: "\<forall>r \<in> set (stack (abs_vm demo_inside)). within {5} {} r" "nested {} (stack (abs_vm demo_inside))"
    by (simp_all add: st within_def)
  have c: "lset (commonPlusCapabilitySet demo_inside) \<subseteq> {5}" "lset (commonMinusCapabilitySet demo_inside) \<subseteq> {}"
    by (simp_all add: demo_inside_def boot_vm_def init_def)
  have "stack (abs_vm ?w) \<noteq> []" using length_stack vm_run_refined [OF run ok] by fastforce
  then show ?thesis using regions_confined [OF run ok a c] by simp
qed

text \<open>C23: A refused start inside a region leaves the program in a region without labels. If the
  requested secrecy set is not covered by the plus capabilities and the secrecy labels of
  the current region, the request throws, but the program continues in a new current state
  that is still inside a secure region and whose secrecy and integrity sets are empty,
  whatever the secrecy of the enclosing region and although no minus capability was needed.
\<close>

theorem refused_start_clears_labels:
  assumes "vm_ok v" "in_SR v" "set_option s \<union> set_option i \<subseteq> set (objects v)"
    "\<not> olset s \<subseteq> lset (plusCapabilitySet (curState v)) \<union> lset (secrecySet (curState v))"
    "startSecureRegion s i v = (res, w)"
  shows "isl res \<and> in_SR w \<and> lset (secrecySet (curState w)) = {} \<and> lset (integritySet (curState w)) = {} \<and>
    tl (stack (abs_vm w)) = stack (abs_vm v)"
proof -
  have "refined (res, w) (a_perform 0 (Start s i) (abs_vm v))"
    using perform_refined [of v "Start s i"] assms(1,3,5) by (simp add: perform_def new_label_def)
  then have r: "vm_ok w" "isl res" "abs_vm w = (abs_vm v)\<lparr>stack :=
      \<lparr>r_sec = {}, r_int = {}, r_plus = {}, r_minus = {}\<rparr> # stack (abs_vm v)\<rparr>"
    using assms(2,4) hd_stack [OF assms(1)] by (auto simp: refined_def a_start_def Let_def)
  then have "in_SR w" using assms(2) abs_vm_fields(1) [of w] by simp
  moreover have "abs_state (curState w) = \<lparr>r_sec = {}, r_int = {}, r_plus = {}, r_minus = {}\<rparr>"
    using hd_stack [OF r(1)] r(3) by simp
  then have "lset (secrecySet (curState w)) = {}" "lset (integritySet (curState w)) = {}"
    by (simp_all add: abs_state_def)
  ultimately show ?thesis using r(2,3) by simp
qed

theorem refused_start_clears_labels_witness:
  "lset (secrecySet (curState demo_inside)) = {5} \<and> lset (minusCapabilitySet (curState demo_inside)) = {} \<and>
   isl (fst (startSecureRegion (Some (getLabelSet 2 6)) None (demo_inside\<lparr>objects := [EMPTY, demo_set, getLabelSet 2 6]\<rparr>))) \<and>
   lset (secrecySet (curState (snd (startSecureRegion (Some (getLabelSet 2 6)) None
     (demo_inside\<lparr>objects := [EMPTY, demo_set, getLabelSet 2 6]\<rparr>))))) = {}"
proof -
  let ?v = "demo_inside\<lparr>objects := [EMPTY, demo_set, getLabelSet 2 6]\<rparr>"
  have "vm_ok demo_inside" using vm_run_refined [OF demo_run boot_ok] by simp
  then have ok: "vm_ok ?v"
    using vm_ok_grow [of demo_inside "[getLabelSet 2 6]"]
    by (simp add: demo_inside_def objs_ok_def less_Suc_eq demo_set_eq EMPTY_def getLabelSet_def new_LabelSet_def
        wf_set_def elems_def)
  have n: "\<not> olset (Some (getLabelSet 2 6)) \<subseteq> lset (plusCapabilitySet (curState ?v)) \<union> lset (secrecySet (curState ?v))"
    by (simp add: demo_defs olset_def elems_def)
  have "in_SR ?v" by (simp add: demo_inside_def in_SR_def)
  moreover have "set_option (Some (getLabelSet 2 6)) \<union> set_option None \<subseteq> set (objects ?v)" by simp
  moreover have "lset (secrecySet (curState demo_inside)) = {5}" "lset (minusCapabilitySet (curState demo_inside)) = {}"
    by (simp_all add: demo_defs elems_def)
  ultimately show ?thesis
    using refused_start_clears_labels [OF ok _ _ n surjective_pairing] by blast
qed

text \<open>C24: A refused start outside every region costs the thread its capabilities. The request
  throws and makes an empty state current, but the thread does not count as being inside a
  region, so the matching \<open>endSecureRegion\<close> returns at once without restoring the state of the
  thread.\<close>

theorem refused_start_outside_sticks:
  assumes "vm_ok v" "\<not> in_SR v" "set_option s \<union> set_option i \<subseteq> set (objects v)"
    "\<not> olset s \<subseteq> lset (plusCapabilitySet (curState v)) \<union> lset (commonPlusCapabilitySet v) \<union> lset (secrecySet (curState v))"
    "startSecureRegion s i v = (res, w)"
  shows "isl res \<and> endSecureRegion S w = (Inr (), w) \<and> stack (abs_vm w) = abs_state clearState # stack (abs_vm v) \<and>
    lset (plusCapabilitySet (curState w)) = {} \<and> lset (minusCapabilitySet (curState w)) = {}"
proof -
  have "refined (res, w) (a_perform 0 (Start s i) (abs_vm v))"
    using perform_refined [of v "Start s i"] assms(1,3,5) by (simp add: perform_def new_label_def)
  then have r: "vm_ok w" "isl res" "abs_vm w = (abs_vm v)\<lparr>stack := abs_state clearState # stack (abs_vm v)\<rparr>"
    using assms(2,4) hd_stack [OF assms(1)] by (auto simp: refined_def a_start_def Let_def abs_clearState)
  then have "\<not> in_SR w" using assms(2) abs_vm_fields(1) [of w] by simp
  moreover have "abs_state (curState w) = abs_state clearState"
    using hd_stack [OF r(1)] r(3) by simp
  then have "lset (plusCapabilitySet (curState w)) = {}" "lset (minusCapabilitySet (curState w)) = {}"
    by (simp_all add: clearState_def setState_def abs_state_def)
  ultimately show ?thesis using r(2,3) by (simp add: endSecureRegion_def)
qed

theorem refused_start_outside_sticks_witness:
  "isl (fst (startSecureRegion (Some demo_set) None ((boot_vm ())\<lparr>objects := [EMPTY, demo_set]\<rparr>))) \<and>
   endSecureRegion demo_sys (snd (startSecureRegion (Some demo_set) None ((boot_vm ())\<lparr>objects := [EMPTY, demo_set]\<rparr>))) =
     (Inr (), snd (startSecureRegion (Some demo_set) None ((boot_vm ())\<lparr>objects := [EMPTY, demo_set]\<rparr>)))"
proof -
  let ?v = "(boot_vm ())\<lparr>objects := [EMPTY, demo_set]\<rparr>"
  have "objs_ok (objects (boot_vm ()) @ [demo_set])"
    by (simp add: boot_vm_def init_def objs_ok_def less_Suc_eq demo_set_eq EMPTY_def wf_set_def elems_def)
  then have ok: "vm_ok ?v"
    using vm_ok_grow [OF boot_ok, of "()" "[demo_set]"] by (simp add: boot_vm_def init_def)
  have n: "\<not> olset (Some demo_set) \<subseteq>
      lset (plusCapabilitySet (curState ?v)) \<union> lset (commonPlusCapabilitySet ?v) \<union> lset (secrecySet (curState ?v))"
    by (simp add: demo_defs olset_def elems_def)
  have "\<not> in_SR ?v" by (simp add: boot_vm_def init_def new_GreenThread_def in_SR_def)
  moreover have "set_option (Some demo_set) \<union> set_option None \<subseteq> set (objects ?v)" by simp
  ultimately show ?thesis
    using refused_start_outside_sticks [OF ok _ _ n surjective_pairing] by blast
qed

end
