(* ===== verification/Barriers.thy ===== *)
theory Barriers
  imports Region_Props
begin

text \<open>
  The barriers of \<^verbatim>\<open>scheduler/DIFC.java\<close>: the checks compiled before each read and write of an
  object and after each allocation, how a barrier is chosen for a method, where
  \<^verbatim>\<open>MemoryManager.java\<close> places a new object, and the change of the labels of an object. An
  object is the address of its reference, the two header words that refer to its label sets
  (null until they are set) and the values of its fields. Where the allocator of the memory
  management toolkit puts an object is the argument \<open>place\<close>, applied to whether the object is to
  be labelled. The barriers on static fields only print. \<open>inMapperRegion\<close> is a flag of the
  processor that the allocator reads in an Airavat build; only thread switches copy it, so it
  stands with the build flags.
\<close>

section \<open>Objects and configuration\<close>

record jobject =
  addr :: "32 word"
  secrecyLabels :: "LabelSet option"
  integrityLabels :: "LabelSet option"
  field_values :: "int list"
  cloneable :: bool

record labeledSpace =
  getStart :: "32 word"
  getExtent :: "32 word"

record difc_config =
  enabled :: bool
  VerifyAssertions :: bool
  difcVerbose :: bool
  difcBarriers :: bool
  difcLibraries :: bool
  difcDynamicBarriers :: bool
  difcNoRWBarrierContents :: bool
  difcNoSlowPath :: bool
  difcNoSubsetChecks :: bool
  difcNoStaticOrAllocBarriers :: bool
  difcNoReadOrWriteBarriers :: bool
  isAiravat :: bool
  inMapperRegion :: bool

definition OBJECT_REF_OFFSET :: "32 word" where "OBJECT_REF_OFFSET = 12"

definition minimumObjectRef :: "32 word \<Rightarrow> 32 word" where
  "minimumObjectRef regionBaseAddr = regionBaseAddr + OBJECT_REF_OFFSET"

definition isLabeled :: "labeledSpace \<Rightarrow> jobject \<Rightarrow> bool" where
  "isLabeled sp obj \<longleftrightarrow> addr obj - minimumObjectRef (getStart sp) < getExtent sp"

definition checkAllowed_ref :: "LabelSet option \<Rightarrow> LabelSet option \<Rightarrow> exn + bool" where
  "checkAllowed_ref this other =
     (case this of
        None \<Rightarrow> Inl NullPointer
      | Some a \<Rightarrow>
          if is_EMPTY a then Inr True
          else case other of None \<Rightarrow> Inl NullPointer | Some b \<Rightarrow> Inr (isSubsetOf a b))"

definition checkAllowed ::
  "LabelSet option \<Rightarrow> LabelSet option \<Rightarrow> LabelSet option \<Rightarrow> LabelSet option \<Rightarrow> exn + bool" where
  "checkAllowed srcSecSet srcIntSet destSecSet destIntSet =
     (case checkAllowed_ref srcSecSet destSecSet of
        Inl e \<Rightarrow> Inl e
      | Inr False \<Rightarrow> Inr False
      | Inr True \<Rightarrow>
          (case checkAllowed_ref destIntSet srcIntSet of
             Inl e \<Rightarrow> Inl e
           | Inr False \<Rightarrow> Inr False
           | Inr True \<Rightarrow> Inr True))"

section \<open>Read and write barriers\<close>

definition labeled_outside :: "labeledSpace \<Rightarrow> jobject \<Rightarrow> bool" where
  "labeled_outside sp obj \<longleftrightarrow> addr obj - getStart sp < getExtent sp"

definition readBarrierOutsideSR :: "labeledSpace \<Rightarrow> jobject \<Rightarrow> exn + unit" where
  "readBarrierOutsideSR sp obj =
     (if labeled_outside sp obj
      then Inl (DIFCException ''Labeled/Poisoned object accessed outside secure region'') else Inr ())"

definition readBarrierSlowPath :: "difc_config \<Rightarrow> 'os vm \<Rightarrow> jobject \<Rightarrow> exn + unit" where
  "readBarrierSlowPath c v obj =
     (if difcNoSubsetChecks c then
        if secrecyLabels obj = None \<and> integrityLabels obj = None
        then Inl (DIFCException ''Shouldn't happen'') else Inr ()
      else case checkAllowed (secrecyLabels obj) (integrityLabels obj)
             (Some (secrecySet (curState v))) (Some (integritySet (curState v))) of
        Inl e \<Rightarrow> Inl e
      | Inr ok \<Rightarrow> if \<not> ok then Inl (DIFCException ''Read access violation'') else Inr ())"

definition readBarrierInsideSR :: "difc_config \<Rightarrow> labeledSpace \<Rightarrow> 'os vm \<Rightarrow> jobject \<Rightarrow> exn + unit" where
  "readBarrierInsideSR c sp v obj =
     (if \<not> difcNoRWBarrierContents c then
        if \<not> isLabeled sp obj then
          if \<not> is_EMPTY (integritySet (curState v))
          then Inl (DIFCException ''Read access violation: SR with non-null integrity attempting to read unlabeled data'')
          else Inr ()
        else if \<not> difcNoSlowPath c then readBarrierSlowPath c v obj
        else Inr ()
      else Inr ())"

definition readBarrierOutsideSRDebug :: "difc_config \<Rightarrow> labeledSpace \<Rightarrow> 'os vm \<Rightarrow> jobject \<Rightarrow> exn + unit" where
  "readBarrierOutsideSRDebug c sp v obj =
     (if VerifyAssertions c \<and> in_SR v then Inl AssertionError else readBarrierOutsideSR sp obj)"

definition readBarrierInsideSRDebug :: "difc_config \<Rightarrow> labeledSpace \<Rightarrow> 'os vm \<Rightarrow> jobject \<Rightarrow> exn + unit" where
  "readBarrierInsideSRDebug c sp v obj =
     (if VerifyAssertions c \<and> \<not> in_SR v then Inl AssertionError else readBarrierInsideSR c sp v obj)"

definition readBarrierDynamic :: "difc_config \<Rightarrow> labeledSpace \<Rightarrow> 'os vm \<Rightarrow> jobject \<Rightarrow> exn + unit" where
  "readBarrierDynamic c sp v obj =
     (if in_SR v then readBarrierInsideSR c sp v obj else readBarrierOutsideSR sp obj)"

definition readBarrierDynamicDebug :: "difc_config \<Rightarrow> labeledSpace \<Rightarrow> 'os vm \<Rightarrow> jobject \<Rightarrow> exn + unit" where
  "readBarrierDynamicDebug c sp v obj =
     (if in_SR v then readBarrierInsideSRDebug c sp v obj else readBarrierOutsideSRDebug c sp v obj)"

definition writeBarrierOutsideSR :: "labeledSpace \<Rightarrow> jobject \<Rightarrow> exn + unit" where
  "writeBarrierOutsideSR sp obj =
     (if labeled_outside sp obj
      then Inl (DIFCException ''Labeled/Poisoned object accessed outside secure region'') else Inr ())"

definition writeBarrierSlowPath :: "difc_config \<Rightarrow> 'os vm \<Rightarrow> jobject \<Rightarrow> exn + unit" where
  "writeBarrierSlowPath c v obj =
     (if difcNoSubsetChecks c then
        if secrecyLabels obj = None \<and> integrityLabels obj = None
        then Inl (DIFCException ''Shouldn't happen'') else Inr ()
      else case checkAllowed (Some (secrecySet (curState v))) (Some (integritySet (curState v)))
             (secrecyLabels obj) (integrityLabels obj) of
        Inl e \<Rightarrow> Inl e
      | Inr ok \<Rightarrow> if \<not> ok then Inl (DIFCException ''Write access violation'') else Inr ())"

definition writeBarrierInsideSR :: "difc_config \<Rightarrow> labeledSpace \<Rightarrow> 'os vm \<Rightarrow> jobject \<Rightarrow> exn + unit" where
  "writeBarrierInsideSR c sp v obj =
     (if \<not> difcNoRWBarrierContents c then
        if \<not> isLabeled sp obj then
          if \<not> is_EMPTY (secrecySet (curState v))
          then Inl (DIFCException ''Write access violation: SR with non-null secrecy attempting to write unlabeled data'')
          else Inr ()
        else if \<not> difcNoSlowPath c then writeBarrierSlowPath c v obj
        else Inr ()
      else Inr ())"

definition writeBarrierOutsideSRDebug :: "difc_config \<Rightarrow> labeledSpace \<Rightarrow> 'os vm \<Rightarrow> jobject \<Rightarrow> exn + unit" where
  "writeBarrierOutsideSRDebug c sp v obj =
     (if VerifyAssertions c \<and> in_SR v then Inl AssertionError else writeBarrierOutsideSR sp obj)"

definition writeBarrierInsideSRDebug :: "difc_config \<Rightarrow> labeledSpace \<Rightarrow> 'os vm \<Rightarrow> jobject \<Rightarrow> exn + unit" where
  "writeBarrierInsideSRDebug c sp v obj =
     (if VerifyAssertions c \<and> \<not> in_SR v then Inl AssertionError else writeBarrierInsideSR c sp v obj)"

definition writeBarrierDynamic :: "difc_config \<Rightarrow> labeledSpace \<Rightarrow> 'os vm \<Rightarrow> jobject \<Rightarrow> exn + unit" where
  "writeBarrierDynamic c sp v obj =
     (if in_SR v then writeBarrierInsideSR c sp v obj else writeBarrierOutsideSR sp obj)"

definition writeBarrierDynamicDebug :: "difc_config \<Rightarrow> labeledSpace \<Rightarrow> 'os vm \<Rightarrow> jobject \<Rightarrow> exn + unit" where
  "writeBarrierDynamicDebug c sp v obj =
     (if in_SR v then writeBarrierInsideSRDebug c sp v obj else writeBarrierOutsideSRDebug c sp v obj)"

section \<open>Allocation\<close>

definition setObjectLabels ::
  "difc_config \<Rightarrow> labeledSpace \<Rightarrow> jobject \<Rightarrow> LabelSet option \<Rightarrow> LabelSet option \<Rightarrow> exn + jobject" where
  "setObjectLabels c sp obj sec integ =
     (if VerifyAssertions c \<and> \<not> (isLabeled sp obj \<and> sec \<noteq> None \<and> integ \<noteq> None) then Inl AssertionError
      else Inr (obj\<lparr>secrecyLabels := sec, integrityLabels := integ\<rparr>))"

definition checkAllocLabels :: "'os vm \<Rightarrow> exn + bool" where
  "checkAllocLabels v =
     (let st = curState v in
      case checkAllowed (Some (secrecySet st)) (Some (integritySet st)) (secrecyAllocLabels st) (integrityAllocLabels st) of
        Inl e \<Rightarrow> Inl e
      | Inr False \<Rightarrow> Inl (DIFCException ''Object does not have labels compatible to secure-region'')
      | Inr True \<Rightarrow>
          (case (secrecyAllocLabels st, integrityAllocLabels st) of
             (Some s, Some i) \<Rightarrow>
               if \<not> checkInUnion s (secrecySet st) (plusCapabilitySet st)
               then Inl (DIFCException ''Object with secrecy label violation[01] '')
               else if \<not> checkInUnion (integritySet st) i (minusCapabilitySet st)
               then Inl (DIFCException ''Object with integrity label violation[01] '')
               else Inr True
           | _ \<Rightarrow> Inl NullPointer))"

definition allocBarrierSlowPath :: "difc_config \<Rightarrow> labeledSpace \<Rightarrow> 'os vm \<Rightarrow> jobject \<Rightarrow> exn + jobject" where
  "allocBarrierSlowPath c sp v obj =
     (case checkAllocLabels v of
        Inl e \<Rightarrow> Inl e
      | Inr True \<Rightarrow>
          if isLabeled sp obj
          then setObjectLabels c sp obj (secrecyAllocLabels (curState v)) (integrityAllocLabels (curState v))
          else Inr obj
      | Inr False \<Rightarrow> Inl (DIFCException ''Cannot apply passed labels to the allocated object''))"

definition allocBarrierInsideSR :: "difc_config \<Rightarrow> labeledSpace \<Rightarrow> 'os vm \<Rightarrow> jobject \<Rightarrow> exn + jobject" where
  "allocBarrierInsideSR c sp v obj =
     (let st = curState v in
      if secrecyAllocLabels st = None \<and> integrityAllocLabels st = None then
        if isLabeled sp obj
        then setObjectLabels c sp obj (Some (secrecySet st)) (Some (integritySet st)) else Inr obj
      else allocBarrierSlowPath c sp v obj)"

definition allocBarrierInsideSRDebug :: "difc_config \<Rightarrow> labeledSpace \<Rightarrow> 'os vm \<Rightarrow> jobject \<Rightarrow> exn + jobject" where
  "allocBarrierInsideSRDebug c sp v obj =
     (if VerifyAssertions c \<and> \<not> in_SR v then Inl AssertionError else allocBarrierInsideSR c sp v obj)"

definition allocBarrierOutsideSRDebug :: "difc_config \<Rightarrow> 'os vm \<Rightarrow> jobject \<Rightarrow> exn + jobject" where
  "allocBarrierOutsideSRDebug c v obj =
     (if VerifyAssertions c \<and> \<not> (\<not> in_SR v \<and> is_EMPTY_ref (secrecyAllocLabels (curState v)) \<and>
        is_EMPTY_ref (integrityAllocLabels (curState v)))
      then Inl AssertionError else Inr obj)"

definition allocBarrierDynamic :: "difc_config \<Rightarrow> labeledSpace \<Rightarrow> 'os vm \<Rightarrow> jobject \<Rightarrow> exn + jobject" where
  "allocBarrierDynamic c sp v obj = (if in_SR v then allocBarrierInsideSR c sp v obj else Inr obj)"

definition allocBarrierDynamicDebug :: "difc_config \<Rightarrow> labeledSpace \<Rightarrow> 'os vm \<Rightarrow> jobject \<Rightarrow> exn + jobject" where
  "allocBarrierDynamicDebug c sp v obj =
     (if in_SR v then allocBarrierInsideSRDebug c sp v obj else allocBarrierOutsideSRDebug c v obj)"

text \<open>The secrecy set of a state is never null, so the first test of \<open>shouldAllocLabeledObjectInSR\<close>
  only looks at the allocation label.\<close>

definition shouldAllocLabeledObjectInSRSlowPath :: "'os vm \<Rightarrow> bool" where
  "shouldAllocLabeledObjectInSRSlowPath v =
     (let st = curState v in
      if secrecyAllocLabels st = None \<and> integrityAllocLabels st = None \<and>
         is_EMPTY (secrecySet st) \<and> is_EMPTY (integritySet st) then False
      else if is_EMPTY_ref (secrecyAllocLabels st) \<and> is_EMPTY_ref (integrityAllocLabels st) then False
      else True)"

definition shouldAllocLabeledObjectInSR :: "difc_config \<Rightarrow> 'os vm \<Rightarrow> exn + bool" where
  "shouldAllocLabeledObjectInSR c v =
     (if VerifyAssertions c \<and> \<not> in_SR v then Inl AssertionError
      else if \<not> is_EMPTY_ref (secrecyAllocLabels (curState v)) then Inr True
      else Inr (shouldAllocLabeledObjectInSRSlowPath v))"

section \<open>Choice of a barrier\<close>

datatype barrier = READ_BARRIER | WRITE_BARRIER | STATIC_READ_BARRIER | STATIC_WRITE_BARRIER | ALLOC_BARRIER

datatype barrier_mode = Dynamic | InsideSR | OutsideSR

text \<open>The entry point \<open>difc\<close>\<open>Kind\<close>\<open>Barrier\<close>\<open>Mode\<close>, with its debugging variant.\<close>

datatype entrypoint = Entry barrier barrier_mode bool

record NormalMethod =
  isBootstrapClassDescriptor :: bool
  isRVMDescriptor :: bool
  isProxy :: bool
  staticallyInSecureRegion :: bool

definition barriers_in :: "difc_config \<Rightarrow> bool \<Rightarrow> NormalMethod \<Rightarrow> bool" where
  "barriers_in c booted m =
     (if enabled c \<and> difcBarriers c then
        let app = \<not> isBootstrapClassDescriptor m; lib = \<not> isRVMDescriptor m
        in if isProxy m then False
           else if (app \<and> booted) \<or> (lib \<and> difcLibraries c) then True else False
      else False)"

definition addBarriers :: "difc_config \<Rightarrow> bool \<Rightarrow> NormalMethod \<Rightarrow> barrier \<Rightarrow> entrypoint option" where
  "addBarriers c booted m type =
     (if barriers_in c booted m then
        let staticOrAllocBarrier = type \<in> {STATIC_READ_BARRIER, STATIC_WRITE_BARRIER, ALLOC_BARRIER};
            readOrWriteBarrier = type \<in> {READ_BARRIER, WRITE_BARRIER}
        in if (\<not> difcNoStaticOrAllocBarriers c \<or> \<not> staticOrAllocBarrier) \<and>
              (\<not> difcNoReadOrWriteBarriers c \<or> \<not> readOrWriteBarrier) then
             let debugBarriers = VerifyAssertions c \<or> difcVerbose c
             in if debugBarriers then
                  if difcDynamicBarriers c then Some (Entry type Dynamic True)
                  else if staticallyInSecureRegion m then Some (Entry type InsideSR True)
                  else Some (Entry type OutsideSR True)
                else
                  if difcDynamicBarriers c then Some (Entry type Dynamic False)
                  else if staticallyInSecureRegion m then Some (Entry type InsideSR False)
                  else (case type of
                          READ_BARRIER \<Rightarrow> Some (Entry type OutsideSR False)
                        | WRITE_BARRIER \<Rightarrow> Some (Entry type OutsideSR False)
                        | _ \<Rightarrow> None)
           else None
      else None)"

text \<open>When a method is first invoked it is marked for one side of the region boundary, unless its
  barriers are dynamic; \<open>secureMethod\<close> is the annotation \<open>@SecureMethod\<close>.\<close>

definition compile_mark :: "difc_config \<Rightarrow> bool \<Rightarrow> 'os vm \<Rightarrow> bool \<Rightarrow> NormalMethod \<Rightarrow> NormalMethod" where
  "compile_mark c booted v secureMethod m =
     (if enabled c then
        if difcDynamicBarriers c \<and> barriers_in c booted m then m
        else if secureMethod \<or> in_SR v \<and> barriers_in c booted m then m\<lparr>staticallyInSecureRegion := True\<rparr>
        else m
      else m)"

text \<open>The method an instruction comes from may be unknown.\<close>

definition addBarriers_inst ::
  "bool \<Rightarrow> difc_config \<Rightarrow> bool \<Rightarrow> NormalMethod option \<Rightarrow> barrier \<Rightarrow> entrypoint option" where
  "addBarriers_inst difcNoOptBarriers c booted position type =
     (if \<not> difcNoOptBarriers then
        case position of None \<Rightarrow> None | Some method \<Rightarrow> addBarriers c booted method type
      else None)"

text \<open>What the compiled call of an entry point does to an object that is read or written.\<close>

fun run_access :: "entrypoint \<Rightarrow> difc_config \<Rightarrow> labeledSpace \<Rightarrow> 'os vm \<Rightarrow> jobject \<Rightarrow> exn + unit" where
  "run_access (Entry READ_BARRIER Dynamic d) c sp v obj =
     (if d then readBarrierDynamicDebug c sp v obj else readBarrierDynamic c sp v obj)"
| "run_access (Entry READ_BARRIER InsideSR d) c sp v obj =
     (if d then readBarrierInsideSRDebug c sp v obj else readBarrierInsideSR c sp v obj)"
| "run_access (Entry READ_BARRIER OutsideSR d) c sp v obj =
     (if d then readBarrierOutsideSRDebug c sp v obj else readBarrierOutsideSR sp obj)"
| "run_access (Entry WRITE_BARRIER Dynamic d) c sp v obj =
     (if d then writeBarrierDynamicDebug c sp v obj else writeBarrierDynamic c sp v obj)"
| "run_access (Entry WRITE_BARRIER InsideSR d) c sp v obj =
     (if d then writeBarrierInsideSRDebug c sp v obj else writeBarrierInsideSR c sp v obj)"
| "run_access (Entry WRITE_BARRIER OutsideSR d) c sp v obj =
     (if d then writeBarrierOutsideSRDebug c sp v obj else writeBarrierOutsideSR sp obj)"
| "run_access _ c sp v obj = Inr ()"

section \<open>Placement of objects\<close>

definition DEFAULT_SITE :: int where "DEFAULT_SITE = -1"
definition LABELED :: int where "LABELED = -2"

definition getAllocationSite :: "bool \<Rightarrow> int \<Rightarrow> int" where
  "getAllocationSite compileTime allocationSiteCount =
     (if compileTime then allocationSiteCount else DEFAULT_SITE)"

definition getDIFCAllocationSite :: "difc_config \<Rightarrow> bool \<Rightarrow> bool \<Rightarrow> int \<Rightarrow> NormalMethod \<Rightarrow> int" where
  "getDIFCAllocationSite c booted compileTime allocationSiteCount m =
     (if enabled c \<and> barriers_in c booted m \<and> (difcDynamicBarriers c \<or> staticallyInSecureRegion m) then LABELED
      else getAllocationSite compileTime allocationSiteCount)"

definition allocLaminarLabeled :: "difc_config \<Rightarrow> 'os vm \<Rightarrow> exn + bool" where
  "allocLaminarLabeled c v =
     (let inSR = (if difcDynamicBarriers c then in_SR v else True)
      in if inSR then shouldAllocLabeledObjectInSR c v else Inr False)"

definition allocAiravatLabeled :: "difc_config \<Rightarrow> bool" where
  "allocAiravatLabeled c = (if difcDynamicBarriers c then inMapperRegion c else True)"

definition allocLabeled :: "difc_config \<Rightarrow> 'os vm \<Rightarrow> int \<Rightarrow> exn + bool" where
  "allocLabeled c v site =
     (if enabled c \<and> difcBarriers c \<and> site = LABELED then
        if isAiravat c then Inr (allocAiravatLabeled c) else allocLaminarLabeled c v
      else Inr False)"

definition allocateScalar ::
  "(bool \<Rightarrow> 32 word) \<Rightarrow> difc_config \<Rightarrow> 'os vm \<Rightarrow> int \<Rightarrow> nat \<Rightarrow> bool \<Rightarrow> exn + jobject" where
  "allocateScalar place c v site n clonable =
     (case allocLabeled c v site of
        Inl e \<Rightarrow> Inl e
      | Inr labeled \<Rightarrow>
          Inr \<lparr>addr = place labeled, secrecyLabels = None, integrityLabels = None,
               field_values = replicate n 0, cloneable = clonable\<rparr>)"

definition resolvedNewScalar ::
  "(bool \<Rightarrow> 32 word) \<Rightarrow> difc_config \<Rightarrow> 'os vm \<Rightarrow> nat \<Rightarrow> bool \<Rightarrow> exn + jobject" where
  "resolvedNewScalar place c v n clonable =
     allocateScalar place c v (getAllocationSite False 0) n clonable"

text \<open>Every field is copied, whatever its size.\<close>

fun copy_fields :: "int list \<Rightarrow> int list \<Rightarrow> int list" where
  "copy_fields (x # xs) (_ # ys) = x # copy_fields xs ys"
| "copy_fields _ ys = ys"

definition cloneClass2 :: "(bool \<Rightarrow> 32 word) \<Rightarrow> difc_config \<Rightarrow> 'os vm \<Rightarrow> jobject \<Rightarrow> exn + jobject" where
  "cloneClass2 place c v obj =
     (case resolvedNewScalar place c v (length (field_values obj)) (cloneable obj) of
        Inl e \<Rightarrow> Inl e
      | Inr newObj \<Rightarrow> Inr (newObj\<lparr>field_values := copy_fields (field_values obj) (field_values newObj)\<rparr>))"

section \<open>Changing the labels of an object\<close>

text \<open>The \<open>clone\<close> method of a class that implements \<open>Cloneable\<close> is a method of the program; it is the
  argument \<open>userClone\<close>, which returns null when it throws.\<close>

definition changeObjectLabel ::
  "(bool \<Rightarrow> 32 word) \<Rightarrow> ('os vm \<Rightarrow> jobject \<Rightarrow> jobject option \<times> 'os vm) \<Rightarrow> difc_config \<Rightarrow> labeledSpace \<Rightarrow>
   jobject \<Rightarrow> LabelSet option \<Rightarrow> LabelSet option \<Rightarrow> 'os vm \<Rightarrow> (exn + jobject) \<times> 'os vm" where
  "changeObjectLabel place userClone c sp obj newSec newInt v =
     (let newSecrecyLabels = or_EMPTY newSec; newIntegrityLabels = or_EMPTY newInt
      in if \<not> isLabeled sp obj \<and> is_EMPTY newSecrecyLabels \<and> is_EMPTY newIntegrityLabels then (Inr obj, v)
         else
           let st = curState v;
               (oldSec, oldInt) = (if isLabeled sp obj then (secrecyLabels obj, integrityLabels obj)
                                   else (Some EMPTY, Some EMPTY))
           in case oldSec of
                None \<Rightarrow> (Inl NullPointer, v)
              | Some oldSecrecyLabels \<Rightarrow>
                  if \<not> checkInUnion newSecrecyLabels oldSecrecyLabels (plusCapabilitySet st) then
                    (Inl (DIFCException ''Label change not allowed - lacks capability to add all secrecy labels''), v)
                  else if \<not> checkInUnion oldSecrecyLabels newSecrecyLabels (minusCapabilitySet st) then
                    (Inl (DIFCException ''Label change not allowed - lacks capability to remove all secrecy labels''), v)
                  else case oldInt of
                    None \<Rightarrow> (Inl NullPointer, v)
                  | Some oldIntegrityLabels \<Rightarrow>
                      if \<not> checkInUnion newIntegrityLabels oldIntegrityLabels (plusCapabilitySet st) then
                        (Inl (DIFCException ''Label change not allowed - lacks capability to add all integrity labels''), v)
                      else if \<not> checkInUnion oldIntegrityLabels newIntegrityLabels (minusCapabilitySet st) then
                        (Inl (DIFCException ''Label change not allowed - lacks capability to remove all integrity labels''), v)
                      else
                        let v1 = setAllocationLabelsInternal (Some newSecrecyLabels) (Some newIntegrityLabels) v;
                            (retObj, v2) = (if cloneable obj then userClone v1 obj else (None, v1))
                        in (case (case retObj of Some r \<Rightarrow> Inr r | None \<Rightarrow> cloneClass2 place c v2 obj) of
                              Inl e \<Rightarrow> (Inl e, v2)
                            | Inr r \<Rightarrow>
                                (Inr r, setAllocationLabelsInternal (secrecyAllocLabels st) (integrityAllocLabels st) v2)))"

section \<open>What the barriers enforce\<close>

text \<open>The labels of an object as sets; an object outside the labelled space has none.\<close>

definition obj_sec :: "labeledSpace \<Rightarrow> jobject \<Rightarrow> int set" where
  "obj_sec sp obj = (if isLabeled sp obj then olset (secrecyLabels obj) else {})"

definition obj_int :: "labeledSpace \<Rightarrow> jobject \<Rightarrow> int set" where
  "obj_int sp obj = (if isLabeled sp obj then olset (integrityLabels obj) else {})"

definition obj_ok :: "labeledSpace \<Rightarrow> 'os vm \<Rightarrow> jobject \<Rightarrow> bool" where
  "obj_ok sp v obj \<longleftrightarrow> isLabeled sp obj \<longrightarrow>
     secrecyLabels obj \<in> Some ` set (objects v) \<and> integrityLabels obj \<in> Some ` set (objects v)"

definition full_checks :: "difc_config \<Rightarrow> bool" where
  "full_checks c \<longleftrightarrow> \<not> difcNoRWBarrierContents c \<and> \<not> difcNoSlowPath c \<and> \<not> difcNoSubsetChecks c"

lemma checkAllowed_ref_iff:
  "objs_ok A \<Longrightarrow> a \<in> set A \<Longrightarrow> b \<in> set A \<Longrightarrow> checkAllowed_ref (Some a) (Some b) = Inr (lset a \<subseteq> lset b)"
  using objs_subset objs_is_EMPTY by (auto simp: checkAllowed_ref_def)

lemma checkAllowed_iff:
  assumes "objs_ok A" "{s1, i1, s2, i2} \<subseteq> set A"
  shows "checkAllowed (Some s1) (Some i1) (Some s2) (Some i2) = Inr (lset s1 \<subseteq> lset s2 \<and> lset i2 \<subseteq> lset i1)"
  using checkAllowed_ref_iff [OF assms(1), of s1 s2] checkAllowed_ref_iff [OF assms(1), of i2 i1] assms(2)
  by (auto simp: checkAllowed_def split: bool.split)

lemma inside_barriers:
  assumes "vm_ok v" "obj_ok sp v obj" "full_checks c"
  shows "readBarrierInsideSR c sp v obj = Inr () \<longleftrightarrow>
      obj_sec sp obj \<subseteq> lset (secrecySet (curState v)) \<and> lset (integritySet (curState v)) \<subseteq> obj_int sp obj"
    "writeBarrierInsideSR c sp v obj = Inr () \<longleftrightarrow>
      lset (secrecySet (curState v)) \<subseteq> obj_sec sp obj \<and> obj_int sp obj \<subseteq> lset (integritySet (curState v))"
proof -
  note o = vm_ok_objs [OF assms(1)]
  note m = state_in_fields [OF curState_in [OF assms(1)]]
  have e: "is_EMPTY (secrecySet (curState v)) \<longleftrightarrow> lset (secrecySet (curState v)) = {}"
    "is_EMPTY (integritySet (curState v)) \<longleftrightarrow> lset (integritySet (curState v)) = {}"
    using objs_is_EMPTY [OF o] m by auto
  have ch: "checkAllowed (secrecyLabels obj) (integrityLabels obj) (Some (secrecySet (curState v))) (Some (integritySet (curState v))) =
      Inr (obj_sec sp obj \<subseteq> lset (secrecySet (curState v)) \<and> lset (integritySet (curState v)) \<subseteq> obj_int sp obj)"
    "checkAllowed (Some (secrecySet (curState v))) (Some (integritySet (curState v))) (secrecyLabels obj) (integrityLabels obj) =
      Inr (lset (secrecySet (curState v)) \<subseteq> obj_sec sp obj \<and> obj_int sp obj \<subseteq> lset (integritySet (curState v)))"
    if "isLabeled sp obj"
    using that assms(2) m checkAllowed_iff [OF o]
    by (auto simp: obj_ok_def obj_sec_def obj_int_def olset_def or_EMPTY_def)
  show "readBarrierInsideSR c sp v obj = Inr () \<longleftrightarrow>
      obj_sec sp obj \<subseteq> lset (secrecySet (curState v)) \<and> lset (integritySet (curState v)) \<subseteq> obj_int sp obj"
    using assms(3) e ch(1)
    by (simp add: readBarrierInsideSR_def readBarrierSlowPath_def full_checks_def obj_sec_def obj_int_def)
  show "writeBarrierInsideSR c sp v obj = Inr () \<longleftrightarrow>
      lset (secrecySet (curState v)) \<subseteq> obj_sec sp obj \<and> obj_int sp obj \<subseteq> lset (integritySet (curState v))"
    using assms(3) e ch(2)
    by (simp add: writeBarrierInsideSR_def writeBarrierSlowPath_def full_checks_def obj_sec_def obj_int_def)
qed

lemma addBarriers_cases:
  assumes "addBarriers c booted m t = Some e"
  shows "\<exists>d mode. e = Entry t mode d \<and> (d \<longleftrightarrow> VerifyAssertions c \<or> difcVerbose c) \<and>
    mode = (if difcDynamicBarriers c then Dynamic else if staticallyInSecureRegion m then InsideSR else OutsideSR)"
  using assms by (auto simp: addBarriers_def Let_def split: if_splits barrier.splits)

text \<open>C10: The barrier compiled into a method enforces the flow of labels. With all checks
  configured, and when the code is compiled with dynamic barriers, or the method is compiled for the side of the region boundary it is
  run on, the barrier before a read lets the access through inside a region exactly if the
  secrecy labels of the object are among those of the region and the integrity labels of the
  region among those of the object, and the barrier before a write exactly if the converse
  inclusions hold; an unlabelled object counts as having empty labels. Outside every region
  both let exactly the objects through whose reference is not in the labelled space.\<close>

theorem inserted_barrier_enforces_flow:
  assumes "vm_ok v" "obj_ok sp v obj" "full_checks c"
    "addBarriers c booted m READ_BARRIER = Some r" "addBarriers c booted m WRITE_BARRIER = Some w"
    "difcDynamicBarriers c \<or> (staticallyInSecureRegion m \<longleftrightarrow> in_SR v)"
  shows "(run_access r c sp v obj = Inr () \<longleftrightarrow>
      (if in_SR v then obj_sec sp obj \<subseteq> lset (secrecySet (curState v)) \<and> lset (integritySet (curState v)) \<subseteq> obj_int sp obj
       else \<not> labeled_outside sp obj)) \<and>
    (run_access w c sp v obj = Inr () \<longleftrightarrow>
      (if in_SR v then lset (secrecySet (curState v)) \<subseteq> obj_sec sp obj \<and> obj_int sp obj \<subseteq> lset (integritySet (curState v))
       else \<not> labeled_outside sp obj))"
proof -
  note i = inside_barriers [OF assms(1-3)]
  have o: "readBarrierOutsideSR sp obj = Inr () \<longleftrightarrow> \<not> labeled_outside sp obj"
    "writeBarrierOutsideSR sp obj = Inr () \<longleftrightarrow> \<not> labeled_outside sp obj"
    by (simp_all add: readBarrierOutsideSR_def writeBarrierOutsideSR_def)
  have r: "run_access r c sp v obj = readBarrierDynamic c sp v obj"
    using addBarriers_cases [OF assms(4)] assms(6)
    by (auto simp: readBarrierDynamic_def readBarrierDynamicDebug_def readBarrierInsideSRDebug_def
        readBarrierOutsideSRDebug_def split: if_splits)
  have w: "run_access w c sp v obj = writeBarrierDynamic c sp v obj"
    using addBarriers_cases [OF assms(5)] assms(6)
    by (auto simp: writeBarrierDynamic_def writeBarrierDynamicDebug_def writeBarrierInsideSRDebug_def
        writeBarrierOutsideSRDebug_def split: if_splits)
  show ?thesis unfolding r w readBarrierDynamic_def writeBarrierDynamic_def using i o by simp
qed

text \<open>A labelled space, a configuration and an object for the concrete instances below.\<close>

definition demo_space :: labeledSpace where
  "demo_space = \<lparr>getStart = 4096, getExtent = 4096\<rparr>"

definition demo_config :: difc_config where
  "demo_config = \<lparr>enabled = True, VerifyAssertions = False, difcVerbose = False, difcBarriers = True,
     difcLibraries = False, difcDynamicBarriers = True, difcNoRWBarrierContents = False, difcNoSlowPath = False,
     difcNoSubsetChecks = False, difcNoStaticOrAllocBarriers = False, difcNoReadOrWriteBarriers = False,
     isAiravat = False, inMapperRegion = False\<rparr>"

definition demo_method :: NormalMethod where
  "demo_method = \<lparr>isBootstrapClassDescriptor = False, isRVMDescriptor = False, isProxy = False,
     staticallyInSecureRegion = False\<rparr>"

definition demo_obj :: jobject where
  "demo_obj = \<lparr>addr = 5000, secrecyLabels = Some demo_set, integrityLabels = Some EMPTY,
     field_values = [42], cloneable = False\<rparr>"

definition demo_place :: "bool \<Rightarrow> 32 word" where
  "demo_place labeled = (if labeled then 5100 else 100)"

lemma demo_inside_ok: "vm_ok demo_inside"
  using vm_run_refined [OF demo_run boot_ok] by simp

lemma demo_cur: "curState demo_inside = demo_region"
  by (simp add: curState_def demo_inside_def)

lemma demo_labels:
  "lset (secrecySet (curState demo_inside)) = {5}" "lset (integritySet (curState demo_inside)) = {}"
  by (simp add: demo_cur demo_region_def setState_def demo_set_eq elems_def)
    (simp add: demo_cur demo_region_def setState_def)

lemma demo_isLabeled: "isLabeled demo_space demo_obj"
  by (simp add: isLabeled_def demo_space_def demo_obj_def minimumObjectRef_def OBJECT_REF_OFFSET_def)

theorem inserted_barrier_enforces_flow_witness:
  "run_access (Entry READ_BARRIER Dynamic False) demo_config demo_space demo_inside demo_obj = Inr () \<and>
   obj_sec demo_space demo_obj = {5}"
proof -
  have ok: "obj_ok demo_space demo_inside demo_obj"
    by (simp add: obj_ok_def demo_obj_def demo_inside_def)
  have c: "full_checks demo_config" by (simp add: full_checks_def demo_config_def)
  have b: "addBarriers demo_config True demo_method READ_BARRIER = Some (Entry READ_BARRIER Dynamic False)"
    "addBarriers demo_config True demo_method WRITE_BARRIER = Some (Entry WRITE_BARRIER Dynamic False)"
    by (simp_all add: addBarriers_def barriers_in_def demo_config_def demo_method_def)
  have d: "difcDynamicBarriers demo_config \<or> (staticallyInSecureRegion demo_method \<longleftrightarrow> in_SR demo_inside)"
    by (simp add: demo_config_def)
  have s: "obj_sec demo_space demo_obj = {5}"
    using demo_isLabeled by (simp add: obj_sec_def olset_def or_EMPTY_def demo_obj_def demo_set_eq elems_def)
  show ?thesis
    using inserted_barrier_enforces_flow [OF demo_inside_ok ok c b d] s demo_labels
    by (simp add: demo_inside_def in_SR_def)
qed

section \<open>Allocation respects the region\<close>

lemma checkAllocLabels_ok:
  assumes "vm_ok v" "checkAllocLabels v = Inr b"
  obtains s i where "secrecyAllocLabels (curState v) = Some s" "integrityAllocLabels (curState v) = Some i"
    "s \<in> set (objects v)" "i \<in> set (objects v)" "b"
    "lset (secrecySet (curState v)) \<subseteq> lset s" "lset i \<subseteq> lset (integritySet (curState v))"
    "lset s \<subseteq> lset (secrecySet (curState v)) \<union> lset (plusCapabilitySet (curState v))"
proof -
  note o = vm_ok_objs [OF assms(1)]
  note m = state_in_fields [OF curState_in [OF assms(1)]]
  obtain s i where si: "secrecyAllocLabels (curState v) = Some s" "integrityAllocLabels (curState v) = Some i"
    using assms(2)
    by (cases "secrecyAllocLabels (curState v)"; cases "integrityAllocLabels (curState v)")
      (auto simp: checkAllocLabels_def Let_def split: sum.splits bool.splits)
  have mem: "s \<in> set (objects v)" "i \<in> set (objects v)"
    using curState_in [OF assms(1)] si by (auto simp: state_in_def)
  have c: "checkAllowed (Some (secrecySet (curState v))) (Some (integritySet (curState v))) (Some s) (Some i) =
      Inr (lset (secrecySet (curState v)) \<subseteq> lset s \<and> lset i \<subseteq> lset (integritySet (curState v)))"
    using checkAllowed_iff [OF o] m mem by simp
  have u: "checkInUnion s (secrecySet (curState v)) (plusCapabilitySet (curState v)) \<longleftrightarrow>
      lset s \<subseteq> lset (secrecySet (curState v)) \<union> lset (plusCapabilitySet (curState v))"
    using objs_union [OF o mem(1) m(1,3)] .
  have "b \<and> lset (secrecySet (curState v)) \<subseteq> lset s \<and> lset i \<subseteq> lset (integritySet (curState v)) \<and>
      lset s \<subseteq> lset (secrecySet (curState v)) \<union> lset (plusCapabilitySet (curState v))"
    using assms(2) unfolding checkAllocLabels_def Let_def si c by (simp add: u split: bool.splits if_splits)
  then show ?thesis using that si mem by blast
qed

lemma allocLabeled_unlabelled:
  assumes "vm_ok v" "enabled c" "difcBarriers c" "in_SR v" "\<not> isAiravat c" "allocLabeled c v LABELED = Inr False"
  shows "secrecyAllocLabels (curState v) = Some EMPTY" "integrityAllocLabels (curState v) = Some EMPTY"
proof -
  have e: "is_EMPTY_ref (secrecyAllocLabels (curState v)) \<and> is_EMPTY_ref (integrityAllocLabels (curState v))"
    using assms(2-6)
    by (auto simp: allocLabeled_def allocLaminarLabeled_def shouldAllocLabeledObjectInSR_def
        shouldAllocLabeledObjectInSRSlowPath_def is_EMPTY_ref_def Let_def split: if_splits option.splits)
  have "a = EMPTY" if "a \<in> set (objects v)" "is_EMPTY a" for a
    using objs_mem(2) [OF vm_ok_objs [OF assms(1)] that(1)] objs_mem(2) [OF vm_ok_objs [OF assms(1)]]
      objs_EMPTY [OF vm_ok_objs [OF assms(1)]] that(2) by (metis is_EMPTY_def)
  then show "secrecyAllocLabels (curState v) = Some EMPTY" "integrityAllocLabels (curState v) = Some EMPTY"
    using e curState_in [OF assms(1)] by (auto simp: state_in_def is_EMPTY_ref_def split: option.splits)
qed

text \<open>C11: A static barrier is fixed when its method is first invoked. In a build with static
  barriers and without run-time assertions, a method first invoked outside every region, and
  not annotated, keeps the barriers for outside: when it runs inside a region with secrets
  later, its write barrier lets an object without labels through, although the flow from the
  region to the object is forbidden.\<close>

theorem static_barrier_misses_region:
  assumes "\<not> difcDynamicBarriers c" "\<not> VerifyAssertions c" "\<not> staticallyInSecureRegion m" "\<not> in_SR v0"
    "addBarriers c booted (compile_mark c booted v0 False m) WRITE_BARRIER = Some w"
    "\<not> isLabeled sp obj" "\<not> labeled_outside sp obj" "in_SR v" "lset (secrecySet (curState v)) \<noteq> {}"
  shows "run_access w c sp v obj = Inr () \<and> \<not> lset (secrecySet (curState v)) \<subseteq> obj_sec sp obj"
proof -
  have m: "compile_mark c booted v0 False m = m" using assms(1,4) by (simp add: compile_mark_def)
  have "run_access w c sp v obj = writeBarrierOutsideSR sp obj"
    using addBarriers_cases [OF assms(5)] assms(1-3) m by (auto simp: writeBarrierOutsideSRDebug_def)
  then show ?thesis using assms(6,7,9) by (simp add: writeBarrierOutsideSR_def obj_sec_def)
qed

theorem static_barrier_misses_region_witness:
  "run_access (Entry WRITE_BARRIER OutsideSR False) (demo_config\<lparr>difcDynamicBarriers := False\<rparr>) demo_space demo_inside
     (demo_obj\<lparr>addr := demo_place False\<rparr>) = Inr ()"
proof -
  let ?c = "demo_config\<lparr>difcDynamicBarriers := False\<rparr>"
  let ?o = "demo_obj\<lparr>addr := demo_place False\<rparr>"
  have c: "\<not> difcDynamicBarriers ?c" "\<not> VerifyAssertions ?c" "\<not> staticallyInSecureRegion demo_method" "\<not> in_SR (boot_vm ())"
    by (simp_all add: demo_config_def demo_method_def boot_vm_def init_def in_SR_def new_GreenThread_def)
  have a: "addBarriers ?c True (compile_mark ?c True (boot_vm ()) False demo_method) WRITE_BARRIER = Some (Entry WRITE_BARRIER OutsideSR False)"
    using c(4) by (simp add: compile_mark_def addBarriers_def barriers_in_def demo_config_def demo_method_def)
  have p: "\<not> isLabeled demo_space ?o" "\<not> labeled_outside demo_space ?o"
    by (simp_all add: isLabeled_def labeled_outside_def demo_space_def demo_place_def minimumObjectRef_def OBJECT_REF_OFFSET_def)
  have s: "in_SR demo_inside" "lset (secrecySet (curState demo_inside)) \<noteq> {}"
    using demo_labels by (simp_all add: demo_inside_def in_SR_def)
  show ?thesis using static_barrier_misses_region [OF c a p s] by blast
qed

text \<open>C12: An object allocated in a secure region cannot carry the secrets of the region away. When
  code compiled with barriers allocates an object inside a region and the allocation barrier
  returns, the object has every secrecy label of the region, no integrity label the region
  lacks, and no secrecy label beyond those of the region and its plus capabilities, whether
  it was given the labels of the region, explicit allocation labels, or no labels at all. The
  allocator is assumed to place an object in the labelled space exactly if asked to, and the
  machine is not built as Airavat, which places objects by its mapper regions.\<close>

theorem allocation_respects_region:
  assumes "vm_ok v" "in_SR v" "enabled c" "difcBarriers c"
    "\<And>obj. isLabeled sp (obj\<lparr>addr := place True\<rparr>)" "\<And>obj. \<not> isLabeled sp (obj\<lparr>addr := place False\<rparr>)"
    "barriers_in c booted m" "difcDynamicBarriers c \<or> staticallyInSecureRegion m"
    "allocateScalar place c v (getDIFCAllocationSite c booted True n m) k cl = Inr obj"
    "allocBarrierInsideSR c sp v obj = Inr obj'" "\<not> isAiravat c"
  shows "lset (secrecySet (curState v)) \<subseteq> obj_sec sp obj' \<and> obj_int sp obj' \<subseteq> lset (integritySet (curState v)) \<and>
    obj_sec sp obj' \<subseteq> lset (secrecySet (curState v)) \<union> lset (plusCapabilitySet (curState v))"
proof -
  let ?st = "curState v"
  have "getDIFCAllocationSite c booted True n m = LABELED" using assms(3,7,8) by (simp add: getDIFCAllocationSite_def)
  then obtain labeled where l: "allocLabeled c v LABELED = Inr labeled" "addr obj = place labeled"
    using assms(9) by (auto simp: allocateScalar_def split: sum.splits)
  have lab: "isLabeled sp (obj\<lparr>secrecyLabels := x, integrityLabels := y\<rparr>) \<longleftrightarrow> labeled" "isLabeled sp obj \<longleftrightarrow> labeled" for x y
    using assms(5) [of obj] assms(6) [of obj] l(2) by (cases labeled; simp add: isLabeled_def)+
  show ?thesis
  proof (cases "secrecyAllocLabels ?st = None \<and> integrityAllocLabels ?st = None")
    case True
    then have "labeled" using allocLabeled_unlabelled [OF assms(1,3,4,2,11)] l(1) by (cases labeled) auto
    then have "obj' = obj\<lparr>secrecyLabels := Some (secrecySet ?st), integrityLabels := Some (integritySet ?st)\<rparr>"
      using assms(10) True lab by (simp add: allocBarrierInsideSR_def setObjectLabels_def Let_def split: if_splits)
    then show ?thesis using lab \<open>labeled\<close> by (simp add: obj_sec_def obj_int_def olset_def or_EMPTY_def)
  next
    case False
    then have slow: "allocBarrierSlowPath c sp v obj = Inr obj'"
      using assms(10) by (simp only: allocBarrierInsideSR_def Let_def if_False)
    then obtain b where "checkAllocLabels v = Inr b" by (auto simp: allocBarrierSlowPath_def split: sum.splits)
    from checkAllocLabels_ok [OF assms(1) this] obtain s i where si:
      "secrecyAllocLabels ?st = Some s" "integrityAllocLabels ?st = Some i" "checkAllocLabels v = Inr True"
      "lset (secrecySet ?st) \<subseteq> lset s" "lset i \<subseteq> lset (integritySet ?st)"
      "lset s \<subseteq> lset (secrecySet ?st) \<union> lset (plusCapabilitySet ?st)"
      using \<open>checkAllocLabels v = Inr b\<close> by metis
    show ?thesis
    proof (cases labeled)
      case True
      then have "obj' = obj\<lparr>secrecyLabels := Some s, integrityLabels := Some i\<rparr>"
        using slow si(1-3) lab by (simp add: allocBarrierSlowPath_def setObjectLabels_def split: if_splits)
      then show ?thesis using lab True si by (simp add: obj_sec_def obj_int_def olset_def or_EMPTY_def)
    next
      case False
      then have "obj' = obj" "s = EMPTY"
        using slow si(1-3) lab allocLabeled_unlabelled [OF assms(1,3,4,2,11)] l(1) by (simp_all add: allocBarrierSlowPath_def)
      then show ?thesis using lab False si by (simp add: obj_sec_def obj_int_def)
    qed
  qed
qed

theorem allocation_respects_region_witness:
  "obj_sec demo_space (demo_obj\<lparr>addr := 5100, field_values := []\<rparr>) = {5} \<and>
   {5} \<subseteq> obj_sec demo_space (\<lparr>addr = 5100, secrecyLabels = Some demo_set, integrityLabels = Some EMPTY,
     field_values = [0], cloneable = False\<rparr>)"
proof -
  let ?o = "\<lparr>addr = 5100, secrecyLabels = None, integrityLabels = None, field_values = [0], cloneable = False\<rparr>"
  let ?o' = "?o\<lparr>secrecyLabels := Some demo_set, integrityLabels := Some EMPTY\<rparr>"
  have p: "isLabeled demo_space (obj\<lparr>addr := demo_place True\<rparr>)" "\<not> isLabeled demo_space (obj\<lparr>addr := demo_place False\<rparr>)" for obj
    by (simp_all add: isLabeled_def demo_space_def demo_place_def minimumObjectRef_def OBJECT_REF_OFFSET_def)
  have c: "in_SR demo_inside" "enabled demo_config" "difcBarriers demo_config" "barriers_in demo_config True demo_method"
    "difcDynamicBarriers demo_config \<or> staticallyInSecureRegion demo_method" "\<not> isAiravat demo_config"
    by (simp_all add: demo_inside_def in_SR_def demo_config_def barriers_in_def demo_method_def)
  have a: "allocateScalar demo_place demo_config demo_inside (getDIFCAllocationSite demo_config True True 0 demo_method) 1 False = Inr ?o"
    using c by (simp add: allocateScalar_def getDIFCAllocationSite_def allocLabeled_def allocLaminarLabeled_def
        shouldAllocLabeledObjectInSR_def demo_cur demo_region_def setState_def is_EMPTY_ref_def demo_place_def demo_config_def)
  have l: "isLabeled demo_space ?o"
    by (simp add: isLabeled_def demo_space_def minimumObjectRef_def OBJECT_REF_OFFSET_def)
  then have b: "allocBarrierInsideSR demo_config demo_space demo_inside ?o = Inr ?o'"
    by (simp add: allocBarrierInsideSR_def setObjectLabels_def demo_cur demo_region_def setState_def demo_config_def)
  have s: "obj_sec demo_space (demo_obj\<lparr>addr := 5100, field_values := []\<rparr>) = {5}"
    by (simp add: obj_sec_def isLabeled_def demo_space_def minimumObjectRef_def OBJECT_REF_OFFSET_def olset_def
        or_EMPTY_def demo_obj_def demo_set_eq elems_def)
  show ?thesis
    using allocation_respects_region [OF demo_inside_ok c(1-3) p c(4,5) a b c(6)] demo_labels s by simp
qed

section \<open>Changing labels\<close>

lemma copy_fields_all: "length xs = length ys \<Longrightarrow> copy_fields xs ys = xs"
  by (induction xs ys rule: list_induct2) auto

lemma setAlloc_restore:
  "setAllocationLabelsInternal (secrecyAllocLabels (curState v)) (integrityAllocLabels (curState v))
     (setAllocationLabelsInternal a b v) = v" if "vm_ok v"
proof -
  have "cur (thread v) < length (chain (thread v))" using that by (simp add: vm_ok_def)
  then show ?thesis by (simp add: setAllocationLabelsInternal_def upd_cur_def upd_state_def curState_def)
qed

text \<open>C22: Changing the labels of an object to the labels it already has returns an unlabelled copy.
  For a labelled object whose class is not cloneable, \<open>changeObjectLabel\<close> with its own labels
  succeeds whatever the capabilities of the region are, and the result has the same field
  values but lies outside the labelled space, because \<open>cloneClass2\<close> allocates it at the anonymous
  allocation site. Every barrier outside the regions lets it through, although no minus
  capability for its labels was needed.\<close>

theorem change_label_declassifies:
  assumes "vm_ok v" "isLabeled sp obj" "\<not> cloneable obj"
    "secrecyLabels obj = Some s" "integrityLabels obj = Some i" "s \<in> set (objects v)" "i \<in> set (objects v)"
    "\<And>obj. \<not> isLabeled sp (obj\<lparr>addr := place False\<rparr>)" "\<And>obj. \<not> labeled_outside sp (obj\<lparr>addr := place False\<rparr>)"
  shows "\<exists>copy. changeObjectLabel place userClone c sp obj (Some s) (Some i) v = (Inr copy, v) \<and>
    field_values copy = field_values obj \<and> obj_sec sp copy = {} \<and> readBarrierOutsideSR sp copy = Inr ()"
proof -
  note o = vm_ok_objs [OF assms(1)]
  note m = state_in_fields [OF curState_in [OF assms(1)]]
  have u: "checkInUnion s s (plusCapabilitySet (curState v))" "checkInUnion s s (minusCapabilitySet (curState v))"
    "checkInUnion i i (plusCapabilitySet (curState v))" "checkInUnion i i (minusCapabilitySet (curState v))"
    using objs_union [OF o] assms(6,7) m by auto
  let ?copy = "\<lparr>addr = place False, secrecyLabels = None, integrityLabels = None,
    field_values = field_values obj, cloneable = False\<rparr>"
  let ?v1 = "setAllocationLabelsInternal (Some s) (Some i) v"
  have "cloneClass2 place c ?v1 obj = Inr ?copy"
    using assms(3) copy_fields_all [of "field_values obj" "replicate (length (field_values obj)) 0"]
    by (simp add: cloneClass2_def resolvedNewScalar_def allocateScalar_def allocLabeled_def getAllocationSite_def
        DEFAULT_SITE_def LABELED_def)
  then have "changeObjectLabel place userClone c sp obj (Some s) (Some i) v = (Inr ?copy, v)"
    using assms(2-5) u setAlloc_restore [OF assms(1)] by (simp add: changeObjectLabel_def or_EMPTY_def)
  moreover have "\<not> isLabeled sp ?copy" "\<not> labeled_outside sp ?copy"
    using assms(8,9) [of ?copy] by simp_all
  ultimately show ?thesis by (simp add: obj_sec_def readBarrierOutsideSR_def)
qed

theorem change_label_declassifies_witness:
  "obj_sec demo_space demo_obj = {5} \<and> lset (minusCapabilitySet (curState demo_inside)) = {} \<and>
   (\<exists>copy. changeObjectLabel demo_place (\<lambda>w _. (None, w)) demo_config demo_space demo_obj (Some demo_set) (Some EMPTY)
     demo_inside = (Inr copy, demo_inside) \<and> field_values copy = [42] \<and> obj_sec demo_space copy = {})"
proof -
  have p: "\<not> isLabeled demo_space (obj\<lparr>addr := demo_place False\<rparr>)" "\<not> labeled_outside demo_space (obj\<lparr>addr := demo_place False\<rparr>)" for obj
    by (simp_all add: isLabeled_def labeled_outside_def demo_space_def demo_place_def minimumObjectRef_def OBJECT_REF_OFFSET_def)
  have d: "\<not> cloneable demo_obj" "secrecyLabels demo_obj = Some demo_set" "integrityLabels demo_obj = Some EMPTY"
    "field_values demo_obj = [42]" by (simp_all add: demo_obj_def)
  have m: "demo_set \<in> set (objects demo_inside)" "EMPTY \<in> set (objects demo_inside)" by (simp_all add: demo_inside_def)
  have "obj_sec demo_space demo_obj = {5}"
    using demo_isLabeled by (simp add: obj_sec_def olset_def or_EMPTY_def demo_obj_def demo_set_eq elems_def)
  moreover have "lset (minusCapabilitySet (curState demo_inside)) = {}"
    by (simp add: demo_cur demo_region_def setState_def)
  ultimately show ?thesis
    using change_label_declassifies [where place = demo_place, OF demo_inside_ok demo_isLabeled d(1-3) m p] d(4) by metis
qed

end
