(* ===== verification/Barrier_Elim.thy ===== *)
theory Barrier_Elim
  imports Barriers
begin

text \<open>
  The elimination of redundant barriers in the optimising compiler,
  \<^verbatim>\<open>hir2lir/RemoveRedundantDIFCBarriers.java\<close>: a forward data-flow analysis computes for each
  basic block the registers whose object has been through a barrier at its end, and the
  barriers on registers that are already in the set are removed. A block has the positions of
  its predecessors in code order and its numbered instructions, of which the analysis looks at
  calls of barriers, moves between registers and definitions of registers. The clean-up phases
  run afterwards are not modelled.
\<close>

section \<open>The analysis\<close>

datatype operand = RegOp nat | ConstOp | OtherOp

datatype inst = Call "entrypoint option" operand "nat list" | Move nat operand | Other "nat list"

record basic_block =
  getIn :: "nat list"
  insts :: "(nat \<times> inst) list"

text \<open>Whether the target of a call is an allocation barrier, and whether it is a barrier of the
  kind that is looked for.\<close>

definition isAlloc :: "entrypoint option \<Rightarrow> bool" where
  "isAlloc target \<longleftrightarrow>
     target = Some (Entry ALLOC_BARRIER Dynamic False) \<or> target = Some (Entry ALLOC_BARRIER InsideSR False)"

definition isUse :: "bool \<Rightarrow> entrypoint option \<Rightarrow> bool" where
  "isUse reads target \<longleftrightarrow>
     (if reads then target \<in> {Some (Entry READ_BARRIER Dynamic False), Some (Entry READ_BARRIER InsideSR False),
        Some (Entry READ_BARRIER OutsideSR False)}
      else target \<in> {Some (Entry WRITE_BARRIER Dynamic False), Some (Entry WRITE_BARRIER InsideSR False),
        Some (Entry WRITE_BARRIER OutsideSR False)})"

text \<open>The use of a register by a barrier: whether the instruction is redundant and the new set.
  Any other operand fails an assertion.\<close>

definition use_step :: "bool \<Rightarrow> inst \<Rightarrow> nat set \<Rightarrow> (bool \<times> nat set) option" where
  "use_step reads i thisFullRedSet =
     (case i of
        Call target param defs \<Rightarrow>
          if isAlloc target \<or> isUse reads target then
            (case param of
               RegOp useReg \<Rightarrow>
                 Some (useReg \<in> thisFullRedSet \<and> isUse reads target, insert useReg thisFullRedSet)
             | ConstOp \<Rightarrow> Some (True, thisFullRedSet)
             | OtherOp \<Rightarrow> None)
          else Some (False, thisFullRedSet)
      | _ \<Rightarrow> Some (False, thisFullRedSet))"

definition def_step :: "inst \<Rightarrow> nat set \<Rightarrow> nat set" where
  "def_step i thisFullRedSet =
     (case i of
        Move defReg v \<Rightarrow>
          (case v of
             RegOp useReg \<Rightarrow> if useReg \<in> thisFullRedSet then insert defReg thisFullRedSet else thisFullRedSet
           | _ \<Rightarrow> thisFullRedSet)
      | Call _ _ defs \<Rightarrow> thisFullRedSet - set defs
      | Other defs \<Rightarrow> thisFullRedSet - set defs)"

fun block_pass :: "bool \<Rightarrow> (nat \<times> inst) list \<Rightarrow> nat set \<Rightarrow> nat set \<Rightarrow> (nat set \<times> nat set) option" where
  "block_pass reads [] S fullRedInsts = Some (S, fullRedInsts)"
| "block_pass reads ((n, i) # is) S fullRedInsts =
     (case use_step reads i S of
        None \<Rightarrow> None
      | Some (red, S1) \<Rightarrow>
          block_pass reads is (def_step i S1) (if red then insert n fullRedInsts else fullRedInsts))"

text \<open>The intersection of the sets of the predecessors; empty without predecessors.\<close>

fun merge_in :: "nat set list \<Rightarrow> nat list \<Rightarrow> nat set" where
  "merge_in scratch [] = {}"
| "merge_in scratch (p # ps) = fold (\<lambda>q S. S \<inter> scratch ! q) ps (scratch ! p)"

definition visit ::
  "bool \<Rightarrow> bool \<Rightarrow> basic_block list \<Rightarrow> nat \<Rightarrow> nat set list \<times> nat set \<times> bool \<Rightarrow> (nat set list \<times> nat set \<times> bool) option" where
  "visit va reads ir b state =
     (case state of (scratch, fullRedInsts, changed) \<Rightarrow>
        case block_pass reads (insts (ir ! b)) (merge_in scratch (getIn (ir ! b))) fullRedInsts of
          None \<Rightarrow> None
        | Some (S, fullRedInsts') \<Rightarrow>
            if scratch ! b \<noteq> S then
              if va \<and> \<not> scratch ! b \<subseteq> S then None
              else Some (scratch[b := S], fullRedInsts', True)
            else Some (scratch, fullRedInsts', changed))"

fun sweep ::
  "bool \<Rightarrow> bool \<Rightarrow> basic_block list \<Rightarrow> nat list \<Rightarrow> nat set list \<times> nat set \<times> bool \<Rightarrow> (nat set list \<times> nat set \<times> bool) option" where
  "sweep va reads ir [] state = Some state"
| "sweep va reads ir (b # bs) state = Option.bind (visit va reads ir b state) (sweep va reads ir bs)"

partial_function (option) iterate ::
  "bool \<Rightarrow> bool \<Rightarrow> basic_block list \<Rightarrow> nat set list \<Rightarrow> nat set \<Rightarrow> (nat set list \<times> nat set) option" where
  "iterate va reads ir scratch fullRedInsts =
     Option.bind (sweep va reads ir [0..<length ir] (scratch, fullRedInsts, False))
       (\<lambda>(scratch', fullRedInsts', changed).
          if changed then iterate va reads ir scratch' fullRedInsts' else Some (scratch', fullRedInsts'))"

definition computeRedundantBarriers :: "bool \<Rightarrow> basic_block list \<Rightarrow> bool \<Rightarrow> nat set option" where
  "computeRedundantBarriers va ir reads =
     map_option snd (iterate va reads ir (replicate (length ir) {}) {})"

definition elim_perform :: "bool \<Rightarrow> basic_block list \<Rightarrow> basic_block list option" where
  "elim_perform va ir =
     (case (computeRedundantBarriers va ir True, computeRedundantBarriers va ir False) of
        (Some fullRedReads, Some fullRedWrites) \<Rightarrow>
          Some (map (\<lambda>b. b\<lparr>insts := filter (\<lambda>(n, i). n \<notin> fullRedReads \<union> fullRedWrites) (insts b)\<rparr>) ir)
      | _ \<Rightarrow> None)"

section \<open>Monotonicity\<close>

lemma use_step_mono:
  "use_step reads i S = Some (r, S1) \<Longrightarrow> S \<subseteq> T \<Longrightarrow> \<exists>r' T1. use_step reads i T = Some (r', T1) \<and> S1 \<subseteq> T1 \<and> (r \<longrightarrow> r')"
  by (cases i) (auto simp: use_step_def split: if_splits operand.splits)

lemma def_step_mono: "S \<subseteq> T \<Longrightarrow> def_step i S \<subseteq> def_step i T"
  by (cases i) (auto simp: def_step_def split: operand.split)

text \<open>The barriers flagged in a block and its set at the end, apart from the accumulator.\<close>

definition flagged :: "bool \<Rightarrow> (nat \<times> inst) list \<Rightarrow> nat set \<Rightarrow> nat set" where
  "flagged reads is S = (case block_pass reads is S {} of None \<Rightarrow> {} | Some (_, F) \<Rightarrow> F)"

definition out_set :: "bool \<Rightarrow> (nat \<times> inst) list \<Rightarrow> nat set \<Rightarrow> nat set" where
  "out_set reads is S = (case block_pass reads is S {} of None \<Rightarrow> {} | Some (T, _) \<Rightarrow> T)"

definition no_weird :: "bool \<Rightarrow> (nat \<times> inst) list \<Rightarrow> bool" where
  "no_weird reads is \<longleftrightarrow> (\<forall>S. block_pass reads is S {} \<noteq> None)"

lemma block_pass_acc:
  "block_pass reads is S A = map_option (\<lambda>(T, F). (T, F \<union> A)) (block_pass reads is S {})"
proof (induction "is" arbitrary: S A)
  case (Cons x xs)
  obtain n i where x: "x = (n, i)" by fastforce
  show ?case
  proof (cases "use_step reads i S")
    case None
    then show ?thesis by (simp add: x)
  next
    case (Some p)
    obtain r S1 where p: "p = (r, S1)" by fastforce
    show ?thesis
      using Cons.IH [of "def_step i S1" "if r then insert n A else A"] Cons.IH [of "def_step i S1" "if r then {n} else {}"]
      by (cases "block_pass reads xs (def_step i S1) {}") (auto simp: x Some p)
  qed
qed simp

lemma block_pass_parts:
  "no_weird reads is \<Longrightarrow> block_pass reads is S A = Some (out_set reads is S, flagged reads is S \<union> A)"
  by (subst block_pass_acc) (auto simp: no_weird_def out_set_def flagged_def split: option.splits)

lemma block_pass_mono:
  assumes "block_pass reads is S A = Some (S', F)" "S \<subseteq> T" "A \<subseteq> B"
  shows "\<exists>T' G. block_pass reads is T B = Some (T', G) \<and> S' \<subseteq> T' \<and> F \<subseteq> G"
  using assms
proof (induction "is" arbitrary: S A T B)
  case (Cons x xs)
  obtain n i where x: "x = (n, i)" by fastforce
  obtain r S1 where u: "use_step reads i S = Some (r, S1)"
    "block_pass reads xs (def_step i S1) (if r then insert n A else A) = Some (S', F)"
    using Cons.prems(1) by (auto simp: x split: option.splits)
  obtain r' T1 where t: "use_step reads i T = Some (r', T1)" "S1 \<subseteq> T1" "r \<longrightarrow> r'"
    using use_step_mono [OF u(1) Cons.prems(2)] by blast
  have "(if r then insert n A else A) \<subseteq> (if r' then insert n B else B)" using t(3) Cons.prems(3) by auto
  then show ?case using Cons.IH [OF u(2) def_step_mono [OF t(2)]] t(1) by (simp add: x)
qed simp

lemma out_set_mono: "S \<subseteq> T \<Longrightarrow> out_set reads is S \<subseteq> out_set reads is T"
  and flagged_mono: "S \<subseteq> T \<Longrightarrow> flagged reads is S \<subseteq> flagged reads is T"
proof -
  assume s: "S \<subseteq> T"
  have "out_set reads is S \<subseteq> out_set reads is T \<and> flagged reads is S \<subseteq> flagged reads is T"
  proof (cases "block_pass reads is S {}")
    case (Some p)
    then obtain S' F where "block_pass reads is S {} = Some (S', F)" by (cases p) auto
    then show ?thesis using block_pass_mono [OF _ s order_refl] by (fastforce simp: out_set_def flagged_def)
  qed (simp add: out_set_def flagged_def)
  then show "out_set reads is S \<subseteq> out_set reads is T" "flagged reads is S \<subseteq> flagged reads is T" by auto
qed

lemma merge_in_eq:
  "merge_in scratch ps = (if ps = [] then {} else (\<Inter>p \<in> set ps. scratch ! p))"
proof (cases ps)
  case (Cons p qs)
  have "fold (\<lambda>q S. S \<inter> scratch ! q) qs A = A \<inter> (\<Inter>q \<in> set qs. scratch ! q)" for A
    by (induction qs arbitrary: A) auto
  then show ?thesis by (simp add: Cons)
qed simp

lemma merge_in_mono:
  "(\<And>p. p \<in> set ps \<Longrightarrow> scratch ! p \<subseteq> scratch' ! p) \<Longrightarrow> merge_in scratch ps \<subseteq> merge_in scratch' ps"
  by (fastforce simp: merge_in_eq split: if_splits)

section \<open>Termination\<close>

text \<open>The equation of a block, and the invariant of the iteration: the sets only contain registers
  of the program and lie below what their equations give, and every barrier found so far is
  flagged by the equations.\<close>

definition equation :: "bool \<Rightarrow> basic_block list \<Rightarrow> nat set list \<Rightarrow> nat \<Rightarrow> nat set" where
  "equation reads ir scratch b = out_set reads (insts (ir ! b)) (merge_in scratch (getIn (ir ! b)))"

fun inst_regs :: "inst \<Rightarrow> nat set" where
  "inst_regs (Call target param defs) = (case param of RegOp r \<Rightarrow> {r} | _ \<Rightarrow> {})"
| "inst_regs (Move d v) = {d}"
| "inst_regs (Other defs) = {}"

definition regs :: "basic_block list \<Rightarrow> nat set" where
  "regs ir = (\<Union>b \<in> set ir. \<Union>(n, i) \<in> set (insts b). inst_regs i)"

definition ir_ok :: "bool \<Rightarrow> basic_block list \<Rightarrow> bool" where
  "ir_ok reads ir \<longleftrightarrow> (\<forall>b < length ir. no_weird reads (insts (ir ! b)) \<and> (\<forall>p \<in> set (getIn (ir ! b)). p < length ir))"

definition below :: "bool \<Rightarrow> basic_block list \<Rightarrow> nat set list \<Rightarrow> nat set \<Rightarrow> bool" where
  "below reads ir scratch red \<longleftrightarrow> length scratch = length ir \<and>
     (\<forall>b < length ir. scratch ! b \<subseteq> regs ir \<and> scratch ! b \<subseteq> equation reads ir scratch b) \<and>
     red \<subseteq> (\<Union>b < length ir. flagged reads (insts (ir ! b)) (merge_in scratch (getIn (ir ! b))))"

lemma finite_regs: "finite (regs ir)"
proof -
  have "finite (inst_regs i)" for i by (cases i) (auto split: operand.split)
  then show ?thesis by (auto simp: regs_def)
qed

lemma use_step_regs: "use_step reads i S = Some (r, S1) \<Longrightarrow> S1 \<subseteq> S \<union> inst_regs i"
  by (cases i) (auto simp: use_step_def split: if_splits operand.splits)

lemma def_step_regs: "def_step i S \<subseteq> S \<union> inst_regs i"
  by (cases i) (auto simp: def_step_def split: operand.split)

lemma block_pass_regs:
  "block_pass reads is S A = Some (T, F) \<Longrightarrow> T \<subseteq> S \<union> (\<Union>(n, i) \<in> set is. inst_regs i)"
proof (induction "is" arbitrary: S A)
  case (Cons x xs)
  obtain n i where x: "x = (n, i)" by fastforce
  obtain r S1 where u: "use_step reads i S = Some (r, S1)"
    "block_pass reads xs (def_step i S1) (if r then insert n A else A) = Some (T, F)"
    using Cons.prems by (auto simp: x split: option.splits)
  show ?case using Cons.IH [OF u(2)] use_step_regs [OF u(1)] def_step_regs [of i S1] by (auto simp: x)
qed simp

lemma out_set_regs:
  assumes "b < length ir" "S \<subseteq> regs ir"
  shows "out_set reads (insts (ir ! b)) S \<subseteq> regs ir"
proof -
  have "(\<Union>(n, i) \<in> set (insts (ir ! b)). inst_regs i) \<subseteq> regs ir" using assms(1) by (force simp: regs_def)
  then have "T \<subseteq> regs ir" if "block_pass reads (insts (ir ! b)) S {} = Some (T, F)" for T F
    using block_pass_regs [OF that] assms(2) by blast
  then show ?thesis by (auto simp: out_set_def split: option.split)
qed

lemma below_grow:
  assumes "below reads ir scratch red" "b < length ir" "ir_ok reads ir"
  shows "below reads ir (scratch[b := equation reads ir scratch b])
    (red \<union> flagged reads (insts (ir ! b)) (merge_in scratch (getIn (ir ! b))))"
proof -
  let ?sc = "scratch[b := equation reads ir scratch b]"
  have l: "length scratch = length ir" using assms(1) by (simp add: below_def)
  have up: "scratch ! p \<subseteq> ?sc ! p" for p
    using assms(1,2) l by (cases "p = b") (auto simp: below_def)
  have m: "merge_in scratch (getIn (ir ! c)) \<subseteq> merge_in ?sc (getIn (ir ! c))" for c
    using up by (rule merge_in_mono)
  have e: "equation reads ir scratch c \<subseteq> equation reads ir ?sc c" for c
    unfolding equation_def [of reads ir _ c] by (rule out_set_mono [OF m])
  have "merge_in scratch (getIn (ir ! b)) \<subseteq> regs ir"
  proof (cases "getIn (ir ! b)")
    case (Cons p ps)
    then have "p < length ir" using assms(2,3) by (simp add: ir_ok_def)
    then have "scratch ! p \<subseteq> regs ir" using assms(1) unfolding below_def by blast
    moreover have "merge_in scratch (getIn (ir ! b)) \<subseteq> scratch ! p"
      unfolding merge_in_eq using Cons by auto
    ultimately show ?thesis by blast
  qed simp
  then have "equation reads ir scratch b \<subseteq> regs ir" unfolding equation_def by (rule out_set_regs [OF assms(2)])
  then have f1: "?sc ! c \<subseteq> regs ir \<and> ?sc ! c \<subseteq> equation reads ir ?sc c" if "c < length ir" for c
  proof (cases "c = b")
    case True
    have "?sc ! c = equation reads ir scratch b" using True assms(2) l by simp
    then show ?thesis using \<open>equation reads ir scratch b \<subseteq> regs ir\<close> e [of b] True by metis
  next
    case False
    have "scratch ! c \<subseteq> regs ir" "scratch ! c \<subseteq> equation reads ir scratch c"
      using that assms(1) unfolding below_def by blast+
    moreover have "?sc ! c = scratch ! c" using False by simp
    ultimately show ?thesis using e [of c] by (metis subset_trans)
  qed
  have f2: "red \<union> flagged reads (insts (ir ! b)) (merge_in scratch (getIn (ir ! b))) \<subseteq>
      (\<Union>b < length ir. flagged reads (insts (ir ! b)) (merge_in ?sc (getIn (ir ! b))))"
  proof -
    have "(\<Union>b < length ir. flagged reads (insts (ir ! b)) (merge_in scratch (getIn (ir ! b)))) \<subseteq>
        (\<Union>b < length ir. flagged reads (insts (ir ! b)) (merge_in ?sc (getIn (ir ! b))))"
      by (intro UN_mono flagged_mono m) simp
    moreover have "flagged reads (insts (ir ! b)) (merge_in scratch (getIn (ir ! b))) \<subseteq>
        (\<Union>b < length ir. flagged reads (insts (ir ! b)) (merge_in scratch (getIn (ir ! b))))"
      using assms(2) by blast
    moreover have "red \<subseteq> (\<Union>b < length ir. flagged reads (insts (ir ! b)) (merge_in scratch (getIn (ir ! b))))"
      using assms(1) unfolding below_def by (elim conjE)
    ultimately show ?thesis by (meson Un_least subset_trans)
  qed
  have "length ?sc = length ir" using l by simp
  then show ?thesis unfolding below_def using f1 f2 by blast
qed

lemma visit_below:
  assumes "below reads ir scratch red" "b < length ir" "ir_ok reads ir"
  shows "visit va reads ir b (scratch, red, ch) = Some (scratch[b := equation reads ir scratch b],
    flagged reads (insts (ir ! b)) (merge_in scratch (getIn (ir ! b))) \<union> red, ch \<or> scratch ! b \<noteq> equation reads ir scratch b)"
proof -
  have "no_weird reads (insts (ir ! b))" using assms(2,3) by (simp add: ir_ok_def)
  note p = block_pass_parts [OF this, of "merge_in scratch (getIn (ir ! b))" red]
  have "scratch ! b \<subseteq> equation reads ir scratch b" using assms(1,2) by (simp add: below_def)
  moreover have "scratch ! b = equation reads ir scratch b \<Longrightarrow> scratch[b := equation reads ir scratch b] = scratch"
    by (metis list_update_id)
  ultimately show ?thesis using p unfolding equation_def [symmetric] by (simp add: visit_def)
qed

text \<open>The registers not yet in the sets; each change takes one away.\<close>

definition room :: "basic_block list \<Rightarrow> nat set list \<Rightarrow> nat" where
  "room ir scratch = (\<Sum>b < length ir. card (regs ir - scratch ! b))"

lemma room_grow:
  assumes "below reads ir scratch red" "b < length ir" "ir_ok reads ir"
  shows "room ir (scratch[b := equation reads ir scratch b]) \<le> room ir scratch"
    "scratch ! b \<noteq> equation reads ir scratch b \<Longrightarrow> room ir (scratch[b := equation reads ir scratch b]) < room ir scratch"
proof -
  let ?sc = "scratch[b := equation reads ir scratch b]"
  note g = below_grow [OF assms]
  have l: "length scratch = length ir" using assms(1) by (simp add: below_def)
  have s: "scratch ! b \<subseteq> ?sc ! b" "?sc ! b \<subseteq> regs ir" "?sc ! b = equation reads ir scratch b"
  proof -
    have "\<forall>c < length ir. ?sc ! c \<subseteq> regs ir" using g unfolding below_def by blast
    then show "?sc ! b \<subseteq> regs ir" using assms(2) by blast
    show e: "?sc ! b = equation reads ir scratch b" using assms(2) l by simp
    show "scratch ! b \<subseteq> ?sc ! b" unfolding e using assms(1,2) unfolding below_def by blast
  qed
  have le: "card (regs ir - ?sc ! c) \<le> card (regs ir - scratch ! c)" for c
    using s(1) finite_regs by (cases "c = b") (auto intro!: card_mono)
  then show "room ir ?sc \<le> room ir scratch" unfolding room_def by (intro sum_mono) simp
  assume "scratch ! b \<noteq> equation reads ir scratch b"
  then have "regs ir - ?sc ! b \<subset> regs ir - scratch ! b" using s by blast
  then have "card (regs ir - ?sc ! b) < card (regs ir - scratch ! b)" using finite_regs by (intro psubset_card_mono) auto
  then show "room ir ?sc < room ir scratch"
    unfolding room_def using le assms(2) by (intro sum_strict_mono_ex1) auto
qed

lemma visit_ch: "visit va reads ir b (sc, red, ch) = Some (sc', red', ch') \<Longrightarrow> ch \<Longrightarrow> ch'"
  by (auto simp: visit_def split: option.splits if_splits)

lemma sweep_ch: "sweep va reads ir bs (sc, red, ch) = Some (sc', red', ch') \<Longrightarrow> ch \<Longrightarrow> ch'"
proof (induction bs arbitrary: sc red ch)
  case (Cons b bs)
  obtain st where v: "visit va reads ir b (sc, red, ch) = Some st" "sweep va reads ir bs st = Some (sc', red', ch')"
    using Cons.prems(1) by (auto simp: bind_eq_Some_conv)
  then show ?case using Cons.IH Cons.prems(2) visit_ch by (cases st) blast
qed simp

lemma sweep_below:
  assumes "below reads ir scratch red" "\<forall>b \<in> set bs. b < length ir" "ir_ok reads ir"
  shows "\<exists>scratch' red' ch'. sweep va reads ir bs (scratch, red, ch) = Some (scratch', red', ch') \<and>
    below reads ir scratch' red' \<and> room ir scratch' \<le> room ir scratch \<and>
    (ch' \<longrightarrow> ch \<or> room ir scratch' < room ir scratch) \<and>
    (\<not> ch' \<longrightarrow> scratch' = scratch \<and> (\<forall>b \<in> set bs. scratch ! b = equation reads ir scratch b))"
  using assms(1,2)
proof (induction bs arbitrary: scratch red ch)
  case (Cons b bs)
  let ?sc = "scratch[b := equation reads ir scratch b]"
  let ?red = "flagged reads (insts (ir ! b)) (merge_in scratch (getIn (ir ! b))) \<union> red"
  let ?ch = "ch \<or> scratch ! b \<noteq> equation reads ir scratch b"
  have b: "b < length ir" using Cons.prems(2) by simp
  note v = visit_below [OF Cons.prems(1) b assms(3), of va ch]
  have g: "below reads ir ?sc ?red" using below_grow [OF Cons.prems(1) b assms(3)] by (simp add: Un_commute)
  note r = room_grow [OF Cons.prems(1) b assms(3)]
  have same: "scratch ! b = equation reads ir scratch b \<Longrightarrow> ?sc = scratch" by (metis list_update_id)
  obtain sc' red' ch' where s: "sweep va reads ir bs (?sc, ?red, ?ch) = Some (sc', red', ch')"
    "below reads ir sc' red'" "room ir sc' \<le> room ir ?sc" "ch' \<longrightarrow> ?ch \<or> room ir sc' < room ir ?sc"
    "\<not> ch' \<longrightarrow> sc' = ?sc \<and> (\<forall>b \<in> set bs. ?sc ! b = equation reads ir ?sc b)"
    using Cons.IH [OF g, of ?ch] Cons.prems(2) by auto
  have "ch' \<longrightarrow> ch \<or> room ir sc' < room ir scratch" using s(3,4) r by fastforce
  moreover have "sc' = scratch \<and> (\<forall>c \<in> set (b # bs). scratch ! c = equation reads ir scratch c)" if n: "\<not> ch'"
  proof -
    have e: "scratch ! b = equation reads ir scratch b" using sweep_ch [OF s(1)] n by blast
    have "sc' = ?sc" "\<forall>b \<in> set bs. ?sc ! b = equation reads ir ?sc b" using s(5) n by blast+
    then have "sc' = scratch" "\<forall>b \<in> set bs. scratch ! b = equation reads ir scratch b"
      unfolding same [OF e] by blast+
    then show ?thesis using e by (metis set_ConsD)
  qed
  moreover have "room ir sc' \<le> room ir scratch" using s(3) r(1) by simp
  moreover have "sweep va reads ir (b # bs) (scratch, red, ch) = Some (sc', red', ch')" using v s(1) by simp
  ultimately show ?case using s(2) by blast
qed simp

lemma iterate_below:
  assumes "below reads ir scratch red" "ir_ok reads ir"
  shows "\<exists>scratch' red'. iterate va reads ir scratch red = Some (scratch', red') \<and> below reads ir scratch' red' \<and>
    (\<forall>b < length ir. scratch' ! b = equation reads ir scratch' b)"
  using assms(1)
proof (induction "room ir scratch" arbitrary: scratch red rule: less_induct)
  case less
  have blocks: "\<forall>b \<in> set [0..<length ir]. b < length ir" by simp
  obtain sc' red' ch' where s: "sweep va reads ir [0..<length ir] (scratch, red, False) = Some (sc', red', ch')"
    "below reads ir sc' red'" "ch' \<longrightarrow> False \<or> room ir sc' < room ir scratch"
    "\<not> ch' \<longrightarrow> sc' = scratch \<and> (\<forall>b \<in> set [0..<length ir]. scratch ! b = equation reads ir scratch b)"
    using sweep_below [OF less.prems blocks assms(2), of va False] by (elim exE conjE)
  show ?case
  proof (cases ch')
    case True
    then have "iterate va reads ir scratch red = iterate va reads ir sc' red'" using s(1) by (subst iterate.simps) simp
    then show ?thesis using less.hyps [OF _ s(2)] s(3) True by simp
  next
    case False
    then have "iterate va reads ir scratch red = Some (sc', red')" using s(1) by (subst iterate.simps) simp
    moreover have "\<forall>b < length ir. sc' ! b = equation reads ir sc' b" using s(4) False by simp
    ultimately show ?thesis using s(2) by blast
  qed
qed

lemma iterate_fixpoint:
  assumes "ir_ok reads ir"
  shows "\<exists>scratch' red'. iterate va reads ir (replicate (length ir) {}) {} = Some (scratch', red') \<and>
    below reads ir scratch' red' \<and> (\<forall>b < length ir. scratch' ! b = equation reads ir scratch' b)"
proof (rule iterate_below [OF _ assms])
  show "below reads ir (replicate (length ir) {}) {}" by (simp add: below_def)
qed

text \<open>C14: The analysis terminates and its assertion never fails. For a program whose barriers are
  called on registers or constants and whose predecessors are blocks of the program, the
  iteration of \<open>computeRedundantBarriers\<close> ends, with or without run-time assertions, and
  the sets it ends with solve the data-flow equations of all blocks.\<close>

theorem elimination_terminates:
  assumes "ir_ok reads ir"
  shows "\<exists>scratch red. iterate va reads ir (replicate (length ir) {}) {} = Some (scratch, red) \<and>
    computeRedundantBarriers va ir reads = Some red \<and>
    (\<forall>b. b < length ir \<longrightarrow> scratch ! b = equation reads ir scratch b)"
proof -
  obtain scratch red where "iterate va reads ir (replicate (length ir) {}) {} = Some (scratch, red)"
    "\<forall>b < length ir. scratch ! b = equation reads ir scratch b"
    using iterate_fixpoint [OF assms, of va] by blast
  then show ?thesis by (intro exI [of _ scratch] exI [of _ red]) (simp add: computeRedundantBarriers_def)
qed

section \<open>What an execution has checked\<close>

text \<open>Registers hold objects; the second component collects the objects that have been through a
  barrier of the kind looked for, or an allocation barrier. A definition other than a move
  leaves an arbitrary object in the register.\<close>

definition checked_reg :: "bool \<Rightarrow> inst \<Rightarrow> nat option" where
  "checked_reg reads i =
     (case i of
        Call target (RegOp r) defs \<Rightarrow> if isAlloc target \<or> isUse reads target then Some r else None
      | _ \<Rightarrow> None)"

fun inst_defs :: "inst \<Rightarrow> nat set" where
  "inst_defs (Call target param defs) = set defs"
| "inst_defs (Move d v) = {d}"
| "inst_defs (Other defs) = set defs"

definition exec_inst :: "bool \<Rightarrow> inst \<Rightarrow> (nat \<Rightarrow> nat) \<times> nat set \<Rightarrow> (nat \<Rightarrow> nat) \<times> nat set \<Rightarrow> bool" where
  "exec_inst reads i s s' \<longleftrightarrow>
     snd s' = snd s \<union> (case checked_reg reads i of Some r \<Rightarrow> {fst s r} | None \<Rightarrow> {}) \<and>
     (\<forall>r. r \<notin> inst_defs i \<longrightarrow> fst s' r = fst s r) \<and>
     (case i of Move d (RegOp r) \<Rightarrow> fst s' d = fst s r | _ \<Rightarrow> True)"

inductive exec :: "bool \<Rightarrow> (nat \<times> inst) list \<Rightarrow> (nat \<Rightarrow> nat) \<times> nat set \<Rightarrow> (nat \<Rightarrow> nat) \<times> nat set \<Rightarrow> bool" for reads where
  exec_nil: "exec reads [] s s"
| exec_cons: "exec_inst reads i s t \<Longrightarrow> exec reads is t u \<Longrightarrow> exec reads ((n, i) # is) s u"

inductive_cases exec_ConsE: "exec reads ((n, i) # is) s u"
inductive_cases exec_NilE: "exec reads [] s u"

text \<open>Calls, and other instructions, may throw; moves do not.\<close>

fun isPEI :: "inst \<Rightarrow> bool" where
  "isPEI (Call target param defs) = True"
| "isPEI (Move d v) = False"
| "isPEI (Other defs) = True"

text \<open>The states at the beginning of a block, on every path from the first block. The control-flow
  graph is factored (\<^verbatim>\<open>ir/BasicBlock.java\<close>): an instruction that may throw does not end its block,
  and the predecessors of a handler are the blocks it covers. So a block is left at its end, or
  from any instruction that throws to a handler; a barrier that throws has not let its object
  through. \<open>handler c\<close> says that block \<open>c\<close> is an exception handler.\<close>

inductive reaches ::
  "bool \<Rightarrow> (nat \<Rightarrow> bool) \<Rightarrow> basic_block list \<Rightarrow> nat \<Rightarrow> (nat \<Rightarrow> nat) \<times> nat set \<Rightarrow> bool" for reads handler ir where
  reach_entry: "reaches reads handler ir 0 (env, {})"
| reach_edge: "reaches reads handler ir b s \<Longrightarrow> exec reads (insts (ir ! b)) s t \<Longrightarrow> c < length ir \<Longrightarrow>
    b \<in> set (getIn (ir ! c)) \<Longrightarrow> b < length ir \<Longrightarrow> reaches reads handler ir c t"
| reach_throw: "reaches reads handler ir b s \<Longrightarrow> insts (ir ! b) = pre @ (n, i) # post \<Longrightarrow> isPEI i \<Longrightarrow>
    exec reads pre s t \<Longrightarrow> handler c \<Longrightarrow> c < length ir \<Longrightarrow> b \<in> set (getIn (ir ! c)) \<Longrightarrow> b < length ir \<Longrightarrow>
    reaches reads handler ir c t"

text \<open>A move is clean if it does not overwrite a register in the set with one that is not.\<close>

fun clean :: "bool \<Rightarrow> (nat \<times> inst) list \<Rightarrow> nat set \<Rightarrow> bool" where
  "clean reads [] S = True"
| "clean reads ((n, i) # is) S =
     (case use_step reads i S of
        None \<Rightarrow> False
      | Some (red, S1) \<Rightarrow>
          (case i of
             Move d v \<Rightarrow> d \<notin> S1 \<or> (case v of RegOp r \<Rightarrow> r \<in> S1 | _ \<Rightarrow> False)
           | _ \<Rightarrow> True) \<and> clean reads is (def_step i S1))"

text \<open>Nothing that the analysis assumes at the entry of a handler was added in a covered block after
  an instruction that may throw.\<close>

definition handlers_ok :: "bool \<Rightarrow> (nat \<Rightarrow> bool) \<Rightarrow> basic_block list \<Rightarrow> nat set list \<Rightarrow> bool" where
  "handlers_ok reads handler ir scratch \<longleftrightarrow>
     (\<forall>c < length ir. handler c \<longrightarrow> (\<forall>b \<in> set (getIn (ir ! c)). \<forall>pre n i post.
        insts (ir ! b) = pre @ (n, i) # post \<longrightarrow> isPEI i \<longrightarrow>
        merge_in scratch (getIn (ir ! c)) \<subseteq> out_set reads pre (merge_in scratch (getIn (ir ! b)))))"

definition holds :: "nat set \<Rightarrow> (nat \<Rightarrow> nat) \<times> nat set \<Rightarrow> bool" where
  "holds S s \<longleftrightarrow> (\<forall>r \<in> S. fst s r \<in> snd s)"

lemma inst_holds:
  assumes "holds S s" "use_step reads i S = Some (red, S1)" "exec_inst reads i s t"
    "case i of Move d v \<Rightarrow> d \<notin> S1 \<or> (case v of RegOp r \<Rightarrow> r \<in> S1 | _ \<Rightarrow> False) | _ \<Rightarrow> True"
  shows "holds (def_step i S1) t"
proof (cases i)
  case (Call target param defs)
  then show ?thesis
    using assms by (auto simp: holds_def use_step_def def_step_def exec_inst_def checked_reg_def split: if_splits operand.splits)
next
  case (Move d v)
  then have S: "S1 = S" "\<And>r. r \<noteq> d \<Longrightarrow> fst t r = fst s r" "snd t = snd s"
    using assms(2,3) by (auto simp: use_step_def exec_inst_def checked_reg_def)
  show ?thesis
  proof (cases "\<exists>r. v = RegOp r \<and> r \<in> S")
    case True
    then obtain r where r: "v = RegOp r" "r \<in> S" by blast
    then have "fst t d = fst s r" using assms(3) Move by (simp add: exec_inst_def)
    then show ?thesis using assms(1) Move r S unfolding holds_def by (simp add: def_step_def) metis
  next
    case False
    then have "d \<notin> S" "def_step i S1 = S" using assms(4) Move S(1) by (auto simp: def_step_def split: operand.splits)
    then show ?thesis using assms(1) S(2,3) unfolding holds_def by metis
  qed
next
  case (Other defs)
  then show ?thesis
    using assms by (auto simp: holds_def use_step_def def_step_def exec_inst_def checked_reg_def)
qed

lemma block_holds:
  assumes "exec reads is s t" "holds S s" "clean reads is S"
  shows "holds (out_set reads is S) t"
  using assms
proof (induction arbitrary: S rule: exec.induct)
  case (exec_nil s)
  then show ?case by (simp add: out_set_def)
next
  case (exec_cons i s t "is" u n)
  obtain red S1 where u: "use_step reads i S = Some (red, S1)" "clean reads is (def_step i S1)"
    "case i of Move d v \<Rightarrow> d \<notin> S1 \<or> (case v of RegOp r \<Rightarrow> r \<in> S1 | _ \<Rightarrow> False) | _ \<Rightarrow> True"
    using exec_cons.prems(2) by (auto split: option.splits)
  have "holds (out_set reads is (def_step i S1)) u"
    using exec_cons.IH inst_holds [OF exec_cons.prems(1) u(1) exec_cons.hyps(1) u(3)] u(2) by blast
  moreover have "out_set reads ((n, i) # is) S = out_set reads is (def_step i S1)"
    using block_pass_acc [of reads "is" "def_step i S1" "if red then {n} else {}"]
    by (auto simp: out_set_def u(1) split: option.split)
  ultimately show ?case by simp
qed

lemma flagged_Cons:
  assumes "use_step reads i S = Some (red, S1)"
  shows "flagged reads ((n, i) # is) S \<subseteq> (if red then {n} else {}) \<union> flagged reads is (def_step i S1)"
  using block_pass_acc [of reads "is" "def_step i S1" "if red then {n} else {}"] assms
  by (auto simp: flagged_def split: option.splits)

lemma flagged_ids: "flagged reads is S \<subseteq> fst ` set is"
proof (induction "is" arbitrary: S)
  case Nil
  then show ?case by (simp add: flagged_def)
next
  case (Cons x xs)
  obtain n i where x: "x = (n, i)" by fastforce
  show ?case
  proof (cases "use_step reads i S")
    case None
    then show ?thesis by (simp add: x flagged_def)
  next
    case (Some p)
    obtain red S1 where "p = (red, S1)" by fastforce
    then show ?thesis
      using flagged_Cons [of reads i S red S1 n xs] Cons.IH [of "def_step i S1"] Some
      by (fastforce simp: x split: if_splits)
  qed
qed

lemma flagged_checked:
  assumes "exec reads pre s t" "holds S s" "clean reads (pre @ (n, Call target (RegOp r) defs) # post) S"
    "n \<in> flagged reads (pre @ (n, Call target (RegOp r) defs) # post) S" "n \<notin> fst ` set pre" "n \<notin> fst ` set post"
  shows "fst t r \<in> snd t"
  using assms
proof (induction arbitrary: S rule: exec.induct)
  case (exec_nil s)
  obtain red S1 where u: "use_step reads (Call target (RegOp r) defs) S = Some (red, S1)"
    using exec_nil.prems(2) by (auto split: option.splits)
  have "n \<notin> flagged reads post (def_step (Call target (RegOp r) defs) S1)"
    using flagged_ids exec_nil.prems(5) by blast
  then have "red" using flagged_Cons [OF u, of n post] exec_nil.prems(3) by (auto split: if_splits)
  then show ?case using u exec_nil.prems(1) by (auto simp: use_step_def holds_def split: if_splits)
next
  case (exec_cons i s t "is" u m)
  let ?rest = "is @ (n, Call target (RegOp r) defs) # post"
  obtain red S1 where u: "use_step reads i S = Some (red, S1)" "clean reads ?rest (def_step i S1)"
    "case i of Move d v \<Rightarrow> d \<notin> S1 \<or> (case v of RegOp r \<Rightarrow> r \<in> S1 | _ \<Rightarrow> False) | _ \<Rightarrow> True"
    using exec_cons.prems(2) by (auto split: option.splits)
  have h: "holds (def_step i S1) t" by (rule inst_holds [OF exec_cons.prems(1) u(1) exec_cons.hyps(1) u(3)])
  have "n \<in> flagged reads ?rest (def_step i S1)"
    using flagged_Cons [OF u(1), of m ?rest] exec_cons.prems(3,4) by (auto split: if_splits)
  then show ?case using exec_cons.IH [OF h u(2)] exec_cons.prems(4,5) by simp
qed

lemma clean_prefix: "clean reads (pre @ post) S \<Longrightarrow> clean reads pre S"
  by (induction reads pre S rule: clean.induct) (auto split: option.splits inst.splits operand.splits)

lemma reaches_holds:
  assumes "reaches reads handler ir b s" "ir_ok reads ir" "\<forall>b < length ir. scratch ! b = equation reads ir scratch b"
    "\<forall>b < length ir. clean reads (insts (ir ! b)) (merge_in scratch (getIn (ir ! b)))" "getIn (ir ! 0) = []"
    "handlers_ok reads handler ir scratch"
  shows "holds (merge_in scratch (getIn (ir ! b))) s"
  using assms(1)
proof (induction rule: reaches.induct)
  case (reach_entry env)
  then show ?case by (simp add: assms(5) holds_def)
next
  case (reach_edge b s t c)
  have "holds (out_set reads (insts (ir ! b)) (merge_in scratch (getIn (ir ! b)))) t"
    using block_holds [OF reach_edge.hyps(2) reach_edge.IH] assms(4) reach_edge.hyps(5) by blast
  then have "holds (scratch ! b) t" using assms(3) reach_edge.hyps(5) by (simp add: equation_def)
  moreover have "merge_in scratch (getIn (ir ! c)) \<subseteq> scratch ! b"
    using reach_edge.hyps(4) by (auto simp: merge_in_eq split: if_splits)
  ultimately show ?case unfolding holds_def by blast
next
  case (reach_throw b s pre n i post t c)
  have "clean reads pre (merge_in scratch (getIn (ir ! b)))"
    using assms(4) reach_throw.hyps(2,8) clean_prefix by metis
  then have "holds (out_set reads pre (merge_in scratch (getIn (ir ! b)))) t"
    by (rule block_holds [OF reach_throw.hyps(4) reach_throw.IH])
  moreover have "merge_in scratch (getIn (ir ! c)) \<subseteq> out_set reads pre (merge_in scratch (getIn (ir ! b)))"
    using assms(6) reach_throw.hyps(2,3,5-7) unfolding handlers_ok_def by blast
  ultimately show ?case unfolding holds_def by blast
qed

definition ids :: "basic_block list \<Rightarrow> nat list" where
  "ids ir = concat (map (\<lambda>b. map fst (insts b)) ir)"

lemma concat_disjoint:
  "distinct (concat xss) \<Longrightarrow> i < j \<Longrightarrow> j < length xss \<Longrightarrow> set (xss ! i) \<inter> set (xss ! j) = {}"
proof (induction xss arbitrary: i j)
  case (Cons xs xss)
  obtain k where k: "j = Suc k" using Cons.prems(2) by (cases j) auto
  show ?case
  proof (cases i)
    case 0
    have "set (xss ! k) \<subseteq> set (concat xss)" using Cons.prems(3) k by (auto intro: nth_mem)
    then show ?thesis using Cons.prems(1) 0 k by auto
  next
    case (Suc l)
    then show ?thesis using Cons.IH [of l k] Cons.prems k by simp
  qed
qed simp

lemma ids_unique:
  assumes "distinct (ids ir)" "b < length ir" "c < length ir" "n \<in> fst ` set (insts (ir ! b))" "n \<in> fst ` set (insts (ir ! c))"
  shows "b = c"
proof (rule ccontr)
  assume "b \<noteq> c"
  let ?xs = "map (\<lambda>b. map fst (insts b)) ir"
  have "n \<in> set (?xs ! b)" "n \<in> set (?xs ! c)" using assms(2-5) by (auto simp: image_iff)
  moreover have d: "distinct (concat ?xs)" using assms(1) by (simp add: ids_def)
  consider "b < c" | "c < b" using \<open>b \<noteq> c\<close> by linarith
  then have "set (?xs ! b) \<inter> set (?xs ! c) = {}"
    using concat_disjoint [OF d, of b c] concat_disjoint [OF d, of c b] assms(2,3) by cases auto
  ultimately show False by blast
qed

lemma ids_split:
  assumes "distinct (ids ir)" "b < length ir" "insts (ir ! b) = pre @ (n, i) # post"
  shows "n \<notin> fst ` set pre" "n \<notin> fst ` set post"
proof -
  have "distinct (map fst (insts (ir ! b)))"
    using assms(1,2) by (auto simp: ids_def distinct_concat_iff)
  then show "n \<notin> fst ` set pre" "n \<notin> fst ` set post" using assms(3) by (auto simp: image_iff)
qed

text \<open>C13: A removed barrier was redundant, if no move overwrites a checked register with an unchecked
  one and if the analysis assumes nothing at the entry of a handler that a covered block adds
  after an instruction that may throw. Take the sets and the barriers the analysis ends with. On
  every path through the program, exceptional edges included, when execution comes to a removed
  barrier on a register, the object in the register has been through a barrier of the same
  kind, or an allocation barrier, before on that path. Changes of the labels of the region between the two barriers are not part of the
  analysis nor of this statement.\<close>

theorem elimination_sound:
  assumes "ir_ok reads ir" "iterate va reads ir (replicate (length ir) {}) {} = Some (scratch, red)"
    "\<forall>b < length ir. clean reads (insts (ir ! b)) (merge_in scratch (getIn (ir ! b)))"
    "getIn (ir ! 0) = []" "distinct (ids ir)" "reaches reads handler ir b s" "b < length ir"
    "insts (ir ! b) = pre @ (n, Call target (RegOp r) defs) # post" "exec reads pre s t" "n \<in> red"
    "handlers_ok reads handler ir scratch"
  shows "fst t r \<in> snd t"
proof -
  have f: "below reads ir scratch red" "\<forall>b < length ir. scratch ! b = equation reads ir scratch b"
    using iterate_fixpoint [OF assms(1), of va] assms(2) by auto
  obtain c where c: "c < length ir" "n \<in> flagged reads (insts (ir ! c)) (merge_in scratch (getIn (ir ! c)))"
    using f(1) assms(10) unfolding below_def by blast
  have "c = b"
    using ids_unique [OF assms(5) c(1) assms(7)] flagged_ids c(2) assms(8) by fastforce
  moreover have "holds (merge_in scratch (getIn (ir ! b))) s"
    by (rule reaches_holds [OF assms(6,1) f(2) assms(3,4,11)])
  ultimately show ?thesis
    using flagged_checked [OF assms(9), of "merge_in scratch (getIn (ir ! b))" n target r defs post]
      ids_split [OF assms(5,7,8)] c(2) assms(3,7,8) by metis
qed

section \<open>Examples\<close>

definition read_barrier :: "entrypoint option" where
  "read_barrier = Some (Entry READ_BARRIER InsideSR False)"

definition twice :: "basic_block list" where
  "twice = [\<lparr>getIn = [], insts = [(1, Call read_barrier (RegOp 1) []), (2, Call read_barrier (RegOp 1) [])]\<rparr>]"

text \<open>A barrier on a register, a move of an unchecked object into it, and a second barrier.\<close>

definition stale :: "nat \<Rightarrow> nat \<Rightarrow> basic_block list" where
  "stale p q = [\<lparr>getIn = [], insts = [(1, Call read_barrier (RegOp p) []), (2, Move p (RegOp q)),
     (3, Call read_barrier (RegOp p) [])]\<rparr>]"

lemma barrier_roles: "isUse True read_barrier" "\<not> isUse False read_barrier" "\<not> isAlloc read_barrier"
  by (simp_all add: isUse_def isAlloc_def read_barrier_def)

lemma twice_iterate: "iterate va True twice [{}] {} = Some ([{1}], {2})"
  by (subst iterate.simps, subst iterate.simps)
    (simp add: twice_def visit_def use_step_def def_step_def barrier_roles)

lemma twice_ok: "ir_ok True twice"
  by (simp add: ir_ok_def twice_def no_weird_def use_step_def barrier_roles)

theorem elimination_terminates_witness:
  "\<exists>scratch red. computeRedundantBarriers True twice True = Some red \<and> scratch ! 0 = equation True twice scratch 0"
  using elimination_terminates [OF twice_ok, of True] by (auto simp: twice_def)

theorem elimination_sound_witness:
  "iterate True True twice (replicate (length twice) {}) {} = Some ([{1}], {2}) \<and>
   exec True [(1, Call read_barrier (RegOp 1) [])] (\<lambda>_. 7, {}) (\<lambda>_. 7, {7}) \<and>
   fst (\<lambda>r::nat. (7::nat), {7::nat}) 1 \<in> snd (\<lambda>r::nat. (7::nat), {7::nat})"
proof -
  have i: "iterate True True twice (replicate (length twice) {}) {} = Some ([{1}], {2})"
    using twice_iterate by (simp add: twice_def)
  have c: "\<forall>b < length twice. clean True (insts (twice ! b)) (merge_in [{1}] (getIn (twice ! b)))"
    by (simp add: twice_def use_step_def barrier_roles)
  have d: "getIn (twice ! 0) = []" "distinct (ids twice)" "0 < length twice" by (simp_all add: twice_def ids_def)
  have s: "insts (twice ! 0) = [(1, Call read_barrier (RegOp 1) [])] @ (2, Call read_barrier (RegOp 1) []) # []"
    by (simp add: twice_def)
  have "exec_inst True (Call read_barrier (RegOp 1) []) (\<lambda>_. 7, {}) (\<lambda>_. 7, {7})"
    by (simp add: exec_inst_def checked_reg_def barrier_roles)
  then have e: "exec True [(1, Call read_barrier (RegOp 1) [])] (\<lambda>_. 7, {}) (\<lambda>_. 7, {7})"
    by (rule exec_cons) (rule exec_nil)
  have h: "handlers_ok True (\<lambda>_. True) twice [{1}]" by (simp add: handlers_ok_def twice_def)
  show ?thesis
    using elimination_sound [OF twice_ok i c d(1,2) reach_entry d(3) s e _ h] i e by simp
qed

text \<open>C25: A move of an unchecked object into a checked register is missed. In the block \<open>stale\<close> the
  analysis reports the second barrier as redundant and removes it, although some execution
  comes to it with an object in the register that no barrier has seen.\<close>

theorem stale_move_removes_barrier:
  assumes "p \<noteq> q"
  shows "elim_perform va (stale p q) = Some [\<lparr>getIn = [],
      insts = [(1, Call read_barrier (RegOp p) []), (2, Move p (RegOp q))]\<rparr>] \<and>
    (\<exists>t. exec True [(1, Call read_barrier (RegOp p) []), (2, Move p (RegOp q))] (\<lambda>r. r, {}) t \<and> fst t p \<notin> snd t)"
proof -
  have "iterate va True (stale p q) [{}] {} = Some ([{p}], {3})"
    by (subst iterate.simps, subst iterate.simps)
      (use assms in \<open>auto simp: stale_def visit_def use_step_def def_step_def barrier_roles\<close>)
  then have "computeRedundantBarriers va (stale p q) True = Some {3}"
    by (simp add: computeRedundantBarriers_def stale_def)
  moreover have "iterate va False (stale p q) [{}] {} = Some ([{}], {})"
    by (subst iterate.simps) (auto simp: stale_def visit_def use_step_def def_step_def barrier_roles)
  then have "computeRedundantBarriers va (stale p q) False = Some {}"
    by (simp add: computeRedundantBarriers_def stale_def)
  ultimately have "elim_perform va (stale p q) = Some [\<lparr>getIn = [],
      insts = [(1, Call read_barrier (RegOp p) []), (2, Move p (RegOp q))]\<rparr>]"
    by (simp add: elim_perform_def stale_def)
  moreover have "exec_inst True (Call read_barrier (RegOp p) []) (\<lambda>r. r, {}) (\<lambda>r. r, {p})"
    "exec_inst True (Move p (RegOp q)) (\<lambda>r. r, {p}) ((\<lambda>r. r)(p := q), {p})"
    by (simp_all add: exec_inst_def checked_reg_def barrier_roles)
  then have "exec True [(1, Call read_barrier (RegOp p) []), (2, Move p (RegOp q))] (\<lambda>r. r, {}) ((\<lambda>r. r)(p := q), {p})"
    by (rule exec_cons [OF _ exec_cons [OF _ exec_nil]])
  ultimately show ?thesis using assms by (intro conjI exI [of _ "((\<lambda>r. r)(p := q), {p})"]) auto
qed

theorem stale_move_removes_barrier_witness:
  "elim_perform True (stale 1 2) = Some [\<lparr>getIn = [],
     insts = [(1, Call read_barrier (RegOp 1) []), (2, Move 1 (RegOp 2))]\<rparr>]"
  using stale_move_removes_barrier [of 1 2] by simp

text \<open>Two barriers in a block, and a barrier on the second register in the handler that covers the
  block.\<close>

definition covered :: "nat \<Rightarrow> nat \<Rightarrow> basic_block list" where
  "covered p q = [\<lparr>getIn = [], insts = [(1, Call read_barrier (RegOp p) []), (2, Call read_barrier (RegOp q) [])]\<rparr>,
     \<lparr>getIn = [0], insts = [(3, Call read_barrier (RegOp q) [])]\<rparr>]"

text \<open>C26: An exception makes a removed barrier necessary. In the program \<open>covered\<close> the analysis takes
  what holds at the end of the covered block for what holds in its handler, and removes the
  barrier of the handler, although the handler is reached with an object in the register that
  no barrier has seen when the first barrier of the block throws.\<close>

theorem handler_barrier_removed:
  assumes "p \<noteq> q"
  shows "elim_perform va (covered p q) = Some [covered p q ! 0, \<lparr>getIn = [0], insts = []\<rparr>] \<and>
    (\<exists>s. reaches True (\<lambda>c. c = 1) (covered p q) 1 s \<and> fst s q \<notin> snd s)"
proof -
  have "iterate va True (covered p q) [{}, {}] {} = Some ([{p, q}, {p, q}], {3})"
    by (subst iterate.simps, subst iterate.simps)
      (use assms in \<open>auto simp: covered_def visit_def use_step_def def_step_def barrier_roles upt_rec\<close>)
  then have "computeRedundantBarriers va (covered p q) True = Some {3}"
    by (simp add: computeRedundantBarriers_def covered_def numeral_2_eq_2)
  moreover have "iterate va False (covered p q) [{}, {}] {} = Some ([{}, {}], {})"
    by (subst iterate.simps) (auto simp: covered_def visit_def use_step_def def_step_def barrier_roles upt_rec)
  then have "computeRedundantBarriers va (covered p q) False = Some {}"
    by (simp add: computeRedundantBarriers_def covered_def numeral_2_eq_2)
  ultimately have "elim_perform va (covered p q) = Some [covered p q ! 0, \<lparr>getIn = [0], insts = []\<rparr>]"
    by (simp add: elim_perform_def covered_def)
  moreover have "reaches True (\<lambda>c. c = 1) (covered p q) 1 (\<lambda>r. r, {})"
    by (rule reach_throw [OF reach_entry, where pre = "[]" and n = 1 and i = "Call read_barrier (RegOp p) []"])
      (auto simp: covered_def intro: exec_nil)
  ultimately show ?thesis by (intro conjI exI [of _ "(\<lambda>r. r, {})"]) auto
qed

theorem handler_barrier_removed_witness:
  "elim_perform True (covered 1 2) = Some [covered 1 2 ! 0, \<lparr>getIn = [0], insts = []\<rparr>]"
  using handler_barrier_removed [of 1 2 True] by simp

end
