(* ===== verification/Spec2Isabelle.thy ===== *)
theory Spec2Isabelle
  imports Rwsem_Xadd Sys_Bridge Pipe_Props Setid Exec Capset Lsm Barrier_Elim
begin

text \<open>
  Laminar: decentralised information flow control (DIFC) in a Linux 2.6.22.6 kernel and a Jikes
  RVM 3.0.0 virtual machine. Paths below are relative to \<^verbatim>\<open>src/linux-2.6.22.6\<close> and, for files
  ending in \<^verbatim>\<open>.java\<close>, to \<^verbatim>\<open>src/jikesrvm-3.0.0/rvm/src/org/jikesrvm\<close>; \<^verbatim>\<open>sys.C\<close> and \<^verbatim>\<open>difc.h\<close> are in
  \<^verbatim>\<open>src/jikesrvm-3.0.0/tools/bootImageRunner\<close>.

  \<^bold>\<open>The program.\<close> Every task of the kernel has a label (a secrecy list and an integrity list of
  64-bit label names) and capabilities to add (plus) or remove (minus) labels; every inode has
  a label guarded by a reader/writer semaphore. The security module \<^verbatim>\<open>security/difc.c\<close> decides in
  its hooks whether data may flow between a task and an object; the framework of
  \<^verbatim>\<open>security/security.c\<close> calls the hooks, and the file and pipe code calls the framework. In
  the virtual machine a thread enters secure regions, nested scopes with a label set and
  capabilities; compiled code runs barriers before it reads, writes or allocates an object,
  and system calls hand the labels of the region to the kernel.

  \<^bold>\<open>Conventions.\<close> Kernel code is explicit state passing in the type \<open>outcome\<close>: \<open>Ret\<close> a result,
  or \<open>Oops\<close> a null dereference, an access outside an array, a failed \<open>BUG_ON\<close>, a deadlock or
  a task put to sleep. Results of C type \<open>int\<close> are integers, negative error numbers included;
  where the width matters values are words. Java methods return an exception or a value with
  the new state of the machine. What the code takes from outside the model is an argument:
  allocations that may fail, user memory that may fault, operations behind function pointers,
  and, in \<open>Regions\<close> and \<open>File_System\<close>, the calls to the operating system (the records \<open>sysCall\<close>
  and \<open>fileCall\<close>), which \<open>Sys_Bridge\<close> instantiates with the kernel model. Locales describe the
  interfaces between components (\<open>word_store\<close>, \<open>paired_lock\<close>, \<open>byte_stream\<close>, \<open>uid_module\<close>,
  \<open>dropping_module\<close>, \<open>guarded_op\<close>); each is interpreted on the model's own functions where these
  are defined.

  \<^bold>\<open>Kernel theories.\<close>
  \<^item> \<open>Kernel_Prelude\<close>: machine types, error numbers, outcomes, list and word lemmas.
  \<^item> \<open>Counted_Array\<close>, \<open>Labels\<close> (\<^verbatim>\<open>security/difc.c\<close>): the arrays of 32 words whose first word is
    the count, adding and removing a label, and \<open>check_allowed\<close>. Shown: the flow check decides
    the subset order on both lists and always returns.
  \<^item> \<open>Xattr\<close>: the extended attribute of a label. Shown: what survives writing and reading back.
  \<^item> \<open>Caps\<close>: the segmented capability lists; drop, suspend, resume and send. Shown: authority is
    conserved by dropping and sending when the words passed are plain labels, and where
    resuming creates it.
  \<^item> \<open>Rwsem\<close> (\<^verbatim>\<open>lib/rwsem-spinlock.c\<close>): the semaphore with its queue and 32-bit counter, one step
    per call (the spin lock makes each call atomic). Shown by rule induction over all
    interleavings with fewer than 2^31 holders and waiters: mutual exclusion, and that a
    release wakes the front of the queue.
  \<^item> \<open>Rwsem_Xadd\<close> (\<^verbatim>\<open>include/asm-i386/rwsem.h\<close>, \<^verbatim>\<open>lib/rwsem.c\<close>, \<^verbatim>\<open>arch/i386/lib/semaphore.S\<close>):
    the semaphore that \<^verbatim>\<open>recommended.config\<close> selects. Shown: call by call, with room in both
    halves of its count, it does what the one of \<open>Rwsem\<close> does; the theories below use \<open>Rwsem\<close>.
    A release of a lock that is not held leaves the two in different states.
  \<^item> \<open>Difc\<close>, \<open>Difc_Props\<close> (\<^verbatim>\<open>security/difc.c\<close>): the hooks on tasks, inodes, files, sockets and
    exec, allocation and replacement of labels. Shown: label changes stay within capabilities,
    accesses follow the flow order and leave the semaphore balanced, the labels
    handed out by any sequence of allocations are pairwise distinct until the counter
    overflows, a new inode gets a label its creator may write and its bytes as attribute.
  \<^item> \<open>Vfs\<close>, \<open>Vfs_Props\<close>, \<open>Vfs_Locks\<close> (\<^verbatim>\<open>fs/read_write.c\<close>, \<^verbatim>\<open>fs/file_table.c\<close>,
    \<^verbatim>\<open>fs/readdir.c\<close>, \<^verbatim>\<open>fs/aio.c\<close>): the calls on open files around the file hooks. Shown: reading
    and writing transfer nothing against the flow and give the label lock back on every path;
    \<open>sendfile\<close> does so unless it reports an overflow or cannot store the offset; the places where
    the lock is kept or given back once too often.
  \<^item> \<open>Pipe\<close>, \<open>Pipe_Props\<close> (\<^verbatim>\<open>fs/pipe.c\<close>): the ring of page buffers. Shown: it refines a byte
    queue over any sequence of reads and writes; each call on each branch; the end of file that
    a closing task without permission hides.
  \<^item> \<open>Creds\<close>, \<open>Setid\<close>, \<open>Exec\<close>, \<open>Capset\<close> (\<^verbatim>\<open>security/commoncap.c\<close>, \<^verbatim>\<open>security/dummy.c\<close>,
    \<^verbatim>\<open>kernel/sys.c\<close>, \<^verbatim>\<open>fs/exec.c\<close>, \<^verbatim>\<open>kernel/capability.c\<close>): user identities and Linux capability
    sets under the three sets of credential hooks. Shown: giving up root is final, \<open>capset\<close>
    cannot escalate, and what set-uid programs get under each module.
  \<^item> \<open>Lsm\<close> (\<^verbatim>\<open>security/security.c\<close>, \<^verbatim>\<open>security/dummy.c\<close>, \<^verbatim>\<open>security/capability.c\<close>,
    \<^verbatim>\<open>security/root_plug.c\<close>): registration of modules and the system calls on labels. Shown:
    the invariant of the active table over all loads and unloads.

  \<^bold>\<open>Virtual machine theories.\<close>
  \<^item> \<open>Label_Sets\<close> (\<^verbatim>\<open>scheduler/LabelSet.java\<close>): sorted sets with short cuts on identity. Shown:
    they compute the operations on sets.
  \<^item> \<open>Regions\<close>, \<open>Region_Refine\<close>, \<open>Region_Props\<close> (\<^verbatim>\<open>scheduler/DIFC.java\<close>,
    \<^verbatim>\<open>scheduler/SRState.java\<close>, \<^verbatim>\<open>scheduler/greenthreads/GreenThread.java\<close>): entering and
    leaving regions and every change of labels and capabilities. Shown: all runs refine an
    abstract stack of regions; labels and capabilities stay within what the thread held; what
    a refused start leaves behind.
  \<^item> \<open>Barriers\<close>, \<open>Barrier_Elim\<close> (\<^verbatim>\<open>scheduler/DIFC.java\<close>, \<^verbatim>\<open>mm/mminterface/MemoryManager.java\<close>,
    \<^verbatim>\<open>runtime/RuntimeEntrypoints.java\<close>, \<^verbatim>\<open>runtime/Entrypoints.java\<close>,
    \<^verbatim>\<open>compilers/common/RuntimeCompiler.java\<close>, \<^verbatim>\<open>compilers/opt/hir2lir/RemoveRedundantDIFCBarriers.java\<close>):
    the barriers, their choice for a method when it is first compiled, the placement of new objects, and the data-flow
    analysis that removes redundant barriers. Shown: a barrier lets exactly the allowed flows
    through if it fits the side of the region boundary, which a static barrier need not; the
    analysis terminates in a solution of its equations and removes only redundant barriers,
    exceptional edges included, except after a move it overlooks or in a handler whose
    covered block is left before a barrier it relies on.
  \<^item> \<open>File_System\<close> (\<^verbatim>\<open>scheduler/greenthreads/FileSystem.java\<close>): the file operations, which pass the
    labels and then call the operating system. Shown: a buffer is written in order without
    gaps or repetitions through partial writes and waits.
  \<^item> \<open>Sys_Bridge\<close> (\<^verbatim>\<open>sys.C\<close>, \<^verbatim>\<open>difc.h\<close>): the C code between both halves, on a machine that has
    the kernel model of \<open>Vfs\<close> and \<open>Difc\<close> below. Shown: the labels of a region arrive as a
    well-formed label made of their 32-bit halves; once the kernel has accepted the label of a
    region, a write from the region to a file without it is refused; a region with two
    secrecy labels is never accepted, and its writes go on with the old label.

  \<^bold>\<open>Bounds and fuel.\<close> Loops are structural recursion over the list walked, or recursion with a
  termination proof. The loop of the data-flow analysis is a partial function, for which
  termination is a theorem. The retry loop of the synchronous file calls has the fuel
  \<open>retries\<close>; running out of it is \<open>Oops Sleeps\<close>, the state of a task that waits for a driver.
  The loops that repeat an interrupted or blocked call have the fuel \<open>k_again\<close> (\<^verbatim>\<open>sys.C\<close>) and
  \<open>patience\<close> (\<^verbatim>\<open>FileSystem.java\<close>), whose end means that the thread still waits; a \<open>patience\<close> of
  the number of bytes is enough when every call takes at least one.
  Label lists have 31 entries, as \<^verbatim>\<open>LABEL_LIST_BYTES\<close> says.

  \<^bold>\<open>Not modelled.\<close> Debug output, accounting and notification; memory management and scheduling
  below \<open>schedule()\<close>; path look-up and opening of files (\<^verbatim>\<open>fs/namei.c\<close>, \<^verbatim>\<open>fs/open.c\<close>); splice
  and the pipe file system; completion of asynchronous requests; sockets beyond their hook;
  SELinux, keys and securityfs; two processors inside one call of the semaphore of
  \<open>Rwsem_Xadd\<close>; the mapper regions of Airavat; a null capability set passed to
  \<open>initializeThreadCapability\<close>; the compilers that emit the barriers into machine code, the
  garbage collectors and class loading; \<open>readBytes\<close> with a time limit, and the calls of \<^verbatim>\<open>sys.C\<close>
  that only wrap the C library. These are unchanged system code that the label
  mechanism only sits beside, or code whose meaning is that of the machine it generates.
\<close>

end
